(* ===== verification/Prelude.thy ===== *)
theory Prelude
  imports Main "HOL-Library.Word"
begin

text \<open>
  Shared vocabulary of the development: the machine-integer types of the Rust sources, the
  little- and big-endian byte images of integers (\<open>to_le_bytes\<close>, \<open>to_be_bytes\<close> and their
  inverses of the standard library), Rust's \<open>Result\<close> with its \<open>?\<close> operator, the slice
  operations \<open>chunks\<close> and \<open>cycle().zip\<close>, and the theorem collections the components fill.
\<close>

unbundle bit_operations_syntax

section \<open>Types\<close>

type_synonym byte = "8 word"
type_synonym bytes = "byte list"
type_synonym u8 = "8 word"
type_synonym u16 = "16 word"
type_synonym u32 = "32 word"
type_synonym u64 = "64 word"

text \<open>
  \<open>i32\<close> is the same 32 bits as \<open>u32\<close>; the signed reading is \<open>sint\<close>. The sources only
  compare and copy connection identifiers, so the bit pattern is all that is needed.
\<close>

type_synonym i32 = "32 word"

type_synonym usize = nat

named_theorems stream_intros "introduction rules for incremental parsers"
named_theorems wire_simps "byte layouts of the wire encodings"

section \<open>Results\<close>

abbreviation Ok :: "'a \<Rightarrow> 'e + 'a" where "Ok \<equiv> Inr"
abbreviation Err :: "'e \<Rightarrow> 'e + 'a" where "Err \<equiv> Inl"

definition is_ok :: "'e + 'a \<Rightarrow> bool" where
  "is_ok r = (case r of Inl _ \<Rightarrow> False | Inr _ \<Rightarrow> True)"

lemma is_ok_simps [simp]: "is_ok (Ok x)" "\<not> is_ok (Err e)"
  by (simp_all add: is_ok_def)

lemma is_ok_iff: "is_ok r \<longleftrightarrow> (\<exists>x. r = Ok x)"
  by (cases r) auto

section \<open>Byte images of integers\<close>

primrec from_le :: "bytes \<Rightarrow> 'a::len word" where
  "from_le [] = 0"
| "from_le (b # bs) = ucast b OR push_bit 8 (from_le bs)"

definition to_le16 :: "u16 \<Rightarrow> bytes" where
  "to_le16 w = [ucast w, ucast (drop_bit 8 w)]"

definition to_le32 :: "u32 \<Rightarrow> bytes" where
  "to_le32 w =
     [ucast w, ucast (drop_bit 8 w), ucast (drop_bit 16 w), ucast (drop_bit 24 w)]"

definition to_be16 :: "u16 \<Rightarrow> bytes" where
  "to_be16 w = rev (to_le16 w)"

definition to_be32 :: "u32 \<Rightarrow> bytes" where
  "to_be32 w = rev (to_le32 w)"

lemma length_to_le [simp]:
  "length (to_le16 w) = 2" "length (to_le32 v) = 4"
  by (simp_all add: to_le16_def to_le32_def)

lemma length_to_be [simp]:
  "length (to_be16 w) = 2" "length (to_be32 v) = 4"
  by (simp_all add: to_be16_def to_be32_def)

lemma from_to_le16 [simp]: "from_le (to_le16 w) = w"
  by (rule bit_word_eqI) (auto simp: to_le16_def bit_simps)

lemma from_to_le32 [simp]: "from_le (to_le32 w) = w"
proof (rule bit_word_eqI)
  fix n :: nat
  assume "n < LENGTH(32)"
  then consider "n < 8" | "8 \<le> n" "n < 16" | "16 \<le> n" "n < 24" | "24 \<le> n" "n < 32"
    by force
  then show "bit (from_le (to_le32 w) :: u32) n = bit w n"
    by cases (auto simp: to_le32_def bit_simps)
qed

lemma length_4E:
  assumes "length bs = 4"
  obtains a b c d where "bs = [a, b, c, d]"
  using assms by (auto simp: length_Suc_conv numeral_eq_Suc)

lemma to_from_le32: "length bs = 4 \<Longrightarrow> to_le32 (from_le bs) = bs"
proof (erule length_4E)
  fix a b c d :: byte
  assume bs: "bs = [a, b, c, d]"
  have "ucast (from_le [a, b, c, d] :: u32) = a"
    by (rule bit_word_eqI) (auto simp: bit_simps)
  moreover have "ucast (drop_bit 8 (from_le [a, b, c, d] :: u32)) = b"
    by (rule bit_word_eqI) (auto simp: bit_simps dest: bit_imp_le_length)
  moreover have "ucast (drop_bit 16 (from_le [a, b, c, d] :: u32)) = c"
    by (rule bit_word_eqI) (auto simp: bit_simps dest: bit_imp_le_length)
  moreover have "ucast (drop_bit 24 (from_le [a, b, c, d] :: u32)) = d"
    by (rule bit_word_eqI) (auto simp: bit_simps dest: bit_imp_le_length)
  ultimately show ?thesis
    by (simp add: to_le32_def bs)
qed

lemma to_from_le16: "length bs = 2 \<Longrightarrow> to_le16 (from_le bs) = bs"
proof -
  assume "length bs = 2"
  then obtain a b where bs: "bs = [a, b]"
    by (auto simp: length_Suc_conv numeral_eq_Suc)
  have "ucast (from_le [a, b] :: u16) = a"
    by (rule bit_word_eqI) (auto simp: bit_simps)
  moreover have "ucast (drop_bit 8 (from_le [a, b] :: u16)) = b"
    by (rule bit_word_eqI) (auto simp: bit_simps dest: bit_imp_le_length)
  ultimately show ?thesis
    by (simp add: to_le16_def bs)
qed

lemma to_le32_inject [simp]: "to_le32 v = to_le32 w \<longleftrightarrow> v = w"
  by (metis from_to_le32)

section \<open>Word and length conversions\<close>

text \<open>
  \<open>len as u32\<close> truncates to 32 bits. Below the bound it loses nothing.
\<close>

lemma unat_of_nat_u32 [simp]: "n < 4294967296 \<Longrightarrow> unat (of_nat n :: u32) = n"
  by (simp add: unat_of_nat take_bit_nat_eq_self)

lemma of_nat_u32_eq_0: "n < 4294967296 \<Longrightarrow> (of_nat n :: u32) = 0 \<longleftrightarrow> n = 0"
proof
  assume n: "n < 4294967296" and "(of_nat n :: u32) = 0"
  then have "unat (of_nat n :: u32) = 0" by simp
  with n show "n = 0" by simp
qed simp

lemma unat_of_nat_u16 [simp]: "n < 65536 \<Longrightarrow> unat (of_nat n :: u16) = n"
  by (simp add: unat_of_nat take_bit_nat_eq_self)

lemma unat_lt_u32: "unat (w :: u32) < 4294967296"
  using unsigned_less [of w] by simp

lemma unat_lt_u16: "unat (w :: u16) < 65536"
  using unsigned_less [of w] by simp

lemma unat_lt_u8: "unat (w :: u8) < 256"
  using unsigned_less [of w] by simp

lemma unat_ucast_up [simp]:
  "unat (ucast (b :: u8) :: u16) = unat b" "unat (ucast (b :: u8) :: u32) = unat b"
  "unat (ucast (w :: u16) :: u32) = unat w" "unat (ucast (d :: u32) :: u64) = unat d"
  using unat_lt_u8 [of b] unat_lt_u16 [of w] unat_lt_u32 [of d]
  by (simp_all add: unsigned_ucast_eq take_bit_nat_eq_self)

text \<open>Equality of bytes bit by bit, for the header bytes that are put together with masks.\<close>

lemma byte_eqI:
  fixes a b :: byte
  assumes "bit a 0 = bit b 0" "bit a 1 = bit b 1" "bit a 2 = bit b 2" "bit a 3 = bit b 3"
    "bit a 4 = bit b 4" "bit a 5 = bit b 5" "bit a 6 = bit b 6" "bit a 7 = bit b 7"
  shows "a = b"
proof (rule bit_word_eqI)
  fix n assume "n < LENGTH(8)"
  then have "n = 0 \<or> n = 1 \<or> n = 2 \<or> n = 3 \<or> n = 4 \<or> n = 5 \<or> n = 6 \<or> n = 7" by auto
  then show "bit a n = bit b n" using assms by (elim disjE) simp_all
qed

lemmas byte_bits = bit_and_iff bit_or_iff bit_drop_bit_eq bit_push_bit_iff

lemma word_and_bound:
  fixes x m :: "'a::len word"
  shows "unat (x AND m) \<le> unat m"
  by (metis word_and_le1 word_le_nat_alt)

lemma word_xor_cancel [simp]: "(k :: 'a::len word) XOR (k XOR b) = b"
  by (simp add: xor.assoc [symmetric])

text \<open>\<open>u32::saturating_add\<close>.\<close>

definition sat_add32 :: "u32 \<Rightarrow> u32 \<Rightarrow> u32" where
  "sat_add32 a b = (if 0xffffffff < unat a + unat b then 0xffffffff else a + b)"

lemma unat_sat_add32: "unat (sat_add32 a b) = min 0xffffffff (unat a + unat b)"
proof (cases "0xffffffff < unat a + unat b")
  case False
  then have "unat (a + b) = unat a + unat b"
    by (subst unat_add_lem [symmetric]) simp
  with False show ?thesis by (simp add: sat_add32_def)
qed (simp add: sat_add32_def)

lemma unat_succ_u32: "unat (w :: u32) < 0xffffffff \<Longrightarrow> unat (w + 1) = Suc (unat w)"
  using unat_add_lem [of w 1] by simp

lemma u32_max_iff: "(w :: u32) = 0xffffffff \<longleftrightarrow> unat w = 0xffffffff"
  by (simp add: word_unat_eq_iff)

lemma u32_lt_max: "(w :: u32) \<noteq> 0xffffffff \<longleftrightarrow> w < 0xffffffff"
  using unat_lt_u32 [of w] by (auto simp: u32_max_iff word_less_nat_alt)

section \<open>Strings\<close>

text \<open>A Rust string is kept as its UTF-8 bytes, one character per byte.\<close>

definition string_bytes :: "string \<Rightarrow> bytes" where
  "string_bytes s = map (\<lambda>c. of_nat (of_char c)) s"

definition bytes_string :: "bytes \<Rightarrow> string" where
  "bytes_string b = map (\<lambda>x. char_of (unat x)) b"

lemma length_string_bytes [simp]: "length (string_bytes s) = length s"
  by (simp add: string_bytes_def)

lemma bytes_string_bytes [simp]: "bytes_string (string_bytes s) = s"
proof -
  have "unat (of_nat (of_char c) :: byte) = of_char c" for c
    using nat_of_char_less_256 [of c] by (simp add: unat_of_nat take_bit_nat_eq_self)
  then show ?thesis by (simp add: string_bytes_def bytes_string_def comp_def)
qed

section \<open>Slices\<close>

text \<open>
  \<open>slice.chunks(n)\<close>: consecutive pieces of length \<open>n\<close>, the last one possibly shorter. Rust
  panics on \<open>n = 0\<close>; every caller passes a positive constant.
\<close>

function chunks :: "nat \<Rightarrow> 'a list \<Rightarrow> 'a list list" where
  "chunks n xs = (if xs = [] \<or> n = 0 then [] else take n xs # chunks n (drop n xs))"
  by pat_completeness auto
termination
  by (relation "measure (\<lambda>(n, xs). length xs)") auto

declare chunks.simps [simp del]

lemma chunks_Nil [simp]: "chunks n [] = []"
  by (simp add: chunks.simps)

lemma concat_chunks: "0 < n \<Longrightarrow> concat (chunks n xs) = xs"
proof (induction n xs rule: chunks.induct)
  case (1 n xs)
  then show ?case by (cases "xs = []") (simp_all add: chunks.simps [of n xs])
qed

lemma chunks_unfold:
  "0 < n \<Longrightarrow> xs \<noteq> [] \<Longrightarrow> chunks n xs = take n xs # chunks n (drop n xs)"
  by (simp add: chunks.simps [of n xs])

lemma chunks_eq_Nil [simp]: "0 < n \<Longrightarrow> chunks n xs = [] \<longleftrightarrow> xs = []"
  by (simp add: chunks.simps [of n xs])

lemma chunks_bounds: "c \<in> set (chunks n xs) \<Longrightarrow> c \<noteq> [] \<and> length c \<le> n"
proof (induction n xs rule: chunks.induct)
  case (1 n xs)
  then show ?case
    by (cases "xs = [] \<or> n = 0") (auto simp: chunks.simps [of n xs])
qed

text \<open>
  \<open>buf.iter().zip(key.cycle())\<close>: the \<open>i\<close>-th element meets \<open>key[i mod key.len()]\<close>.
\<close>

definition zip_cycle :: "nat \<Rightarrow> 'k list \<Rightarrow> ('k \<Rightarrow> 'a \<Rightarrow> 'b) \<Rightarrow> 'a list \<Rightarrow> 'b list" where
  "zip_cycle skip key f xs =
     map (\<lambda>(i, x). f (key ! ((skip + i) mod length key)) x) (List.enumerate 0 xs)"

lemma length_zip_cycle [simp]: "length (zip_cycle s key f xs) = length xs"
  by (simp add: zip_cycle_def)

lemma nth_zip_cycle:
  "i < length xs \<Longrightarrow> zip_cycle s key f xs ! i = f (key ! ((s + i) mod length key)) (xs ! i)"
  by (simp add: zip_cycle_def nth_enumerate_eq)

lemma zip_cycle_involution:
  assumes "\<And>k x. f k (f k x) = x"
  shows "zip_cycle s key f (zip_cycle s key f xs) = xs"
  by (rule nth_equalityI) (simp_all add: nth_zip_cycle assms)

section \<open>UTF-8\<close>

text \<open>
  \<open>utf8_valid\<close> is the check of \<open>String::from_utf8\<close>.
\<close>

definition utf8_cont :: "byte \<Rightarrow> bool" where
  "utf8_cont b \<longleftrightarrow> 0x80 \<le> b \<and> b \<le> 0xbf"

fun utf8_valid :: "bytes \<Rightarrow> bool" where
  "utf8_valid [] = True"
| "utf8_valid (a # r) =
     (if a \<le> 0x7f then utf8_valid r
      else case r of
        [] \<Rightarrow> False
      | b # r2 \<Rightarrow>
          if 0xc2 \<le> a \<and> a \<le> 0xdf then utf8_cont b \<and> utf8_valid r2
          else case r2 of
            [] \<Rightarrow> False
          | c # r3 \<Rightarrow>
              if 0xe0 \<le> a \<and> a \<le> 0xef
              then (a = 0xe0 \<longrightarrow> 0xa0 \<le> b) \<and> (a = 0xed \<longrightarrow> b \<le> 0x9f) \<and>
                   utf8_cont b \<and> utf8_cont c \<and> utf8_valid r3
              else case r3 of
                [] \<Rightarrow> False
              | d # r4 \<Rightarrow>
                  0xf0 \<le> a \<and> a \<le> 0xf4 \<and> (a = 0xf0 \<longrightarrow> 0x90 \<le> b) \<and> (a = 0xf4 \<longrightarrow> b \<le> 0x8f) \<and>
                  utf8_cont b \<and> utf8_cont c \<and> utf8_cont d \<and> utf8_valid r4)"

definition from_utf8 :: "bytes \<Rightarrow> string option" where
  "from_utf8 b = (if utf8_valid b then Some (bytes_string b) else None)"

section \<open>Event-driven components\<close>

text \<open>The state after a list of events; \<open>None\<close> when one of the steps panics.\<close>

fun run_events :: "('e \<Rightarrow> 's \<Rightarrow> 's option) \<Rightarrow> 'e list \<Rightarrow> 's \<Rightarrow> 's option" where
  "run_events step [] s = Some s"
| "run_events step (e # es) s = (case step e s of None \<Rightarrow> None | Some s' \<Rightarrow> run_events step es s')"

lemma run_events_append:
  "run_events step (es @ es') s = (case run_events step es s of None \<Rightarrow> None | Some s' \<Rightarrow> run_events step es' s')"
  by (induction es arbitrary: s) (auto split: option.splits)

text \<open>
  The contract of an invariant: every step of an admissible event keeps it. Then it holds after
  every list of admissible events.
\<close>

locale step_invariant =
  fixes step :: "'e \<Rightarrow> 's \<Rightarrow> 's option" and ok :: "'e \<Rightarrow> bool" and inv :: "'s \<Rightarrow> bool"
  assumes keeps: "inv s \<Longrightarrow> ok e \<Longrightarrow> step e s = Some s' \<Longrightarrow> inv s'"
begin

lemma run_keeps: "inv s \<Longrightarrow> (\<And>e. e \<in> set es \<Longrightarrow> ok e) \<Longrightarrow> run_events step es s = Some s' \<Longrightarrow> inv s'"
  by (induction es arbitrary: s) (auto split: option.splits dest: keeps)

end

end
