(* ===== verification/Wire.thy ===== *)
theory Wire
  imports Prelude
begin

text \<open>
  The parsing and serialising layer the three Baichuan codecs share. The sources write their
  parsers with the combinators of the \<open>nom\<close> crate and their serialisers with those of
  \<open>cookie-factory\<close>. Both crates are outside the repository, so their primitive readers and
  writers are a parameter of the model, a record \<open>wire\<close>; the locale \<open>wire_lib\<close> states their
  documented behaviour. Sequencing (\<open>let (buf, x) = p(buf)?;\<close>) is \<open>pbind\<close>. The notion of an
  incremental parser is defined here together with what it gives a framing codec.
\<close>

section \<open>Errors\<close>

text \<open>
  \<open>nom::Err\<close>. The text that nom attaches to \<open>Error\<close> and \<open>Failure\<close> is only ever logged and is
  left out; \<open>Incomplete\<close> carries the number of missing bytes.
\<close>

datatype nom_err = NIncomplete nat | NError | NFailure

text \<open>
  The variants of \<open>baichuan::Error\<close> that the modelled code produces.
\<close>

datatype bc_error =
    NomIncomplete nat
  | NomError
  | GenError nat
  | RelayTerminate
  | CameraTerminate
  | UnknownEncryption nat
  | BcUdpDropSender
  | BcUdpDropReceiver

fun error_from_nom :: "nom_err \<Rightarrow> bc_error" where
  "error_from_nom NError = NomError"
| "error_from_nom NFailure = NomError"
| "error_from_nom (NIncomplete n) = NomIncomplete n"

section \<open>Parsers\<close>

type_synonym 'a parser = "bytes \<Rightarrow> nom_err + (bytes \<times> 'a)"

definition pret :: "'a \<Rightarrow> 'a parser" where
  "pret x buf = Ok (buf, x)"

definition pfail :: "nom_err \<Rightarrow> 'a parser" where
  "pfail e buf = Err e"

definition pbind :: "'a parser \<Rightarrow> ('a \<Rightarrow> 'b parser) \<Rightarrow> 'b parser" where
  "pbind p f buf = (case p buf of Inl e \<Rightarrow> Err e | Inr (buf', x) \<Rightarrow> f x buf')"

text \<open>\<open>verify(p, pred)\<close>: run \<open>p\<close>, then a recoverable error when the predicate fails.\<close>

definition verify :: "'a parser \<Rightarrow> ('a \<Rightarrow> bool) \<Rightarrow> 'a parser" where
  "verify p P = pbind p (\<lambda>x. if P x then pret x else pfail NError)"

text \<open>\<open>map_res(p, f)\<close> and the \<open>try_parse(..).map_err(..)?\<close> idiom.\<close>

definition map_res :: "'a parser \<Rightarrow> ('a \<Rightarrow> 'b option) \<Rightarrow> 'b parser" where
  "map_res p f = pbind p (\<lambda>x. case f x of None \<Rightarrow> pfail NError | Some y \<Rightarrow> pret y)"

text \<open>\<open>cond(b, p)\<close>.\<close>

definition cond_p :: "bool \<Rightarrow> 'a parser \<Rightarrow> 'a option parser" where
  "cond_p b p = (if b then pbind p (\<lambda>x. pret (Some x)) else pret None)"

lemma pbind_simps [simp]:
  "p buf = Ok (buf', x) \<Longrightarrow> pbind p f buf = f x buf'"
  "p buf = Err e \<Longrightarrow> pbind p f buf = Err e"
  by (simp_all add: pbind_def)

lemma pbind_Ok_iff:
  "pbind p f buf = Ok (rest, y) \<longleftrightarrow> (\<exists>mid x. p buf = Ok (mid, x) \<and> f x mid = Ok (rest, y))"
  by (auto simp: pbind_def split: sum.splits)

lemma pret_apply [simp]: "pret x buf = Ok (buf, x)"
  by (simp add: pret_def)

lemma pfail_apply [simp]: "pfail e buf = Err e"
  by (simp add: pfail_def)

lemma pbind_assoc: "pbind (pbind p f) g = pbind p (\<lambda>x. pbind (f x) g)"
  by (rule ext) (simp add: pbind_def split: sum.splits)

lemma pbind_pret [simp]: "pbind (pret x) f = f x"
  by (rule ext) (simp add: pbind_def)

lemma verify_Ok_iff: "verify p P buf = Ok (rest, x) \<longleftrightarrow> p buf = Ok (rest, x) \<and> P x"
  by (auto simp: verify_def pbind_Ok_iff split: if_splits)

section \<open>How many bytes a parser asks for\<close>

text \<open>
  \<open>need k p\<close>: whenever \<open>p\<close> reports missing input, it asks for at most \<open>k\<close> more bytes. A framing
  buffer in front of such a parser stays bounded.
\<close>

definition need :: "nat \<Rightarrow> 'a parser \<Rightarrow> bool" where
  "need k p \<longleftrightarrow> (\<forall>buf n. p buf = Err (NIncomplete n) \<longrightarrow> n \<le> k)"

lemma need_mono: "need j p \<Longrightarrow> j \<le> k \<Longrightarrow> need k p"
  by (force simp: need_def)

lemma need_pret: "need k (pret x)"
  by (simp add: need_def)

lemma need_pfails: "need k (pfail NError)" "need k (pfail NFailure)"
  by (simp_all add: need_def)

lemma need_pbind: "need k p \<Longrightarrow> (\<And>x. need k (f x)) \<Longrightarrow> need k (pbind p f)"
  by (fastforce simp: need_def pbind_def split: sum.splits)

lemma need_verify_bind:
  "need k p \<Longrightarrow> (\<And>x. P x \<Longrightarrow> need k (f x)) \<Longrightarrow> need k (pbind (verify p P) f)"
  by (fastforce simp: need_def pbind_def verify_def split: sum.splits if_splits)

lemma need_if:
  "(b \<Longrightarrow> need k p) \<Longrightarrow> (\<not> b \<Longrightarrow> need k q) \<Longrightarrow> need k (if b then p else q)"
  by simp

lemma need_option:
  "(v = None \<Longrightarrow> need k p) \<Longrightarrow> (\<And>x. v = Some x \<Longrightarrow> need k (q x)) \<Longrightarrow>
   need k (case v of None \<Rightarrow> p | Some x \<Rightarrow> q x)"
  by (cases v) auto

lemmas need_intros =
  need_verify_bind need_pret need_pfails need_if need_option need_pbind

section \<open>Incremental parsers\<close>

text \<open>
  A parser is incremental when it consumes a prefix of its input and its verdict, other than
  \<open>Incomplete\<close>, does not change when more bytes arrive behind it.
\<close>

definition incremental :: "'a parser \<Rightarrow> bool" where
  "incremental p \<longleftrightarrow>
     (\<forall>buf rest x. p buf = Ok (rest, x) \<longrightarrow>
        (\<exists>used. buf = used @ rest) \<and> (\<forall>more. p (buf @ more) = Ok (rest @ more, x))) \<and>
     (\<forall>buf e. p buf = Err e \<and> (\<forall>n. e \<noteq> NIncomplete n) \<longrightarrow>
        (\<forall>more. p (buf @ more) = Err e))"

lemma incremental_okD:
  "incremental p \<Longrightarrow> p buf = Ok (rest, x) \<Longrightarrow> p (buf @ more) = Ok (rest @ more, x)"
  by (simp add: incremental_def)

lemma incremental_suffixD:
  "incremental p \<Longrightarrow> p buf = Ok (rest, x) \<Longrightarrow> \<exists>used. buf = used @ rest"
  by (simp add: incremental_def)

lemma incremental_errD:
  "incremental p \<Longrightarrow> p buf = Err e \<Longrightarrow> (\<And>n. e \<noteq> NIncomplete n) \<Longrightarrow> p (buf @ more) = Err e"
  by (simp add: incremental_def)

lemma incremental_pret [stream_intros]: "incremental (pret x)"
  by (simp add: incremental_def)

lemma incremental_pfail [stream_intros]: "incremental (pfail e)"
  by (simp add: incremental_def)

lemma incremental_pbind [stream_intros]:
  assumes p: "incremental p" and f: "\<And>x. incremental (f x)"
  shows "incremental (pbind p f)"
  unfolding incremental_def
proof (intro conjI allI impI)
  fix buf rest y
  assume ok: "pbind p f buf = Ok (rest, y)"
  then obtain mid x where px: "p buf = Ok (mid, x)" and fx: "f x mid = Ok (rest, y)"
    by (auto simp: pbind_def split: sum.splits)
  obtain u v where "buf = u @ mid" "mid = v @ rest"
    using incremental_suffixD [OF p px] incremental_suffixD [OF f fx] by blast
  then show "\<exists>used. buf = used @ rest" by auto
  fix more
  show "pbind p f (buf @ more) = Ok (rest @ more, y)"
    using incremental_okD [OF p px] incremental_okD [OF f fx] by simp
next
  fix buf e more
  assume err: "pbind p f buf = Err e \<and> (\<forall>n. e \<noteq> NIncomplete n)"
  show "pbind p f (buf @ more) = Err e"
  proof (cases "p buf")
    case (Inl e')
    with err incremental_errD [OF p Inl] show ?thesis by simp
  next
    case (Inr r)
    obtain mid x where "r = (mid, x)" by force
    with Inr err have px: "p buf = Ok (mid, x)" and fx: "f x mid = Err e" by simp_all
    from incremental_okD [OF p px] incremental_errD [OF f fx] err show ?thesis by simp
  qed
qed

lemma incremental_if [stream_intros]:
  "(b \<Longrightarrow> incremental p) \<Longrightarrow> (\<not> b \<Longrightarrow> incremental q) \<Longrightarrow> incremental (if b then p else q)"
  by simp

lemma incremental_case_option [stream_intros]:
  "(v = None \<Longrightarrow> incremental p) \<Longrightarrow> (\<And>x. v = Some x \<Longrightarrow> incremental (q x)) \<Longrightarrow>
   incremental (case v of None \<Rightarrow> p | Some x \<Rightarrow> q x)"
  by (cases v) auto

lemma incremental_verify [stream_intros]: "incremental p \<Longrightarrow> incremental (verify p P)"
  by (auto simp: verify_def intro: stream_intros)

lemma incremental_map_res [stream_intros]: "incremental p \<Longrightarrow> incremental (map_res p f)"
  by (auto simp: map_res_def intro!: stream_intros)

lemma incremental_cond_p [stream_intros]:
  "(b \<Longrightarrow> incremental p) \<Longrightarrow> incremental (cond_p b p)"
  by (auto simp: cond_p_def intro!: stream_intros)

text \<open>
  What framing needs: every proper prefix of a complete frame is answered by \<open>Incomplete\<close>,
  never by an error and never by some other frame.
\<close>

lemma proper_prefix_incomplete:
  assumes inc: "incremental p" and full: "p s = Ok ([], x)" and n: "n < length s"
  shows "\<exists>k. p (take n s) = Err (NIncomplete k)"
proof (cases "p (take n s)")
  case (Inr r)
  obtain rest y where r: "r = (rest, y)" by force
  from Inr r have "p (take n s @ drop n s) = Ok (rest @ drop n s, y)"
    by (intro incremental_okD [OF inc]) simp
  with full have "drop n s = []" by simp
  with n show ?thesis by simp
next
  case (Inl e)
  then have "\<exists>k. e = NIncomplete k"
    using incremental_errD [OF inc Inl, of "drop n s"] full by fastforce
  with Inl show ?thesis by auto
qed

section \<open>The framing entry point\<close>

text \<open>
  \<open>deserialize\<close> of each codec: run the parser on the buffer (\<open>consumed\<close>), on success advance
  the buffer past the parsed bytes, on failure leave it alone.
\<close>

definition deserialize_with :: "'a parser \<Rightarrow> bytes \<Rightarrow> (bc_error + 'a) \<times> bytes" where
  "deserialize_with p buf =
     (case p buf of
        Inl e \<Rightarrow> (Err (error_from_nom e), buf)
      | Inr (rest, x) \<Rightarrow> (Ok x, drop (length buf - length rest) buf))"

lemma deserialize_with_ok:
  "incremental p \<Longrightarrow> p buf = Ok (rest, x) \<Longrightarrow> deserialize_with p buf = (Ok x, rest)"
  by (frule (1) incremental_suffixD) (auto simp: deserialize_with_def)

lemma deserialize_with_err:
  "p buf = Err e \<Longrightarrow> deserialize_with p buf = (Err (error_from_nom e), buf)"
  by (simp add: deserialize_with_def)

section \<open>The third-party primitives\<close>

record wire =
  rd_u8 :: "u8 parser"
  rd_u16 :: "u16 parser"
  rd_u32 :: "u32 parser"
  rd_take :: "nat \<Rightarrow> bytes parser"
  wr_u8 :: "u8 \<Rightarrow> bytes"
  wr_u16 :: "u16 \<Rightarrow> bytes"
  wr_u32 :: "u32 \<Rightarrow> bytes"

text \<open>
  nom's streaming number readers and \<open>take\<close> return the unread rest with the value, or the
  number of bytes that are missing. cookie-factory's writers emit little-endian bytes.
  \<open>le_i32\<close> is \<open>le_u32\<close> on the bit pattern.
\<close>

locale wire_lib =
  fixes W :: "'z wire_scheme"
  assumes read_u8: "rd_u8 W buf =
      (if length buf < 1 then Err (NIncomplete 1) else Ok (drop 1 buf, buf ! 0))"
    and read_u16: "rd_u16 W buf =
      (if length buf < 2 then Err (NIncomplete (2 - length buf))
       else Ok (drop 2 buf, from_le (take 2 buf)))"
    and read_u32: "rd_u32 W buf =
      (if length buf < 4 then Err (NIncomplete (4 - length buf))
       else Ok (drop 4 buf, from_le (take 4 buf)))"
    and read_take: "rd_take W n buf =
      (if length buf < n then Err (NIncomplete (n - length buf))
       else Ok (drop n buf, take n buf))"
    and write_u8: "wr_u8 W b = [b]"
    and write_u16: "wr_u16 W w = to_le16 w"
    and write_u32: "wr_u32 W v = to_le32 v"
begin

lemmas writers = write_u8 write_u16 write_u32

lemma rd_u8_wr [simp]: "rd_u8 W (wr_u8 W b @ rest) = Ok (rest, b)"
  by (simp add: read_u8 write_u8)

lemma rd_u16_wr [simp]: "rd_u16 W (wr_u16 W w @ rest) = Ok (rest, w)"
  by (simp add: read_u16 write_u16)

lemma rd_u32_wr [simp]: "rd_u32 W (wr_u32 W v @ rest) = Ok (rest, v)"
  by (simp add: read_u32 write_u32)

lemma rd_u8_end [simp]: "rd_u8 W (wr_u8 W b) = Ok ([], b)"
  using rd_u8_wr [of b "[]"] by simp

lemma rd_u16_end [simp]: "rd_u16 W (wr_u16 W w) = Ok ([], w)"
  using rd_u16_wr [of w "[]"] by simp

lemma rd_u32_end [simp]: "rd_u32 W (wr_u32 W v) = Ok ([], v)"
  using rd_u32_wr [of v "[]"] by simp

lemma rd_take_append [simp]: "n = length xs \<Longrightarrow> rd_take W n (xs @ rest) = Ok (rest, xs)"
  by (simp add: read_take)

lemma rd_take_all [simp]: "n = length xs \<Longrightarrow> rd_take W n xs = Ok ([], xs)"
  by (simp add: read_take)

lemma rd_take_0 [simp]: "rd_take W 0 xs = Ok (xs, [])"
  by (simp add: read_take)

lemma writers_not_Nil [simp]: "wr_u8 W b \<noteq> []" "wr_u16 W w \<noteq> []" "wr_u32 W v \<noteq> []"
  by (simp_all add: writers to_le16_def to_le32_def)

lemma rd_u8_iff: "rd_u8 W buf = Ok (rest, b) \<longleftrightarrow> buf = wr_u8 W b @ rest"
  by (cases buf) (auto simp: read_u8 write_u8)

lemma rd_u16_iff: "rd_u16 W buf = Ok (rest, w) \<longleftrightarrow> buf = wr_u16 W w @ rest"
proof
  assume "rd_u16 W buf = Ok (rest, w)"
  then have "\<not> length buf < 2" "rest = drop 2 buf" "w = from_le (take 2 buf)"
    by (auto simp: read_u16 split: if_splits)
  then show "buf = wr_u16 W w @ rest"
    using to_from_le16 [of "take 2 buf"] by (simp add: write_u16)
qed simp

lemma rd_u32_iff: "rd_u32 W buf = Ok (rest, v) \<longleftrightarrow> buf = wr_u32 W v @ rest"
proof
  assume "rd_u32 W buf = Ok (rest, v)"
  then have "\<not> length buf < 4" "rest = drop 4 buf" "v = from_le (take 4 buf)"
    by (auto simp: read_u32 split: if_splits)
  then show "buf = wr_u32 W v @ rest"
    using to_from_le32 [of "take 4 buf"] by (simp add: write_u32)
qed simp

lemma rd_take_iff: "rd_take W n buf = Ok (rest, xs) \<longleftrightarrow> length xs = n \<and> buf = xs @ rest"
  by (auto simp: read_take)

lemmas reader_iffs = rd_u8_iff rd_u16_iff rd_u32_iff rd_take_iff verify_Ok_iff pbind_Ok_iff

lemma need_readers: "need 1 (rd_u8 W)" "need 2 (rd_u16 W)" "need 4 (rd_u32 W)" "need k (rd_take W k)"
  by (auto simp: need_def read_u8 read_u16 read_u32 read_take)

lemma length_writers [simp]:
  "length (wr_u8 W b) = 1" "length (wr_u16 W w) = 2" "length (wr_u32 W v) = 4"
  by (simp_all add: writers)

lemma verify_u32_wr [simp]:
  "verify (rd_u32 W) P (wr_u32 W v @ rest) = (if P v then Ok (rest, v) else Err NError)"
  by (simp add: verify_def)

lemma verify_u16_wr [simp]:
  "verify (rd_u16 W) P (wr_u16 W w @ rest) = (if P w then Ok (rest, w) else Err NError)"
  by (simp add: verify_def)

lemma incremental_rd_u8: "incremental (rd_u8 W)"
  unfolding incremental_def read_u8 by (auto simp: nth_append neq_Nil_conv Suc_le_eq)

lemma incremental_fixed:
  assumes "\<And>buf. p buf = (if length buf < n then Err (NIncomplete (n - length buf))
                           else Ok (drop n buf, f (take n buf)))"
  shows "incremental p"
proof -
  have "\<exists>used. buf = used @ drop n buf" for buf :: bytes
    by (metis append_take_drop_id)
  then show ?thesis
    unfolding incremental_def by (auto simp: assms)
qed

lemma incremental_readers:
  "incremental (rd_u16 W)" "incremental (rd_u32 W)" "incremental (rd_take W n)"
  by (rule incremental_fixed, rule read_u16, rule incremental_fixed, rule read_u32,
      rule incremental_fixed [where f = "\<lambda>x. x"], rule read_take)

lemmas reader_intros = incremental_rd_u8 incremental_readers

end

text \<open>The reference implementation of the primitives, on which the laws are checked.\<close>

definition std_wire :: wire where
  "std_wire = \<lparr>
     rd_u8 = (\<lambda>buf. if length buf < 1 then Err (NIncomplete 1) else Ok (drop 1 buf, buf ! 0)),
     rd_u16 = (\<lambda>buf. if length buf < 2 then Err (NIncomplete (2 - length buf))
                      else Ok (drop 2 buf, from_le (take 2 buf))),
     rd_u32 = (\<lambda>buf. if length buf < 4 then Err (NIncomplete (4 - length buf))
                      else Ok (drop 4 buf, from_le (take 4 buf))),
     rd_take = (\<lambda>n buf. if length buf < n then Err (NIncomplete (n - length buf))
                         else Ok (drop n buf, take n buf)),
     wr_u8 = (\<lambda>b. [b]), wr_u16 = to_le16, wr_u32 = to_le32\<rparr>"

interpretation std: wire_lib std_wire
  by unfold_locales (simp_all add: std_wire_def)

end
