(* ===== verification/Bc_Model.thy ===== *)
theory Bc_Model
  imports Wire
begin

text \<open>
  The Baichuan control message (\<open>src/baichuan/bc/model.rs\<close>, \<open>crypto.rs\<close>, parts of \<open>xml.rs\<close>, and
  \<open>bc_protocol/credentials.rs\<close>): headers, legacy and modern bodies, the encryption protocols,
  the AES key derivation and the XML structs the codec looks into. AES-CFB, MD5 and quick-xml are
  fields of the parameter record \<open>bc_lib\<close>.
\<close>

section \<open>XML structs\<close>

record AuthTypeList =
  auth_type_names :: "string list"

record Ecdhe =
  ecdhe_public_key_algo :: string
  ecdhe_public_key :: string
  ecdhe_public_key_sign :: string
  ecdhe_iterations :: u32

record Encryption =
  enc_version :: string
  enc_type :: string
  nonce :: string
  auth_type_list :: "AuthTypeList option"
  sig_ver :: "string option"
  ecdhe :: "Ecdhe option"

record AuthInfo =
  auth_code :: string
  phone_model :: "string option"

record LoginUser =
  lu_version :: string
  lu_auth_type :: "string option"
  lu_user_name :: string
  lu_password :: string
  lu_user_ver :: u32
  lu_client_type :: "string option"
  public_key :: "string option"
  token_key :: "string option"
  cipher_content :: "string option"
  cert_chain :: "string option"
  auth_info :: "AuthInfo option"
  session_aes :: "(bytes \<times> bytes) option"

record Extension =
  ext_version :: string
  binary_data :: "u32 option"
  ext_user_name :: "string option"
  ext_token :: "string option"
  ext_channel_id :: "u8 option"
  rf_id :: "u8 option"
  check_pos :: "u32 option"
  check_value :: "i32 option"
  encrypt_len :: "u32 option"

definition Extension_default :: Extension where
  "Extension_default = \<lparr>ext_version = ''1.1'', binary_data = None, ext_user_name = None,
     ext_token = None, ext_channel_id = None, rf_id = None, check_pos = None,
     check_value = None, encrypt_len = None\<rparr>"

text \<open>
  \<open>BcXml\<close> has one optional field per known message. The codec reads the first two; the others
  are the record's extension (the type parameter \<open>'x\<close>), which it only passes through.
\<close>

record BcXml =
  encryption :: "Encryption option"
  login_user :: "LoginUser option"

datatype 'x BcPayloads = PBcXml "'x BcXml_scheme" | PBinary bytes

section \<open>Messages\<close>

definition MAGIC_HEADER :: u32 where "MAGIC_HEADER = 0x0abcdef0"
definition MAGIC_HEADER_REV :: u32 where "MAGIC_HEADER_REV = 0x0fedcba0"
definition MSG_ID_LOGIN :: u32 where "MSG_ID_LOGIN = 1"

record 'x ModernMsg =
  extension :: "Extension option"
  payload :: "'x BcPayloads option"

datatype LegacyMsg =
    LoginMsg string string
  | LoginUpgrade
  | UnknownMsg

datatype 'x BcBody = BLegacy LegacyMsg | BModern "'x ModernMsg"

record BcHeader =
  h_body_len :: u32
  h_msg_id :: u32
  h_channel_id :: u8
  h_stream_type :: u8
  h_msg_num :: u16
  h_response_code :: u16
  h_class :: u16
  h_payload_offset :: "u32 option"

record BcMeta =
  msg_id :: u32
  channel_id :: u8
  stream_type :: u8
  response_code :: u16
  msg_num :: u16
  msg_class :: u16

record 'x Bc =
  meta :: BcMeta
  body :: "'x BcBody"

definition Bc_new :: "BcMeta \<Rightarrow> Extension option \<Rightarrow> 'x BcPayloads option \<Rightarrow> 'x Bc" where
  "Bc_new m ext p = \<lparr>meta = m, body = BModern \<lparr>extension = ext, payload = p\<rparr>\<rparr>"

definition Bc_new_from_xml :: "BcMeta \<Rightarrow> 'x BcXml_scheme \<Rightarrow> 'x Bc" where
  "Bc_new_from_xml m xml = Bc_new m None (Some (PBcXml xml))"

definition Bc_new_from_ext :: "BcMeta \<Rightarrow> Extension \<Rightarrow> 'x Bc" where
  "Bc_new_from_ext m ext = Bc_new m (Some ext) None"

definition Bc_new_from_meta :: "BcMeta \<Rightarrow> 'x Bc" where
  "Bc_new_from_meta m = Bc_new m None None"

definition Bc_new_from_ext_xml :: "BcMeta \<Rightarrow> Extension \<Rightarrow> 'x BcXml_scheme \<Rightarrow> 'x Bc" where
  "Bc_new_from_ext_xml m ext xml = Bc_new m (Some ext) (Some (PBcXml xml))"

definition is_modern :: "BcHeader \<Rightarrow> bool" where
  "is_modern h \<longleftrightarrow> h_class h \<noteq> 0x6514"

definition to_meta :: "BcHeader \<Rightarrow> BcMeta" where
  "to_meta h = \<lparr>msg_id = h_msg_id h, channel_id = h_channel_id h,
     stream_type = h_stream_type h, response_code = h_response_code h,
     msg_num = h_msg_num h, msg_class = h_class h\<rparr>"

definition from_meta :: "BcMeta \<Rightarrow> u32 \<Rightarrow> u32 option \<Rightarrow> BcHeader" where
  "from_meta m blen off = \<lparr>h_body_len = blen, h_msg_id = msg_id m,
     h_channel_id = channel_id m, h_stream_type = stream_type m, h_msg_num = msg_num m,
     h_response_code = response_code m, h_class = msg_class m, h_payload_offset = off\<rparr>"

definition has_payload_offset :: "u16 \<Rightarrow> bool" where
  "has_payload_offset c \<longleftrightarrow> c = 0x6414 \<or> c = 0x0000"

lemma to_from_meta [simp]: "to_meta (from_meta m n off) = m"
  by (simp add: to_meta_def from_meta_def)

lemma from_meta_sel [simp]:
  "h_body_len (from_meta m n off) = n" "h_msg_id (from_meta m n off) = msg_id m"
  "h_channel_id (from_meta m n off) = channel_id m"
  "h_stream_type (from_meta m n off) = stream_type m"
  "h_msg_num (from_meta m n off) = msg_num m"
  "h_response_code (from_meta m n off) = response_code m"
  "h_class (from_meta m n off) = msg_class m"
  "h_payload_offset (from_meta m n off) = off"
  by (simp_all add: from_meta_def)

section \<open>Third-party code\<close>

text \<open>
  \<open>aes_enc\<close>/\<open>aes_dec\<close>: AES-128 in CFB mode, taking key, IV and data (the source clones the cipher
  for every buffer, so no state is carried over). \<open>md5_hex\<close>: \<open>format!("{:X}", md5::compute(..))\<close>.
  The four XML functions are quick-xml at \<open>Extension\<close> and at \<open>BcXml\<close>, the writers including the
  XML declaration.
\<close>

record 'x bc_lib = wire +
  aes_enc :: "bytes \<Rightarrow> bytes \<Rightarrow> bytes \<Rightarrow> bytes"
  aes_dec :: "bytes \<Rightarrow> bytes \<Rightarrow> bytes \<Rightarrow> bytes"
  md5_hex :: "string \<Rightarrow> string"
  ext_de :: "bytes \<Rightarrow> Extension option"
  ext_se :: "Extension \<Rightarrow> bytes option"
  qx_read :: "bytes \<Rightarrow> 'x BcXml_scheme option"
  qx_write :: "'x BcXml_scheme \<Rightarrow> bytes option"

section \<open>Encryption\<close>

definition XML_KEY :: bytes where
  "XML_KEY = [0x1f, 0x2d, 0x3c, 0x4b, 0x5a, 0x69, 0x78, 0xff]"

definition IV :: bytes where "IV = string_bytes ''0123456789abcdef''"

datatype EncryptionProtocol =
    Unencrypted
  | BCEncrypt
  | Aes (aes_key: bytes) (aes_iv: bytes)
  | FullAes (aes_key: bytes) (aes_iv: bytes)

definition aes_protocol :: "bytes \<Rightarrow> EncryptionProtocol" where
  "aes_protocol key = Aes key IV"

definition full_aes_with_iv :: "bytes \<Rightarrow> bytes \<Rightarrow> EncryptionProtocol" where
  "full_aes_with_iv key iv = FullAes key iv"

definition full_aes :: "bytes \<Rightarrow> EncryptionProtocol" where
  "full_aes key = FullAes key IV"

fun is_aes :: "EncryptionProtocol \<Rightarrow> bool" where
  "is_aes (Aes _ _) = True"
| "is_aes (FullAes _ _) = True"
| "is_aes _ = False"

fun decrypt :: "('x, 'z) bc_lib_scheme \<Rightarrow> EncryptionProtocol \<Rightarrow> u32 \<Rightarrow> bytes \<Rightarrow> bytes" where
  "decrypt L Unencrypted offset buf = buf"
| "decrypt L BCEncrypt offset buf =
     zip_cycle (unat offset mod 8) XML_KEY (\<lambda>key i. i XOR key XOR ucast offset) buf"
| "decrypt L (Aes key iv) offset buf = aes_dec L key iv buf"
| "decrypt L (FullAes key iv) offset buf = aes_dec L key iv buf"

fun encrypt :: "('x, 'z) bc_lib_scheme \<Rightarrow> EncryptionProtocol \<Rightarrow> u32 \<Rightarrow> bytes \<Rightarrow> bytes" where
  "encrypt L Unencrypted offset buf = decrypt L Unencrypted offset buf"
| "encrypt L BCEncrypt offset buf = decrypt L BCEncrypt offset buf"
| "encrypt L (Aes key iv) offset buf = aes_enc L key iv buf"
| "encrypt L (FullAes key iv) offset buf = aes_enc L key iv buf"

section \<open>Credentials\<close>

record Credentials =
  username :: string
  password :: "string option"

definition make_aeskey :: "('x, 'z) bc_lib_scheme \<Rightarrow> Credentials \<Rightarrow> string \<Rightarrow> bytes" where
  "make_aeskey L c nonc =
     (let pw = (case password c of None \<Rightarrow> '''' | Some p \<Rightarrow> p);
          key_phrase_hash = string_bytes (md5_hex L (nonc @ ''-'' @ pw) @ [CHR 0x00])
      in if length key_phrase_hash < 16 then replicate 16 0 else take 16 key_phrase_hash)"

section \<open>XML serialisation\<close>

fun find_sub :: "bytes \<Rightarrow> bytes \<Rightarrow> nat option" where
  "find_sub needle [] = (if needle = [] then Some 0 else None)"
| "find_sub needle (x # xs) =
     (if take (length needle) (x # xs) = needle then Some 0
      else map_option Suc (find_sub needle xs))"

definition certchain_entity :: "byte \<Rightarrow> bytes" where
  "certchain_entity b =
     (if b = 0x0a then string_bytes ''&#x0A;''
      else if b = 0x0d then string_bytes ''&#x0D;'' else [b])"

definition encode_certchain_newlines :: "bytes \<Rightarrow> bytes" where
  "encode_certchain_newlines buf =
     (let OPEN = string_bytes ''<certChain>''; CLOSE = string_bytes ''</certChain>''
      in case find_sub OPEN buf of
           None \<Rightarrow> buf
         | Some opn \<Rightarrow>
             (let inner = opn + length OPEN
              in case find_sub CLOSE (drop inner buf) of
                   None \<Rightarrow> buf
                 | Some rel_close \<Rightarrow>
                     (let close = inner + rel_close
                      in take inner buf @
                         concat (map certchain_entity (take rel_close (drop inner buf))) @
                         drop close buf)))"

lemma encode_certchain_Nil [simp]: "encode_certchain_newlines buf = [] \<longleftrightarrow> buf = []"
  by (auto simp: encode_certchain_newlines_def Let_def string_bytes_def split: option.splits)

definition BcXml_serialize :: "('x, 'z) bc_lib_scheme \<Rightarrow> 'x BcXml_scheme \<Rightarrow> bytes option" where
  "BcXml_serialize L x = map_option encode_certchain_newlines (qx_write L x)"

text \<open>
  What a peer reads back: \<open>session_aes\<close> is marked \<open>serde(skip)\<close>, so it is \<open>None\<close> there.
\<close>

definition on_wire :: "'x BcXml_scheme \<Rightarrow> 'x BcXml_scheme" where
  "on_wire x = x\<lparr>login_user := map_option (\<lambda>u. u\<lparr>session_aes := None\<rparr>) (login_user x)\<rparr>"

section \<open>Laws of the parameters\<close>

locale bc_codec_lib = wire_lib L for L :: "('x, 'z) bc_lib_scheme" +
  assumes aes_roundtrip: "aes_dec L key iv (aes_enc L key iv b) = b"
    and aes_length: "length (aes_enc L key iv b) = length b"
    and md5_hex_length: "length (md5_hex L s) = 32"
    and ext_roundtrip: "ext_se L e = Some b \<Longrightarrow> b \<noteq> [] \<and> ext_de L b = Some e"
    and qx_roundtrip: "qx_write L x = Some b \<Longrightarrow> b \<noteq> [] \<and> qx_read L b = Some (on_wire x)"
    and qx_char_refs: "qx_write L x = Some b \<Longrightarrow>
      qx_read L (encode_certchain_newlines b) = qx_read L b"
begin

lemma decrypt_encrypt [simp]: "decrypt L p off (encrypt L p off b) = b"
  by (cases p)
    (simp_all add: aes_roundtrip zip_cycle_involution xor.assoc xor.left_commute)

lemma length_encrypt [simp]: "length (encrypt L p off b) = length b"
  by (cases p) (simp_all add: aes_length)

lemma encrypt_Nil [simp]: "encrypt L p off b = [] \<longleftrightarrow> b = []"
  using length_encrypt [of p off b] by (metis length_0_conv)

lemma make_aeskey_16: "length (make_aeskey L c n) = 16"
  by (simp add: make_aeskey_def Let_def md5_hex_length)

lemma BcXml_roundtrip:
  "BcXml_serialize L x = Some b \<Longrightarrow> b \<noteq> [] \<and> qx_read L b = Some (on_wire x)"
  using qx_roundtrip qx_char_refs by (auto simp: BcXml_serialize_def)

end

end
