(* ===== verification/Ordered_Map.thy ===== *)
theory Ordered_Map
  imports Prelude
begin

text \<open>
  Rust's \<open>BTreeMap\<close> as the sources use it: a strictly key-sorted association list. The locale
  \<open>ordered_map\<close> states what the clients rely on, an ordered finite map with its iteration order;
  the list implementation is its interpretation \<open>bt\<close>.
\<close>

type_synonym ('k, 'v) btree = "('k \<times> 'v) list"

fun bt_insert :: "'k::linorder \<Rightarrow> 'v \<Rightarrow> ('k, 'v) btree \<Rightarrow> ('k, 'v) btree" where
  "bt_insert k v [] = [(k, v)]"
| "bt_insert k v (x # xs) =
     (if k < fst x then (k, v) # x # xs
      else if k = fst x then (k, v) # xs
      else x # bt_insert k v xs)"

definition bt_get :: "('k, 'v) btree \<Rightarrow> 'k \<Rightarrow> 'v option" where
  "bt_get m k = map_of m k"

definition bt_contains :: "('k, 'v) btree \<Rightarrow> 'k \<Rightarrow> bool" where
  "bt_contains m k = (k \<in> set (map fst m))"

definition bt_retain :: "('k \<Rightarrow> bool) \<Rightarrow> ('k, 'v) btree \<Rightarrow> ('k, 'v) btree" where
  "bt_retain P m = filter (\<lambda>e. P (fst e)) m"

definition bt_remove :: "'k \<Rightarrow> ('k, 'v) btree \<Rightarrow> ('k, 'v) btree" where
  "bt_remove k m = bt_retain (\<lambda>k'. k' \<noteq> k) m"

definition bt_keys :: "('k, 'v) btree \<Rightarrow> 'k list" where "bt_keys m = map fst m"

definition bt_values :: "('k, 'v) btree \<Rightarrow> 'v list" where "bt_values m = map snd m"

definition bt_ok :: "('k::linorder, 'v) btree \<Rightarrow> bool" where
  "bt_ok m = sorted_wrt (<) (map fst m)"

locale ordered_map =
  fixes ins :: "'k::linorder \<Rightarrow> 'v \<Rightarrow> 'm \<Rightarrow> 'm"
    and retain :: "('k \<Rightarrow> bool) \<Rightarrow> 'm \<Rightarrow> 'm"
    and get :: "'m \<Rightarrow> 'k \<Rightarrow> 'v option"
    and ks :: "'m \<Rightarrow> 'k list"
    and vals :: "'m \<Rightarrow> 'v list"
    and ok :: "'m \<Rightarrow> bool"
  assumes get_ins: "ok m \<Longrightarrow> get (ins k v m) k' = (if k' = k then Some v else get m k')"
    and get_retain: "ok m \<Longrightarrow> get (retain P m) k = (if P k then get m k else None)"
    and ok_ins: "ok m \<Longrightarrow> ok (ins k v m)"
    and ok_retain: "ok m \<Longrightarrow> ok (retain P m)"
    and keys_sorted: "ok m \<Longrightarrow> sorted_wrt (<) (ks m)"
    and keys_get: "ok m \<Longrightarrow> k \<in> set (ks m) \<longleftrightarrow> get m k \<noteq> None"
    and vals_get: "ok m \<Longrightarrow> map (get m) (ks m) = map Some (vals m)"
begin

lemma keys_distinct: "ok m \<Longrightarrow> distinct (ks m)"
  using keys_sorted strict_sorted_iff by blast

lemma keys_ins: "ok m \<Longrightarrow> set (ks (ins k v m)) = insert k (set (ks m))"
  by (auto simp: keys_get ok_ins get_ins split: if_splits)

lemma keys_retain: "ok m \<Longrightarrow> set (ks (retain P m)) = {k \<in> set (ks m). P k}"
  by (auto simp: keys_get ok_retain get_retain split: if_splits)

lemma size_ins:
  assumes "ok m"
  shows "length (ks (ins k v m)) = (if get m k = None then Suc (length (ks m)) else length (ks m))"
proof -
  have "length (ks (ins k v m)) = card (insert k (set (ks m)))"
    by (metis assms distinct_card keys_distinct keys_ins ok_ins)
  then show ?thesis
    using assms by (simp add: card_insert_if keys_get distinct_card keys_distinct)
qed

lemma vals_iff: "ok m \<Longrightarrow> v \<in> set (vals m) \<longleftrightarrow> (\<exists>k. get m k = Some v)"
proof -
  assume m: "ok m"
  have "v \<in> set (vals m) \<longleftrightarrow> Some v \<in> set (map (get m) (ks m))"
    by (simp only: vals_get [OF m]) auto
  also have "\<dots> \<longleftrightarrow> (\<exists>k. get m k = Some v)"
    using keys_get [OF m] by (auto simp: image_iff) metis+
  finally show ?thesis .
qed

end

section \<open>The list implementation\<close>

lemma set_bt_insert: "fst ` set (bt_insert k v m) = insert k (fst ` set m)"
  by (induction k v m rule: bt_insert.induct) auto

lemma map_of_notin: "k \<notin> fst ` set m \<Longrightarrow> map_of m k = None"
  by (simp add: map_of_eq_None_iff)

lemma bt_get_insert:
  "bt_ok m \<Longrightarrow> bt_get (bt_insert k v m) k' = (if k' = k then Some v else bt_get m k')"
proof (induction k v m rule: bt_insert.induct)
  case (2 k v x xs)
  obtain a b where x: "x = (a, b)" by force
  from 2 x show ?case by (auto simp: bt_get_def bt_ok_def)
qed (simp add: bt_get_def)

lemma bt_ok_insert: "bt_ok m \<Longrightarrow> bt_ok (bt_insert k v m)"
proof (induction k v m rule: bt_insert.induct)
  case (2 k v x xs)
  then have "\<forall>e\<in>set (bt_insert k v xs). fst e \<in> insert k (fst ` set xs)"
    using set_bt_insert [of k v xs] by auto
  with 2 show ?case by (fastforce simp: bt_ok_def)
qed (simp add: bt_ok_def)

lemma bt_ok_retain: "bt_ok m \<Longrightarrow> bt_ok (bt_retain P m)"
  by (induction m) (auto simp: bt_ok_def bt_retain_def)

lemma bt_get_retain: "bt_get (bt_retain P m) k = (if P k then bt_get m k else None)"
  by (induction m) (auto simp: bt_get_def bt_retain_def)

lemma bt_vals_get: "bt_ok m \<Longrightarrow> map (bt_get m) (bt_keys m) = map Some (bt_values m)"
proof (induction m)
  case (Cons e m)
  then have "bt_ok m" and new: "\<forall>k\<in>set (bt_keys m). fst e < k"
    by (auto simp: bt_ok_def bt_keys_def)
  from new have "map (bt_get (e # m)) (bt_keys m) = map (bt_get m) (bt_keys m)"
    by (intro map_cong) (auto simp: bt_get_def)
  with Cons.IH [OF \<open>bt_ok m\<close>] show ?case
    by (simp add: bt_keys_def bt_values_def bt_get_def)
qed (simp add: bt_keys_def bt_values_def)

interpretation bt: ordered_map bt_insert bt_retain bt_get bt_keys bt_values bt_ok
proof unfold_locales
  show "k \<in> set (bt_keys m) \<longleftrightarrow> bt_get m k \<noteq> None" for k :: 'a and m :: "('a, 'b) btree"
    by (auto simp: bt_keys_def bt_get_def map_of_eq_None_iff image_iff)
  show "sorted_wrt (<) (bt_keys m)" if "bt_ok m" for m :: "('a, 'b) btree"
    using that by (simp add: bt_ok_def bt_keys_def)
qed (simp_all add: bt_get_insert bt_get_retain bt_ok_insert bt_ok_retain bt_vals_get)

text \<open>\<open>len\<close> is \<open>length\<close> of the list; removal and membership through the interpreted facts.\<close>

lemma length_bt_keys [simp]: "length (bt_keys m) = length m"
  by (simp add: bt_keys_def)

lemma bt_contains_iff: "bt_ok m \<Longrightarrow> bt_contains m k \<longleftrightarrow> bt_get m k \<noteq> None"
  by (metis bt.keys_get bt_contains_def bt_keys_def)

lemma bt_ok_Nil [simp]: "bt_ok []"
  by (simp add: bt_ok_def)

lemma bt_get_Nil [simp]: "bt_get [] k = None"
  by (simp add: bt_get_def)

lemma bt_get_remove: "bt_get (bt_remove k m) k' = (if k' = k then None else bt_get m k')"
  by (auto simp: bt_remove_def bt_get_retain)

lemma bt_ok_remove: "bt_ok m \<Longrightarrow> bt_ok (bt_remove k m)"
  by (simp add: bt_remove_def bt_ok_retain)

lemma length_bt_remove_le: "length (bt_remove k m) \<le> length m"
  by (simp add: bt_remove_def bt_retain_def)

lemma length_bt_remove_less: "bt_get m k = Some v \<Longrightarrow> length (bt_remove k m) < length m"
proof -
  assume "bt_get m k = Some v"
  then have "(k, v) \<in> set m" by (simp add: bt_get_def map_of_SomeD)
  then show ?thesis
    unfolding bt_remove_def bt_retain_def by (rule length_filter_less) simp
qed

lemma length_bt_insert:
  "bt_ok m \<Longrightarrow> length (bt_insert k v m) = (if bt_get m k = None then Suc (length m) else length m)"
  using bt.size_ins [of m k v] by simp

lemmas bt_simps = bt_get_insert bt_get_retain bt_get_remove bt_ok_insert bt_ok_retain bt_ok_remove

end
