(* ===== verification/Bc_Conn.thy ===== *)
theory Bc_Conn
  imports Bc_Model Ordered_Map "HOL-Library.Option_ord"
begin

text \<open>
  A shared connection to a camera (\<open>src/baichuan/bc_protocol/connection/bcconn.rs\<close>) and its
  subscriptions (\<open>bcsub.rs\<close>): the poller that routes every incoming message by its ID and number to
  one subscriber, with the bounded channels between the tasks. A step of the system is one event;
  sending into a full channel is not enabled, so a task that waits is a state without that step.
  Channels and message handlers are numbers, and a channel also records what its subscriber has taken
  out of it.
\<close>

section \<open>State\<close>

datatype conn_error =
    SimultaneousSubscription "u16 option"
  | SimultaneousSubscriptionId u32
  | ConnectionShutdown
  | DroppedSubscriber
  | OtherError string
  | SourceError nat

type_synonym 'x item = "conn_error + 'x Bc"

definition CHANNEL_CAP :: nat where "CHANNEL_CAP = 100"

definition COMMAND_CAP :: nat where "COMMAND_CAP = 200"

text \<open>\<open>ch_id\<close> and \<open>ch_num\<close> are what the subscriber asked for.\<close>

record 'x channel =
  ch_id :: u32
  ch_num :: "u16 option"
  ch_queue :: "'x item list"
  ch_got :: "'x item list"
  ch_closed :: bool

datatype 'x PollCommand =
    CmdBc "'x item"
  | AddHandler u32 nat
  | RemoveHandler u32
  | AddSubscriber u32 "u16 option" nat
  | Disconnect

type_synonym subscribers = "(u32, (u16 option, nat) btree) btree"

text \<open>
  \<open>p_pending\<close> are the sends the poller is in the middle of, \<open>p_spawned\<close> the callbacks under way, \<open>p_ended\<close>
  the error the poller returned.
\<close>

record 'x Poller =
  p_num :: subscribers
  p_id :: "(u32, nat) btree"
  p_chans :: "nat \<Rightarrow> 'x channel"
  p_next :: nat
  p_commands :: "'x PollCommand list"
  p_pending :: "(nat \<times> 'x item) list"
  p_spawned :: "(nat \<times> 'x Bc) list"
  p_sink :: "'x Bc list"
  p_ended :: "conn_error option"

definition Poller_new :: "'x Poller" where
  "Poller_new = \<lparr>p_num = [], p_id = [], p_chans = (\<lambda>_. \<lparr>ch_id = 0, ch_num = None, ch_queue = [], ch_got = [],
     ch_closed = False\<rparr>), p_next = 0, p_commands = [], p_pending = [], p_spawned = [], p_sink = [], p_ended = None\<rparr>"

section \<open>The poller\<close>

definition cleanup :: "(nat \<Rightarrow> bool) \<Rightarrow> subscribers \<Rightarrow> subscribers" where
  "cleanup closed num =
     filter (\<lambda>(_, m). m \<noteq> []) (map (\<lambda>(i, m). (i, filter (\<lambda>(_, c). \<not> closed c) m)) num)"

text \<open>The channel of a message among the subscribers of its ID, and what becomes of them.\<close>

definition pick_sender ::
  "(nat \<Rightarrow> bool) \<Rightarrow> u16 \<Rightarrow> (u16 option, nat) btree \<Rightarrow> nat option \<times> (u16 option, nat) btree" where
  "pick_sender closed n occ =
     (case bt_get occ (Some n) of
        Some c \<Rightarrow>
          (if \<not> closed c then (Some c, occ)
           else case bt_get occ None of
             Some c' \<Rightarrow> (Some c', bt_insert (Some n) c' (bt_remove None occ))
           | None \<Rightarrow> (None, bt_remove (Some n) occ))
      | None \<Rightarrow>
          (case bt_get occ None of
             Some c' \<Rightarrow> (Some c', bt_insert (Some n) c' (bt_remove None occ))
           | None \<Rightarrow> (None, occ)))"

definition route_message :: "'x Bc \<Rightarrow> 'x Poller \<Rightarrow> 'x Poller" where
  "route_message bc p =
     (case (bt_get (p_id p) (msg_id (meta bc)), bt_get (p_num p) (msg_id (meta bc))) of
        (Some h, _) \<Rightarrow> p\<lparr>p_spawned := p_spawned p @ [(h, bc)]\<rparr>
      | (None, Some occ) \<Rightarrow>
          (case pick_sender (\<lambda>c. ch_closed (p_chans p c)) (msg_num (meta bc)) occ of
             (sender, occ') \<Rightarrow>
               p\<lparr>p_num := bt_insert (msg_id (meta bc)) occ' (p_num p),
                 p_pending := (case sender of Some c \<Rightarrow> [(c, Ok bc)] | None \<Rightarrow> [])\<rparr>)
      | (None, None) \<Rightarrow> p)"

definition add_subscriber :: "u32 \<Rightarrow> u16 option \<Rightarrow> nat \<Rightarrow> 'x Poller \<Rightarrow> 'x Poller" where
  "add_subscriber i num tx p =
     (let m = (case bt_get (p_num p) i of Some m \<Rightarrow> m | None \<Rightarrow> []);
          m' = (case bt_get m num of
                  None \<Rightarrow> bt_insert num tx m
                | Some c \<Rightarrow> if ch_closed (p_chans p c) then bt_insert num tx m else m);
          refused = (case bt_get m num of None \<Rightarrow> False | Some c \<Rightarrow> \<not> ch_closed (p_chans p c))
      in p\<lparr>p_num := bt_insert i m' (p_num p),
           p_pending := (if refused then [(tx, Err (SimultaneousSubscription num))] else [])\<rparr>)"

text \<open>One turn of \<open>Poller::run\<close>; an error ends it.\<close>

definition poll_command :: "'x PollCommand \<Rightarrow> 'x Poller \<Rightarrow> 'x Poller" where
  "poll_command cmd p0 =
     (let p = p0\<lparr>p_num := cleanup (\<lambda>c. ch_closed (p_chans p0 c)) (p_num p0)\<rparr>
      in case cmd of
           CmdBc (Inr bc) \<Rightarrow> route_message bc p
         | CmdBc (Inl e) \<Rightarrow>
             p\<lparr>p_pending := map (\<lambda>c. (c, Err e)) (concat (map (bt_values \<circ> snd) (p_num p))),
               p_num := [], p_id := [], p_ended := Some e\<rparr>
         | AddHandler i h \<Rightarrow>
             (case bt_get (p_id p) i of
                None \<Rightarrow> p\<lparr>p_id := bt_insert i h (p_id p)\<rparr>
              | Some _ \<Rightarrow> p\<lparr>p_ended := Some (SimultaneousSubscriptionId i)\<rparr>)
         | RemoveHandler i \<Rightarrow> p\<lparr>p_id := bt_remove i (p_id p)\<rparr>
         | AddSubscriber i num tx \<Rightarrow> add_subscriber i num tx p
         | Disconnect \<Rightarrow> p\<lparr>p_ended := Some ConnectionShutdown\<rparr>)"

text \<open>The callback of a handler has run: its reply is sent unless its number differs.\<close>

definition callback_done :: "(nat \<Rightarrow> 'x Bc \<Rightarrow> 'x Bc option) \<Rightarrow> nat \<Rightarrow> 'x Bc \<Rightarrow> 'x Bc list" where
  "callback_done H h response = (case H h response of
     None \<Rightarrow> []
   | Some reply \<Rightarrow> if msg_num (meta reply) \<noteq> msg_num (meta response) then [] else [reply])"

section \<open>The system\<close>

text \<open>
  A message arrives, a subscription or handler is asked for, the poller takes a command, the poller's
  send goes through, a callback finishes, a subscriber takes an item or goes away.
\<close>

datatype 'x conn_sys_event =
    Arrive "'x item"
  | Subscribe u32 "u16 option"
  | Handle u32 nat
  | Unhandle u32
  | Shutdown
  | Poll
  | Deliver
  | Callback
  | Take nat
  | Leave nat

text \<open>The mailbox goes with the poller: a send into it then fails and leaves everything as it is.\<close>

definition mailbox_closed :: "'x Poller \<Rightarrow> bool" where
  "mailbox_closed p \<longleftrightarrow> p_ended p \<noteq> None \<and> p_pending p = []"

definition put_command :: "'x PollCommand \<Rightarrow> 'x Poller \<Rightarrow> 'x Poller option" where
  "put_command cmd p =
     (if mailbox_closed p then Some p
      else if length (p_commands p) < COMMAND_CAP then Some (p\<lparr>p_commands := p_commands p @ [cmd]\<rparr>) else None)"

fun conn_sys_step ::
  "(nat \<Rightarrow> 'x Bc \<Rightarrow> 'x Bc option) \<Rightarrow> 'x conn_sys_event \<Rightarrow> 'x Poller \<Rightarrow> 'x Poller option" where
  "conn_sys_step H (Arrive r) p = put_command (CmdBc r) p"
| "conn_sys_step H (Subscribe i num) p =
     (if mailbox_closed p then Some p else put_command (AddSubscriber i num (p_next p))
       (p\<lparr>p_next := p_next p + 1,
          p_chans := (p_chans p)(p_next p := \<lparr>ch_id = i, ch_num = num, ch_queue = [], ch_got = [], ch_closed = False\<rparr>)\<rparr>))"
| "conn_sys_step H (Handle i h) p = put_command (AddHandler i h) p"
| "conn_sys_step H (Unhandle i) p = put_command (RemoveHandler i) p"
| "conn_sys_step H Shutdown p = put_command Disconnect p"
| "conn_sys_step H Poll p =
     (if p_pending p = [] \<and> p_ended p = None
      then case p_commands p of
        [] \<Rightarrow> None | cmd # cmds \<Rightarrow> Some (poll_command cmd (p\<lparr>p_commands := cmds\<rparr>))
      else None)"
| "conn_sys_step H Deliver p =
     (case p_pending p of
        [] \<Rightarrow> None
      | (c, x) # rest \<Rightarrow>
          (let ch = p_chans p c
           in if ch_closed ch then Some (p\<lparr>p_pending := rest\<rparr>)
              else if length (ch_queue ch) < CHANNEL_CAP
              then Some (p\<lparr>p_pending := rest, p_chans := (p_chans p)(c := ch\<lparr>ch_queue := ch_queue ch @ [x]\<rparr>)\<rparr>)
              else None))"
| "conn_sys_step H Callback p =
     (case p_spawned p of
        [] \<Rightarrow> None
      | (h, bc) # rest \<Rightarrow> Some (p\<lparr>p_spawned := rest, p_sink := p_sink p @ callback_done H h bc\<rparr>))"
| "conn_sys_step H (Take c) p =
     (let ch = p_chans p c
      in case ch_queue ch of
           [] \<Rightarrow> None
         | x # q \<Rightarrow> if ch_closed ch then None
             else Some (p\<lparr>p_chans := (p_chans p)(c := ch\<lparr>ch_queue := q, ch_got := ch_got ch @ [x]\<rparr>)\<rparr>))"
| "conn_sys_step H (Leave c) p =
     Some (p\<lparr>p_chans := (p_chans p)(c := (p_chans p c)\<lparr>ch_closed := True\<rparr>)\<rparr>)"

definition conn_sys_run ::
  "(nat \<Rightarrow> 'x Bc \<Rightarrow> 'x Bc option) \<Rightarrow> 'x conn_sys_event list \<Rightarrow> 'x Poller option" where
  "conn_sys_run H es = run_events (conn_sys_step H) es Poller_new"

section \<open>Subscriptions\<close>

text \<open>\<open>BcSubscription::recv\<close> on what the channel yields, with the number learnt so far.\<close>

definition sub_recv :: "u32 option \<Rightarrow> 'x item option \<Rightarrow> (conn_error + 'x Bc) \<times> u32 option" where
  "sub_recv num x = (case x of
     None \<Rightarrow> (Err DroppedSubscriber, num)
   | Some (Inl e) \<Rightarrow> (Err e, num)
   | Some (Inr bc) \<Rightarrow>
       (case num of
          Some n \<Rightarrow>
            if ucast (msg_num (meta bc)) \<noteq> n then (Err (OtherError ''BcSub::recv msg_num mismatch''), num)
            else (Ok bc, num)
        | None \<Rightarrow> (Ok bc, Some (ucast (msg_num (meta bc))))))"

definition sub_send :: "u32 option \<Rightarrow> 'x Bc \<Rightarrow> (conn_error + 'x Bc)" where
  "sub_send num bc = (case num of
     Some n \<Rightarrow> if ucast (msg_num (meta bc)) \<noteq> n then Err (OtherError ''BcSub::send msg_num mismatch'') else Ok bc
   | None \<Rightarrow> Ok bc)"

fun sub_recv_all :: "u32 option \<Rightarrow> 'x item list \<Rightarrow> (conn_error + 'x Bc) list" where
  "sub_recv_all num [] = []"
| "sub_recv_all num (x # xs) = (case sub_recv num (Some x) of (r, num') \<Rightarrow> r # sub_recv_all num' xs)"

text \<open>The payloads of \<open>payload_stream\<close>: binary bodies and errors.\<close>

definition payload_stream :: "'x item list \<Rightarrow> (conn_error + bytes) list" where
  "payload_stream xs = List.map_filter (\<lambda>x. case x of
     Inl e \<Rightarrow> Some (Err e)
   | Inr bc \<Rightarrow> (case body bc of
        BModern m \<Rightarrow> (case payload m of Some (PBinary data) \<Rightarrow> Some (Ok data) | _ \<Rightarrow> None)
      | _ \<Rightarrow> None)) xs"

section \<open>Routing invariant\<close>

definition num_get :: "subscribers \<Rightarrow> u32 \<times> u16 option \<rightharpoonup> nat" where
  "num_get num k = (case bt_get num (fst k) of None \<Rightarrow> None | Some m \<Rightarrow> bt_get m (snd k))"

definition nums_ok :: "subscribers \<Rightarrow> bool" where
  "nums_ok num \<longleftrightarrow> bt_ok num \<and> (\<forall>(_, m)\<in>set num. bt_ok m)"

lemma nums_ok_get: "nums_ok num \<Longrightarrow> bt_get num i = Some m \<Longrightarrow> bt_ok m"
  by (auto simp: nums_ok_def bt_get_def dest: map_of_SomeD)

lemma set_bt_insert_sub: "set (bt_insert k v m) \<subseteq> insert (k, v) (set m)"
  by (induction k v m rule: bt_insert.induct) auto

lemma nums_ok_insert: "nums_ok num \<Longrightarrow> bt_ok m \<Longrightarrow> nums_ok (bt_insert i m num)"
  using set_bt_insert_sub [of i m num] by (auto simp: nums_ok_def bt_ok_insert)

lemma num_get_insert:
  "nums_ok num \<Longrightarrow> num_get (bt_insert i m num) k = (if fst k = i then bt_get m (snd k) else num_get num k)"
  by (simp add: num_get_def nums_ok_def bt_get_insert)

lemma num_get_row: "bt_get num i = Some m \<Longrightarrow> num_get num (i, k) = bt_get m k"
  by (simp add: num_get_def)

lemma bt_ok_filter: "bt_ok m \<Longrightarrow> bt_ok (filter P m)"
  by (induction m) (auto simp: bt_ok_def)

lemma bt_get_filter:
  assumes "bt_ok m"
  shows "bt_get (filter (\<lambda>(_, c). Q c) m) k = (case bt_get m k of None \<Rightarrow> None | Some c \<Rightarrow> if Q c then Some c else None)"
  using assms
proof (induction m)
  case (Cons e m)
  obtain a b where e: "e = (a, b)" by (cases e)
  have m: "bt_ok m" and lt: "\<forall>k\<in>set (map fst m). a < k" using Cons.prems e by (auto simp: bt_ok_def)
  have "bt_get m a = None" using lt by (force simp: bt_get_def map_of_eq_None_iff)
  then show ?case using Cons.IH [OF m] e by (auto simp: bt_get_def split: option.splits)
qed simp

lemma cleanup_ok: "nums_ok num \<Longrightarrow> nums_ok (cleanup closed num)"
proof -
  assume n: "nums_ok num"
  let ?f = "\<lambda>(i, m). (i, filter (\<lambda>(_, c). \<not> closed c) m)"
  have "map fst (map ?f num) = map fst num" by auto
  then have "bt_ok (map ?f num)" using n by (simp add: nums_ok_def bt_ok_def del: map_map)
  then show ?thesis using n by (auto simp: cleanup_def nums_ok_def bt_ok_filter)
qed

lemma num_get_cleanup:
  assumes "nums_ok num"
  shows "num_get (cleanup closed num) k = (case num_get num k of None \<Rightarrow> None | Some c \<Rightarrow> if closed c then None else Some c)"
proof -
  let ?g = "filter (\<lambda>(_, c). \<not> closed c)" and ?f = "\<lambda>(i, m). (i, filter (\<lambda>(_, c). \<not> closed c) m)"
  have keys: "map fst (map ?f num) = map fst num" by auto
  have ok: "bt_ok (map ?f num)" using assms keys by (simp add: nums_ok_def bt_ok_def del: map_map)
  have "bt_get (map ?f num) i = map_option ?g (bt_get num i)" for i
    by (simp add: bt_get_def map_of_map)
  then have "bt_get (cleanup closed num) i = (case bt_get num i of None \<Rightarrow> None | Some m \<Rightarrow> if ?g m \<noteq> [] then Some (?g m) else None)" for i
    using bt_get_filter [OF ok, of "\<lambda>m. m \<noteq> []" i] by (auto simp: cleanup_def split: option.splits)
  then have c: "bt_get (cleanup closed num) (fst k) =
      (case bt_get num (fst k) of None \<Rightarrow> None | Some m \<Rightarrow> if ?g m \<noteq> [] then Some (?g m) else None)" .
  show ?thesis
  proof (cases "bt_get num (fst k)")
    case None
    then show ?thesis using c by (simp add: num_get_def)
  next
    case (Some m)
    then have "bt_get (?g m) (snd k) = (case bt_get m (snd k) of None \<Rightarrow> None | Some c \<Rightarrow> if closed c then None else Some c)"
      using bt_get_filter [OF nums_ok_get [OF assms Some], of "\<lambda>c. \<not> closed c" "snd k"] by (simp split: option.splits)
    then show ?thesis using c Some by (cases "?g m = []") (simp_all add: num_get_def)
  qed
qed

text \<open>The messages of a channel: taken, queued, or being sent.\<close>

definition oks :: "'x item list \<Rightarrow> 'x Bc set" where "oks xs = {bc. Inr bc \<in> set xs}"

definition chan_msgs :: "'x Poller \<Rightarrow> nat \<Rightarrow> 'x Bc set" where
  "chan_msgs p c = oks (ch_got (p_chans p c) @ ch_queue (p_chans p c)) \<union> {bc. (c, Inr bc) \<in> set (p_pending p)}"

definition chan_tag :: "'x Poller \<Rightarrow> nat \<Rightarrow> u32 \<times> u16 option" where
  "chan_tag p c = (ch_id (p_chans p c), ch_num (p_chans p c))"

definition waiting_subs :: "'x PollCommand list \<Rightarrow> (u32 \<times> u16 option \<times> nat) list" where
  "waiting_subs cmds = List.map_filter (\<lambda>cmd. case cmd of AddSubscriber i num tx \<Rightarrow> Some (i, num, tx) | _ \<Rightarrow> None) cmds"

definition msgs_ok :: "(nat \<Rightarrow> 'x Bc set) \<Rightarrow> (nat \<Rightarrow> u32 \<times> u16 option) \<Rightarrow> nat \<Rightarrow> bool" where
  "msgs_ok M tag nxt \<longleftrightarrow> (\<forall>c bc. bc \<in> M c \<longrightarrow>
     c < nxt \<and> msg_id (meta bc) = fst (tag c) \<and> snd (tag c) \<in> {None, Some (msg_num (meta bc))} \<and>
     (\<forall>bc'\<in>M c. msg_num (meta bc') = msg_num (meta bc)))"

definition regs_ok ::
  "(u32 \<times> u16 option \<rightharpoonup> nat) \<Rightarrow> (nat \<Rightarrow> 'x Bc set) \<Rightarrow> (nat \<Rightarrow> u32 \<times> u16 option) \<Rightarrow> nat \<Rightarrow> bool" where
  "regs_ok R M tag nxt \<longleftrightarrow> (\<forall>x c. R x = Some c \<longrightarrow>
     c < nxt \<and> fst (tag c) = fst x \<and> snd (tag c) \<in> {None, snd x} \<and>
     (\<forall>bc\<in>M c. snd x = Some (msg_num (meta bc))) \<and> (\<forall>y. R y = Some c \<longrightarrow> y = x))"

definition subs_ok ::
  "(u32 \<times> u16 option \<rightharpoonup> nat) \<Rightarrow> (nat \<Rightarrow> 'x Bc set) \<Rightarrow> (nat \<Rightarrow> u32 \<times> u16 option) \<Rightarrow> nat \<Rightarrow>
   (u32 \<times> u16 option \<times> nat) list \<Rightarrow> bool" where
  "subs_ok R M tag nxt subs \<longleftrightarrow> distinct (map (snd \<circ> snd) subs) \<and>
     (\<forall>i num tx. (i, num, tx) \<in> set subs \<longrightarrow> tx < nxt \<and> tag tx = (i, num) \<and> M tx = {} \<and> (\<forall>x. R x \<noteq> Some tx))"

text \<open>Each part survives what the poller does to routes and messages.\<close>

lemma msgs_ok_mono: "msgs_ok M tag nxt \<Longrightarrow> (\<And>c. M' c \<subseteq> M c) \<Longrightarrow> msgs_ok M' tag nxt"
  unfolding msgs_ok_def by (meson subsetD)

lemma regs_ok_mono:
  "regs_ok R M tag nxt \<Longrightarrow> (\<And>x c. R' x = Some c \<Longrightarrow> R x = Some c) \<Longrightarrow> (\<And>c. M' c \<subseteq> M c) \<Longrightarrow> regs_ok R' M' tag nxt"
  unfolding regs_ok_def by (meson subsetD)

lemma subs_ok_mono:
  assumes "subs_ok R M tag nxt subs" "\<And>x c. R' x = Some c \<Longrightarrow> R x = Some c" "\<And>c. M' c \<subseteq> M c"
  shows "subs_ok R' M' tag nxt subs"
proof -
  have "M' c = {}" if "M c = {}" for c using assms(3) [of c] that by auto
  moreover have "R' x \<noteq> Some tx" if "R x \<noteq> Some tx" for x tx using assms(2) that by blast
  ultimately show ?thesis using assms(1) unfolding subs_ok_def by blast
qed

lemma subs_ok_tl: "subs_ok R M tag nxt (s # subs) \<Longrightarrow> subs_ok R M tag nxt subs"
  by (auto simp: subs_ok_def)

lemma deliver_ok:
  assumes "regs_ok R M tag nxt" "R (msg_id (meta bc), Some (msg_num (meta bc))) = Some c"
  shows "msgs_ok M tag nxt \<Longrightarrow> msgs_ok (M(c := insert bc (M c))) tag nxt"
    "regs_ok R (M(c := insert bc (M c))) tag nxt"
    "subs_ok R M tag nxt subs \<Longrightarrow> subs_ok R (M(c := insert bc (M c))) tag nxt subs"
proof -
  have c: "c < nxt" "fst (tag c) = msg_id (meta bc)" "snd (tag c) \<in> {None, Some (msg_num (meta bc))}"
    "\<forall>b\<in>M c. msg_num (meta b) = msg_num (meta bc)" "\<forall>y. R y = Some c \<longrightarrow> y = (msg_id (meta bc), Some (msg_num (meta bc)))"
    using assms(1) [unfolded regs_ok_def, rule_format, OF assms(2)] by auto
  show "msgs_ok (M(c := insert bc (M c))) tag nxt" if M: "msgs_ok M tag nxt"
    unfolding msgs_ok_def
  proof (intro allI impI)
    fix d b assume b: "b \<in> (M(c := insert bc (M c))) d"
    show "d < nxt \<and> msg_id (meta b) = fst (tag d) \<and> snd (tag d) \<in> {None, Some (msg_num (meta b))} \<and>
        (\<forall>bc'\<in>(M(c := insert bc (M c))) d. msg_num (meta bc') = msg_num (meta b))"
    proof (cases "d = c")
      case True
      then have "b = bc \<or> b \<in> M c" using b by simp
      then have "msg_num (meta b) = msg_num (meta bc)" "msg_id (meta b) = fst (tag c)"
        using c(2,4) M [unfolded msgs_ok_def, rule_format, of b c] by auto
      then show ?thesis using True c by simp
    next
      case False
      then have upd: "(M(c := insert bc (M c))) d = M d" by simp
      show ?thesis
        unfolding upd by (rule M [unfolded msgs_ok_def, THEN spec, THEN spec, THEN mp, OF b [unfolded upd]])
    qed
  qed
  show "regs_ok R (M(c := insert bc (M c))) tag nxt"
    using assms(1) c(4,5) unfolding regs_ok_def by (auto simp: fun_upd_apply)
  show "subs_ok R M tag nxt subs \<Longrightarrow> subs_ok R (M(c := insert bc (M c))) tag nxt subs"
    using assms(2) unfolding subs_ok_def by (auto simp: fun_upd_apply)
qed

lemma upgrade_ok:
  fixes n :: u16
  assumes "regs_ok R M tag nxt" "R (i, None) = Some c"
  defines "R' \<equiv> R((i, None) := None, (i, Some n) := Some c)"
  shows "regs_ok R' M tag nxt" "subs_ok R M tag nxt subs \<Longrightarrow> subs_ok R' M tag nxt subs"
proof -
  have c: "c < nxt" "tag c = (i, None)" "M c = {}" "\<forall>y. R y = Some c \<longrightarrow> y = (i, None)"
    using assms(1,2) unfolding regs_ok_def by (auto simp: prod_eq_iff) 
  show "regs_ok R' M tag nxt"
    unfolding regs_ok_def
  proof (intro allI impI)
    fix x d assume x: "R' x = Some d"
    show "d < nxt \<and> fst (tag d) = fst x \<and> snd (tag d) \<in> {None, snd x} \<and>
        (\<forall>bc\<in>M d. snd x = Some (msg_num (meta bc))) \<and> (\<forall>y. R' y = Some d \<longrightarrow> y = x)"
    proof (cases "x = (i, Some n)")
      case True
      then show ?thesis using x c by (auto simp: R'_def split: if_splits)
    next
      case False
      then have r: "R x = Some d" "x \<noteq> (i, None)" using x by (auto simp: R'_def split: if_splits)
      then have "d \<noteq> c" using c(4) by blast
      then show ?thesis
        using assms(1) [unfolded regs_ok_def, rule_format, OF r(1)] by (auto simp: R'_def split: if_splits)
    qed
  qed
  show "subs_ok R M tag nxt subs \<Longrightarrow> subs_ok R' M tag nxt subs"
    using assms(2) unfolding subs_ok_def R'_def by auto
qed

lemma add_ok:
  assumes "regs_ok R M tag nxt" "subs_ok R M tag nxt ((i, num, tx) # subs)"
  defines "R' \<equiv> R((i, num) := Some tx)"
  shows "regs_ok R' M tag nxt" "subs_ok R' M tag nxt subs"
proof -
  have tx: "tx < nxt" "tag tx = (i, num)" "M tx = {}" "\<forall>x. R x \<noteq> Some tx" "tx \<notin> (snd \<circ> snd) ` set subs"
    using assms(2) by (auto simp: subs_ok_def)
  show "regs_ok R' M tag nxt"
    unfolding regs_ok_def
  proof (intro allI impI)
    fix x d assume x: "R' x = Some d"
    show "d < nxt \<and> fst (tag d) = fst x \<and> snd (tag d) \<in> {None, snd x} \<and>
        (\<forall>bc\<in>M d. snd x = Some (msg_num (meta bc))) \<and> (\<forall>y. R' y = Some d \<longrightarrow> y = x)"
    proof (cases "x = (i, num)")
      case True
      then show ?thesis using x tx by (auto simp: R'_def split: if_splits)
    next
      case False
      then have r: "R x = Some d" using x by (auto simp: R'_def split: if_splits)
      then have "d \<noteq> tx" using tx(4) by blast
      then show ?thesis
        using assms(1) [unfolded regs_ok_def, rule_format, OF r(1)] by (auto simp: R'_def split: if_splits)
    qed
  qed
  have "\<forall>x. R' x \<noteq> Some t" if "(j, k, t) \<in> set subs" "\<forall>x. R x \<noteq> Some t" for j k t
  proof -
    have "t \<noteq> tx" using tx(5) that(1) by force
    then show ?thesis using that(2) by (simp add: R'_def)
  qed
  then show "subs_ok R' M tag nxt subs"
    using subs_ok_tl [OF assms(2)] unfolding subs_ok_def by blast
qed

definition poller_ok :: "'x Poller \<Rightarrow> bool" where
  "poller_ok p \<longleftrightarrow> nums_ok (p_num p) \<and> msgs_ok (chan_msgs p) (chan_tag p) (p_next p) \<and>
     regs_ok (num_get (p_num p)) (chan_msgs p) (chan_tag p) (p_next p) \<and>
     subs_ok (num_get (p_num p)) (chan_msgs p) (chan_tag p) (p_next p) (waiting_subs (p_commands p))"

lemma poller_okD:
  assumes "poller_ok p"
  shows "nums_ok (p_num p)" "msgs_ok (chan_msgs p) (chan_tag p) (p_next p)"
    "regs_ok (num_get (p_num p)) (chan_msgs p) (chan_tag p) (p_next p)"
    "subs_ok (num_get (p_num p)) (chan_msgs p) (chan_tag p) (p_next p) (waiting_subs (p_commands p))"
  using assms by (simp_all add: poller_ok_def)

lemma waiting_subs_simps [simp]:
  "waiting_subs [] = []" "waiting_subs (AddSubscriber i num tx # cs) = (i, num, tx) # waiting_subs cs"
  "waiting_subs (CmdBc r # cs) = waiting_subs cs" "waiting_subs (AddHandler i h # cs) = waiting_subs cs"
  "waiting_subs (RemoveHandler i # cs) = waiting_subs cs" "waiting_subs (Disconnect # cs) = waiting_subs cs"
  "waiting_subs (cs @ cs') = waiting_subs cs @ waiting_subs cs'"
  by (simp_all add: waiting_subs_def map_filter_def)

lemma msgs_ok_lt: "msgs_ok M tag nxt \<Longrightarrow> bc \<in> M c \<Longrightarrow> c < nxt"
  unfolding msgs_ok_def by blast

text \<open>Fewer messages and fewer routes are no harm.\<close>

lemma poller_ok_mono:
  assumes "poller_ok p" "nums_ok (p_num q)" "\<And>x c. num_get (p_num q) x = Some c \<Longrightarrow> num_get (p_num p) x = Some c"
    "\<And>c. chan_msgs q c \<subseteq> chan_msgs p c" "chan_tag q = chan_tag p" "p_next q = p_next p"
    "waiting_subs (p_commands q) = waiting_subs (p_commands p)"
  shows "poller_ok q"
  unfolding poller_ok_def assms(5-7)
proof (intro conjI)
  show "nums_ok (p_num q)" by (rule assms(2))
  show "msgs_ok (chan_msgs q) (chan_tag p) (p_next p)" by (rule msgs_ok_mono [OF poller_okD(2) [OF assms(1)] assms(4)])
  show "regs_ok (num_get (p_num q)) (chan_msgs q) (chan_tag p) (p_next p)"
    by (rule regs_ok_mono [OF poller_okD(3) [OF assms(1)] assms(3,4)])
  show "subs_ok (num_get (p_num q)) (chan_msgs q) (chan_tag p) (p_next p) (waiting_subs (p_commands p))"
    by (rule subs_ok_mono [OF poller_okD(4) [OF assms(1)] assms(3,4)])
qed

lemmas chan_defs = chan_msgs_def chan_tag_def

lemma chan_frame [simp]:
  "chan_msgs (p\<lparr>p_num := num\<rparr>) = chan_msgs p" "chan_msgs (p\<lparr>p_id := ids\<rparr>) = chan_msgs p"
  "chan_msgs (p\<lparr>p_ended := e\<rparr>) = chan_msgs p" "chan_msgs (p\<lparr>p_commands := cs\<rparr>) = chan_msgs p"
  "chan_msgs (p\<lparr>p_spawned := sp\<rparr>) = chan_msgs p" "chan_msgs (p\<lparr>p_sink := sk\<rparr>) = chan_msgs p"
  "chan_tag (p\<lparr>p_num := num\<rparr>) = chan_tag p" "chan_tag (p\<lparr>p_id := ids\<rparr>) = chan_tag p"
  "chan_tag (p\<lparr>p_ended := e\<rparr>) = chan_tag p" "chan_tag (p\<lparr>p_commands := cs\<rparr>) = chan_tag p"
  "chan_tag (p\<lparr>p_spawned := sp\<rparr>) = chan_tag p" "chan_tag (p\<lparr>p_sink := sk\<rparr>) = chan_tag p"
  "chan_tag (p\<lparr>p_pending := ps\<rparr>) = chan_tag p"
  by (auto simp: chan_defs fun_eq_iff)

lemma poller_ok_frame:
  assumes "poller_ok p"
  shows "poller_ok (p\<lparr>p_id := ids\<rparr>)" "poller_ok (p\<lparr>p_ended := e\<rparr>)" "poller_ok (p\<lparr>p_spawned := sp\<rparr>)"
    "poller_ok (p\<lparr>p_sink := sk\<rparr>)" "waiting_subs cs = waiting_subs (p_commands p) \<Longrightarrow> poller_ok (p\<lparr>p_commands := cs\<rparr>)"
  using assms by (simp_all add: poller_ok_def)

lemma poller_ok_put:
  "poller_ok p \<Longrightarrow> put_command cmd p = Some q \<Longrightarrow> waiting_subs [cmd] = [] \<Longrightarrow> poller_ok q"
  by (auto simp: put_command_def poller_ok_frame split: if_splits)

lemma poller_ok_subscribe:
  assumes "poller_ok p" "conn_sys_step H (Subscribe i num) p = Some q" "\<not> mailbox_closed p"
  shows "poller_ok q"
proof -
  note ok = poller_okD [OF assms(1)]
  let ?n = "p_next p"
  have q: "p_num q = p_num p" "p_next q = ?n + 1" "waiting_subs (p_commands q) = waiting_subs (p_commands p) @ [(i, num, ?n)]"
    "chan_tag q = (chan_tag p)(?n := (i, num))"
    using assms(2,3) by (auto simp: put_command_def mailbox_closed_def chan_tag_def fun_eq_iff split: if_splits)
  have none: "chan_msgs p ?n = {}" using msgs_ok_lt [OF ok(2)] by fastforce
  have M: "chan_msgs q = chan_msgs p"
  proof
    fix c
    show "chan_msgs q c = chan_msgs p c"
      using assms(2,3) none by (cases "c = ?n") (auto simp: put_command_def mailbox_closed_def chan_msgs_def oks_def split: if_splits)
  qed
  have "msgs_ok (chan_msgs q) (chan_tag q) (?n + 1)"
    unfolding M q(4) msgs_ok_def
  proof (intro allI impI)
    fix c bc assume bc: "bc \<in> chan_msgs p c"
    then have "c \<noteq> ?n" using none by auto
    then show "c < ?n + 1 \<and> msg_id (meta bc) = fst (((chan_tag p)(?n := (i, num))) c) \<and>
        snd (((chan_tag p)(?n := (i, num))) c) \<in> {None, Some (msg_num (meta bc))} \<and>
        (\<forall>bc'\<in>chan_msgs p c. msg_num (meta bc') = msg_num (meta bc))"
      using ok(2) [unfolded msgs_ok_def, THEN spec, THEN spec, THEN mp, OF bc] by simp
  qed
  moreover have "regs_ok (num_get (p_num q)) (chan_msgs q) (chan_tag q) (?n + 1)"
    unfolding M q(1,4) regs_ok_def
  proof (intro allI impI)
    fix x c assume x: "num_get (p_num p) x = Some c"
    note r = ok(3) [unfolded regs_ok_def, THEN spec, THEN spec, THEN mp, OF x]
    then show "c < ?n + 1 \<and> fst (((chan_tag p)(?n := (i, num))) c) = fst x \<and>
        snd (((chan_tag p)(?n := (i, num))) c) \<in> {None, snd x} \<and>
        (\<forall>bc\<in>chan_msgs p c. snd x = Some (msg_num (meta bc))) \<and>
        (\<forall>y. num_get (p_num p) y = Some c \<longrightarrow> y = x)" by simp
  qed
  moreover have "subs_ok (num_get (p_num q)) (chan_msgs q) (chan_tag q) (?n + 1) (waiting_subs (p_commands q))"
    unfolding subs_ok_def q(1,3,4) M
  proof (intro conjI allI impI)
    show "distinct (map (snd \<circ> snd) (waiting_subs (p_commands p) @ [(i, num, ?n)]))"
      using ok(4) unfolding subs_ok_def by fastforce
    fix j k t assume t: "(j, k, t) \<in> set (waiting_subs (p_commands p) @ [(i, num, ?n)])"
    have new: "num_get (p_num p) x \<noteq> Some ?n" for x using ok(3) unfolding regs_ok_def by blast
    show "t < ?n + 1" "((chan_tag p)(?n := (i, num))) t = (j, k)" "chan_msgs p t = {}" 
      using t ok(4) none unfolding subs_ok_def by (fastforce simp: less_Suc_eq)+
    show "num_get (p_num p) x \<noteq> Some t" for x using t ok(4) new unfolding subs_ok_def by (cases x) auto
  qed
  ultimately show ?thesis unfolding poller_ok_def q(2) using ok(1) q(1) by simp
qed

lemma poller_ok_deliver:
  assumes "poller_ok p" "conn_sys_step H Deliver p = Some q"
  shows "poller_ok q"
proof (rule poller_ok_mono [OF assms(1)])
  obtain c x rest where pend: "p_pending p = (c, x) # rest" using assms(2) by (auto split: list.splits)
  show "chan_msgs q d \<subseteq> chan_msgs p d" for d
    using assms(2) pend by (cases "d = c") (auto simp: chan_msgs_def oks_def Let_def split: if_splits)
  show "chan_tag q = chan_tag p"
    using assms(2) pend by (auto simp: chan_tag_def Let_def fun_eq_iff split: if_splits)
qed (use assms poller_okD(1) [OF assms(1)] in \<open>auto simp: Let_def split: list.splits if_splits\<close>)

lemma poller_ok_take:
  assumes "poller_ok p" "conn_sys_step H (Take c) p = Some q"
  shows "poller_ok q"
proof (rule poller_ok_mono [OF assms(1)])
  show "chan_msgs q d \<subseteq> chan_msgs p d" for d
    using assms(2) by (cases "d = c") (auto simp: chan_msgs_def oks_def Let_def split: list.splits if_splits)
  show "chan_tag q = chan_tag p"
    using assms(2) by (auto simp: chan_tag_def Let_def fun_eq_iff split: list.splits if_splits)
qed (use assms poller_okD(1) [OF assms(1)] in \<open>auto simp: Let_def split: list.splits if_splits\<close>)

lemma poller_ok_leave:
  assumes "poller_ok p" "conn_sys_step H (Leave c) p = Some q"
  shows "poller_ok q"
proof (rule poller_ok_mono [OF assms(1)])
  show "chan_msgs q d \<subseteq> chan_msgs p d" for d
    using assms(2) by (cases "d = c") (auto simp: chan_msgs_def oks_def)
  show "chan_tag q = chan_tag p" using assms(2) by (auto simp: chan_tag_def fun_eq_iff)
qed (use assms poller_okD(1) [OF assms(1)] in auto)

lemma poller_ok_cleanup: "poller_ok p \<Longrightarrow> poller_ok (p\<lparr>p_num := cleanup closed (p_num p)\<rparr>)"
  by (rule poller_ok_mono) (auto simp: cleanup_ok num_get_cleanup poller_okD(1) split: option.splits if_splits)

text \<open>The send of one message to a registered channel.\<close>

lemma chan_msgs_pending:
  "p_pending p = [] \<Longrightarrow> chan_msgs (p\<lparr>p_pending := [(c, Inr bc)]\<rparr>) = (chan_msgs p)(c := insert bc (chan_msgs p c))"
  by (auto simp: chan_msgs_def fun_eq_iff)

lemma chan_msgs_errors:
  "p_pending p = [] \<Longrightarrow> \<forall>x\<in>set ps. \<exists>e. snd x = Inl e \<Longrightarrow> chan_msgs (p\<lparr>p_pending := ps\<rparr>) = chan_msgs p"
  by (force simp: chan_msgs_def fun_eq_iff)

lemma poller_ok_send:
  assumes "poller_ok p" "p_pending p = []"
    "num_get (p_num p) (msg_id (meta bc), Some (msg_num (meta bc))) = Some c"
  shows "poller_ok (p\<lparr>p_pending := [(c, Inr bc)]\<rparr>)"
  using poller_okD [OF assms(1)] deliver_ok [OF poller_okD(3) [OF assms(1)] assms(3)]
  by (simp add: poller_ok_def chan_msgs_pending [OF assms(2)])

lemma poller_ok_upgrade:
  fixes n :: u16
  assumes "poller_ok p" "bt_get (p_num p) i = Some occ" "bt_get occ None = Some c"
  defines "q \<equiv> p\<lparr>p_num := bt_insert i (bt_insert (Some n) c (bt_remove None occ)) (p_num p)\<rparr>"
  shows "poller_ok q" "num_get (p_num q) (i, Some n) = Some c"
proof -
  note ok = poller_okD [OF assms(1)]
  have occ: "bt_ok occ" using nums_ok_get [OF ok(1) assms(2)] .
  have R: "num_get (p_num q) = (num_get (p_num p))((i, None) := None, (i, Some n) := Some c)"
  proof
    fix x
    show "num_get (p_num q) x = ((num_get (p_num p))((i, None) := None, (i, Some n) := Some c)) x"
      using assms(2) ok(1) occ
      by (cases x) (auto simp: q_def num_get_insert bt_simps num_get_row)
  qed
  then show "num_get (p_num q) (i, Some n) = Some c" by simp
  have "num_get (p_num p) (i, None) = Some c" using assms(2,3) by (simp add: num_get_def)
  note up = upgrade_ok [OF ok(3) this, where n = n]
  have "nums_ok (p_num q)" using ok(1) occ by (simp add: q_def nums_ok_insert bt_simps)
  then show "poller_ok q"
    unfolding poller_ok_def R using ok(2) up(1) up(2) [OF ok(4)] by (simp add: q_def)
qed

text \<open>Each command of the poller.\<close>

lemma poller_ok_route:
  assumes "poller_ok p" "p_pending p = []"
  shows "poller_ok (route_message bc p)"
proof -
  note ok = poller_okD [OF assms(1)]
  let ?i = "msg_id (meta bc)" and ?n = "msg_num (meta bc)"
  show ?thesis
  proof (cases "bt_get (p_id p) ?i")
    case (Some h)
    then show ?thesis using assms(1) by (simp add: route_message_def poller_ok_frame)
  next
    case none: None
    show ?thesis
    proof (cases "bt_get (p_num p) ?i")
      case None
      then show ?thesis using none assms(1) by (simp add: route_message_def)
    next
      case (Some occ)
      have occ: "bt_ok occ" using nums_ok_get [OF ok(1) Some] .
      let ?set = "\<lambda>occ'. p\<lparr>p_num := bt_insert ?i occ' (p_num p)\<rparr>"
      have same: "poller_ok (?set occ)" and fewer: "poller_ok (?set (bt_remove (Some ?n) occ))"
        by (rule poller_ok_mono [OF assms(1)];
            use Some occ ok(1) in \<open>auto simp: nums_ok_insert num_get_insert num_get_row bt_simps split: if_splits\<close>)+
      have sent: "poller_ok ((?set (bt_insert (Some ?n) c (bt_remove None occ)))\<lparr>p_pending := [(c, Inr bc)]\<rparr>)"
        if "bt_get occ None = Some c" for c
      proof (rule poller_ok_send)
        show "poller_ok (?set (bt_insert (Some ?n) c (bt_remove None occ)))"
          by (rule poller_ok_upgrade(1) [OF assms(1) Some that])
        show "num_get (p_num (?set (bt_insert (Some ?n) c (bt_remove None occ)))) (?i, Some ?n) = Some c"
          by (rule poller_ok_upgrade(2) [OF assms(1) Some that])
      qed (use assms(2) in simp)
      have kept: "poller_ok ((?set occ)\<lparr>p_pending := [(c, Inr bc)]\<rparr>)" if "bt_get occ (Some ?n) = Some c" for c
        using poller_ok_send [OF same, of bc c] assms(2) that ok(1) by (simp add: num_get_insert)
      have idle: "p\<lparr>p_num := num, p_pending := []\<rparr> = p\<lparr>p_num := num\<rparr>" for num using assms(2) by simp
      show ?thesis
        using none Some same fewer sent kept
        by (auto simp: route_message_def pick_sender_def idle split: option.splits)
    qed
  qed
qed

lemma poller_ok_add:
  assumes "poller_ok p" "p_pending p = []"
    "subs_ok (num_get (p_num p)) (chan_msgs p) (chan_tag p) (p_next p) ((i, num, tx) # waiting_subs (p_commands p))"
  shows "poller_ok (add_subscriber i num tx p)"
proof -
  note ok = poller_okD [OF assms(1)]
  define m where "m = (case bt_get (p_num p) i of Some m \<Rightarrow> m | None \<Rightarrow> [])"
  have m: "bt_ok m" using nums_ok_get [OF ok(1)] by (auto simp: m_def bt_ok_def split: option.splits)
  have get: "bt_get m k = num_get (p_num p) (i, k)" for k
    by (simp add: m_def num_get_def split: option.splits)
  let ?m' = "bt_insert num tx m"
  have same: "num_get (bt_insert i m (p_num p)) = num_get (p_num p)"
    using ok(1) get by (auto simp: num_get_insert fun_eq_iff)
  have new: "num_get (bt_insert i ?m' (p_num p)) = (num_get (p_num p))((i, num) := Some tx)"
    using ok(1) get m by (auto simp: num_get_insert fun_eq_iff bt_simps)
  have quiet: "chan_msgs (q\<lparr>p_pending := [(tx, Inl e)]\<rparr>) = chan_msgs q" if "p_pending q = []" for q e
    using that by (intro chan_msgs_errors) auto
  have ok': "nums_ok (bt_insert i m (p_num p))" "nums_ok (bt_insert i ?m' (p_num p))"
    using ok(1) m by (simp_all add: nums_ok_insert bt_simps)
  have "poller_ok (p\<lparr>p_num := bt_insert i ?m' (p_num p)\<rparr>)"
    using ok ok' add_ok [OF ok(3) assms(3)] by (simp add: poller_ok_def new)
  moreover have "poller_ok (p\<lparr>p_num := bt_insert i m (p_num p), p_pending := [(tx, Inl e)]\<rparr>)" for e
    using ok ok' quiet [of "p\<lparr>p_num := bt_insert i m (p_num p)\<rparr>"] assms(2) by (simp add: poller_ok_def same)
  moreover have "p\<lparr>p_num := num, p_pending := []\<rparr> = p\<lparr>p_num := num\<rparr>" for num using assms(2) by simp
  ultimately show ?thesis
    by (auto simp: add_subscriber_def Let_def m_def [symmetric] split: option.splits)
qed

lemma poller_ok_fail:
  assumes "poller_ok p" "p_pending p = []"
  shows "poller_ok (p\<lparr>p_pending := map (\<lambda>c. (c, Inl e)) cs, p_num := [], p_id := [], p_ended := Some e\<rparr>)"
proof (rule poller_ok_mono [OF assms(1)])
  show "chan_msgs (p\<lparr>p_pending := map (\<lambda>c. (c, Inl e)) cs, p_num := [], p_id := [], p_ended := Some e\<rparr>) d
      \<subseteq> chan_msgs p d" for d
    using assms(2) by (auto simp: chan_msgs_def)
qed (auto simp: nums_ok_def bt_ok_def num_get_def bt_get_def chan_tag_def fun_eq_iff)

lemma poller_ok_poll:
  assumes ok: "poller_ok p" and idle: "p_pending p = []" and cmds: "p_commands p = cmd # cmds"
  shows "poller_ok (poll_command cmd (p\<lparr>p_commands := cmds\<rparr>))"
proof -
  let ?p = "p\<lparr>p_num := cleanup (\<lambda>c. ch_closed (p_chans p c)) (p_num p)\<rparr>"
  let ?q = "p\<lparr>p_commands := cmds, p_num := cleanup (\<lambda>c. ch_closed (p_chans p c)) (p_num p)\<rparr>"
  have p: "poller_ok ?p" by (rule poller_ok_cleanup [OF ok])
  have sub: "subs_ok (num_get (p_num ?p)) (chan_msgs ?p) (chan_tag ?p) (p_next ?p) (waiting_subs (cmd # cmds))"
    using poller_okD(4) [OF p] cmds by simp
  then have "subs_ok (num_get (p_num ?p)) (chan_msgs ?p) (chan_tag ?p) (p_next ?p) (waiting_subs cmds)"
    by (cases cmd) (auto dest: subs_ok_tl)
  then have q: "poller_ok ?q" using poller_okD [OF p] by (simp add: poller_ok_def)
  have eq: "poll_command cmd (p\<lparr>p_commands := cmds\<rparr>) = (case cmd of
       CmdBc (Inr bc) \<Rightarrow> route_message bc ?q
     | CmdBc (Inl e) \<Rightarrow> ?q\<lparr>p_pending := map (\<lambda>c. (c, Inl e)) (concat (map (bt_values \<circ> snd) (p_num ?q))),
         p_num := [], p_id := [], p_ended := Some e\<rparr>
     | AddHandler i h \<Rightarrow> (case bt_get (p_id ?q) i of
         None \<Rightarrow> ?q\<lparr>p_id := bt_insert i h (p_id ?q)\<rparr> | Some _ \<Rightarrow> ?q\<lparr>p_ended := Some (SimultaneousSubscriptionId i)\<rparr>)
     | RemoveHandler i \<Rightarrow> ?q\<lparr>p_id := bt_remove i (p_id ?q)\<rparr>
     | AddSubscriber i num tx \<Rightarrow> add_subscriber i num tx ?q
     | Disconnect \<Rightarrow> ?q\<lparr>p_ended := Some ConnectionShutdown\<rparr>)"
    by (simp add: poll_command_def Let_def)
  have idle': "p_pending ?q = []" using idle by simp
  show ?thesis
  proof (cases cmd)
    case (CmdBc x1)
    show ?thesis
    proof (cases x1)
      case (Inl e)
      then show ?thesis unfolding eq using CmdBc poller_ok_fail [OF q idle'] by simp
    next
      case (Inr bc)
      then show ?thesis unfolding eq using CmdBc poller_ok_route [OF q idle'] by simp
    qed
  next
    case (AddHandler i h)
    then show ?thesis unfolding eq using poller_ok_frame [OF q] by (simp split: option.splits)
  next
    case (RemoveHandler i)
    then show ?thesis unfolding eq using poller_ok_frame [OF q] by simp
  next
    case (AddSubscriber i num tx)
    then show ?thesis unfolding eq using poller_ok_add [OF q idle'] sub by simp
  next
    case Disconnect
    then show ?thesis unfolding eq using poller_ok_frame [OF q] by simp
  qed
qed

lemma poller_ok_step:
  assumes "poller_ok p" "conn_sys_step H e p = Some q"
  shows "poller_ok q"
proof (cases e)
  case (Subscribe i num)
  then show ?thesis using assms poller_ok_subscribe by (cases "mailbox_closed p") (simp, blast)
next
  case Poll
  then show ?thesis using assms poller_ok_poll by (auto split: if_splits list.splits)
next
  case Deliver
  then show ?thesis using assms poller_ok_deliver by blast
next
  case Callback
  then show ?thesis using assms by (auto simp: poller_ok_frame split: list.splits prod.splits)
next
  case (Take c)
  then show ?thesis using assms poller_ok_take by blast
next
  case (Leave c)
  then show ?thesis using assms poller_ok_leave by blast
qed (use assms in \<open>auto elim: poller_ok_put [OF assms(1)]\<close>)

interpretation conn: step_invariant "conn_sys_step H" "\<lambda>_. True" poller_ok
  by unfold_locales (rule poller_ok_step)

lemma poller_ok_new: "poller_ok Poller_new"
  by (auto simp: poller_ok_def Poller_new_def nums_ok_def bt_ok_def msgs_ok_def regs_ok_def subs_ok_def
      chan_msgs_def oks_def num_get_def bt_get_def)

lemma conn_run_ok: "conn_sys_run H es = Some p \<Longrightarrow> poller_ok p"
  unfolding conn_sys_run_def by (rule conn.run_keeps [OF poller_ok_new]) simp_all

lemma sub_recv_all_id:
  "\<forall>bc. Inr bc \<in> set xs \<longrightarrow> msg_num (meta bc) = n \<Longrightarrow> num \<in> {None, Some (ucast n)} \<Longrightarrow> sub_recv_all num xs = xs"
  by (induction xs arbitrary: num) (auto simp: sub_recv_def split: sum.splits option.splits)

text \<open>
  C18. Whatever the camera sends and however subscriptions come and go, the poller gives a subscriber only
  messages of the ID it subscribed to, all with one message number - the number it asked for, if it asked
  for one - so that \<open>BcSubscription::recv\<close> passes every item on and its mismatch error never happens.
\<close>

theorem conn_routing_sound:
  assumes "conn_sys_run H es = Some p"
  shows "sub_recv_all (map_option ucast (ch_num (p_chans p c))) (ch_got (p_chans p c)) = ch_got (p_chans p c) \<and>
    (\<exists>n. \<forall>bc. Inr bc \<in> set (ch_got (p_chans p c)) \<longrightarrow>
       msg_id (meta bc) = ch_id (p_chans p c) \<and> msg_num (meta bc) = n \<and> ch_num (p_chans p c) \<in> {None, Some n})"
proof -
  note ok = poller_okD(2) [OF conn_run_ok [OF assms]]
  let ?ch = "p_chans p c"
  have M: "bc \<in> chan_msgs p c" if "Inr bc \<in> set (ch_got ?ch)" for bc using that by (simp add: chan_msgs_def oks_def)
  show ?thesis
  proof (cases "\<exists>bc. Inr bc \<in> set (ch_got ?ch)")
    case False
    then show ?thesis
      using sub_recv_all_id [of "ch_got ?ch" n "map_option ucast (ch_num ?ch)" for n]
      by (cases "ch_num ?ch") auto
  next
    case True
    then obtain b where b: "Inr b \<in> set (ch_got ?ch)" by blast
    note r = ok [unfolded msgs_ok_def chan_tag_def fst_conv snd_conv, THEN spec, THEN spec, THEN mp]
    have num: "\<forall>bc. Inr bc \<in> set (ch_got ?ch) \<longrightarrow> msg_num (meta bc) = msg_num (meta b)"
      using r [OF M [OF b]] M by blast
    have tag: "ch_num ?ch \<in> {None, Some (msg_num (meta b))}" using r [OF M [OF b]] by blast
    moreover have "\<forall>bc. Inr bc \<in> set (ch_got ?ch) \<longrightarrow> msg_id (meta bc) = ch_id ?ch" using r [OF M] by blast
    ultimately show ?thesis
      using num sub_recv_all_id [OF num, of "map_option ucast (ch_num ?ch)"] by auto
  qed
qed

section \<open>A subscriber that does not read\<close>

text \<open>What a subscriber has been given: taken or waiting to be.\<close>

definition delivered :: "'x channel \<Rightarrow> 'x item list" where "delivered ch = ch_got ch @ ch_queue ch"

lemma delivered_simps [simp]:
  "ch_queue ch = x # q \<Longrightarrow> delivered (ch\<lparr>ch_queue := q, ch_got := ch_got ch @ [x]\<rparr>) = delivered ch"
  "delivered (ch\<lparr>ch_closed := b\<rparr>) = delivered ch"
  by (simp_all add: delivered_def)

definition stuck :: "nat \<Rightarrow> 'x Poller \<Rightarrow> bool" where
  "stuck c p \<longleftrightarrow> p_pending p \<noteq> [] \<and> fst (hd (p_pending p)) = c \<and> \<not> ch_closed (p_chans p c) \<and>
     length (ch_queue (p_chans p c)) = CHANNEL_CAP \<and> c < p_next p"

definition stuck_from :: "nat \<Rightarrow> 'x Poller \<Rightarrow> 'x Poller \<Rightarrow> bool" where
  "stuck_from c p q \<longleftrightarrow> stuck c q \<and> p_pending q = p_pending p \<and> p_num q = p_num p \<and> p_id q = p_id p \<and>
     p_ended q = p_ended p \<and> p_next p \<le> p_next q \<and> (\<exists>cs. p_commands q = p_commands p @ cs) \<and>
     (\<forall>d<p_next p. delivered (p_chans q d) = delivered (p_chans p d))"

lemma stuck_from_step:
  assumes "stuck_from c p q" "e \<noteq> Take c \<and> e \<noteq> Leave c" "conn_sys_step H e q = Some q'"
  shows "stuck_from c p q'"
  using assms
  by (cases e) (auto simp: stuck_from_def stuck_def put_command_def mailbox_closed_def Let_def split: if_splits list.splits)

interpretation blocked: step_invariant "conn_sys_step H" "\<lambda>e. e \<noteq> Take c \<and> e \<noteq> Leave c" "stuck_from c p"
  by unfold_locales (rule stuck_from_step)

text \<open>
  C35. The poller waits for room in the subscriber's channel while it delivers. Once the channel it is
  sending to is full and its subscriber neither reads nor goes away, then whatever else happens nothing is
  routed any more: no other subscriber receives anything, no subscription or handler is added or removed,
  the mailbox only grows, and when it is full even a shutdown request cannot be placed.
\<close>

theorem conn_head_of_line:
  assumes "stuck c p" "run_events (conn_sys_step H) es p = Some q" "Take c \<notin> set es" "Leave c \<notin> set es"
  shows "p_pending q = p_pending p \<and> p_num q = p_num p \<and> p_id q = p_id p \<and> p_ended q = p_ended p \<and>
    (\<forall>d<p_next p. delivered (p_chans q d) = delivered (p_chans p d)) \<and>
    (\<exists>cs. p_commands q = p_commands p @ cs) \<and>
    (COMMAND_CAP \<le> length (p_commands p) \<longrightarrow> conn_sys_step H Shutdown q = None)"
proof -
  have "stuck_from c p p" using assms(1) by (simp add: stuck_from_def)
  then have q: "stuck_from c p q"
    by (rule blocked.run_keeps [OF _ _ assms(2)]) (use assms(3,4) in auto)
  then show ?thesis by (auto simp: stuck_from_def stuck_def put_command_def mailbox_closed_def)
qed

definition w_msg :: "u16 \<Rightarrow> unit Bc" where
  "w_msg n = Bc_new_from_ext \<lparr>msg_id = 3, channel_id = 0, stream_type = 0, response_code = 200, msg_num = n, msg_class = 25620\<rparr>
     Extension_default"

definition w_route :: "unit conn_sys_event list" where
  "w_route = [Subscribe 3 None, Poll, Arrive (Inr (w_msg 7)), Arrive (Inr (w_msg 8)), Arrive (Inr (w_msg 7)),
     Poll, Deliver, Poll, Poll, Deliver, Take 0, Take 0]"

theorem conn_routing_sound_witness:
  "\<exists>p. conn_sys_run (\<lambda>_ _. None) w_route = Some p \<and> ch_got (p_chans p 0) = [Inr (w_msg 7), Inr (w_msg 7)] \<and>
     sub_recv_all (map_option ucast (ch_num (p_chans p 0))) (ch_got (p_chans p 0)) = ch_got (p_chans p 0)"
proof -
  have "map_option (\<lambda>p. ch_got (p_chans p 0)) (conn_sys_run (\<lambda>_ _. None) w_route) = Some [Inr (w_msg 7), Inr (w_msg 7)]"
    by code_simp
  then have "\<exists>p. conn_sys_run (\<lambda>_ _. None) w_route = Some p \<and> ch_got (p_chans p 0) = [Inr (w_msg 7), Inr (w_msg 7)]"
    by auto
  then show ?thesis using conn_routing_sound [of "\<lambda>_ _. None" w_route _ 0] by blast
qed

definition w_stuck :: "unit Poller" where
  "w_stuck = Poller_new\<lparr>p_next := 2, p_pending := [(0, Inr (w_msg 7))],
     p_chans := (p_chans Poller_new)(0 := \<lparr>ch_id = 3, ch_num = None, ch_queue = replicate 100 (Inr (w_msg 7)), ch_got = [],
       ch_closed = False\<rparr>)\<rparr>"

theorem conn_head_of_line_witness:
  "stuck 0 w_stuck \<and> (\<exists>q. run_events (conn_sys_step (\<lambda>_ _. None)) [Arrive (Inr (w_msg 8)), Shutdown] w_stuck = Some q \<and>
     p_ended q = None \<and> p_pending q = [(0, Inr (w_msg 7))])"
proof -
  have stuck: "stuck 0 w_stuck" by (simp add: stuck_def w_stuck_def CHANNEL_CAP_def)
  obtain q where q: "run_events (conn_sys_step (\<lambda>_ _. None)) [Arrive (Inr (w_msg 8)), Shutdown] w_stuck = Some q"
    by (simp add: w_stuck_def mailbox_closed_def put_command_def COMMAND_CAP_def Poller_new_def)
  have "p_ended w_stuck = None" "p_pending w_stuck = [(0, Inr (w_msg 7))]" by (simp_all add: w_stuck_def Poller_new_def)
  then show ?thesis using stuck q conn_head_of_line [OF stuck q] by simp
qed

end
