(* ===== verification/Bc_Codec.thy ===== *)
theory Bc_Codec
  imports Bc_Model
begin

text \<open>
  The control-message codec (\<open>src/baichuan/bc/ser.rs\<close>, \<open>de.rs\<close>, \<open>codex.rs\<close>): serialiser, the
  incremental parser with its body cap, and the stateful \<open>Encoder\<close>/\<open>Decoder\<close> pair of \<open>BcCodex\<close>
  that negotiates the session encryption while messages pass through it.
\<close>

section \<open>Codec state\<close>

record BcContext =
  credentials :: Credentials
  in_bin_mode :: "u16 set"
  encryption_protocol :: EncryptionProtocol
  debug :: bool

definition BcContext_new :: "Credentials \<Rightarrow> BcContext" where
  "BcContext_new c = \<lparr>credentials = c, in_bin_mode = {}, encryption_protocol = Unencrypted,
                      debug = False\<rparr>"

definition set_encrypted :: "EncryptionProtocol \<Rightarrow> BcContext \<Rightarrow> BcContext" where
  "set_encrypted p ctx = ctx\<lparr>encryption_protocol := p\<rparr>"

definition binary_on :: "u16 \<Rightarrow> BcContext \<Rightarrow> BcContext" where
  "binary_on n ctx = ctx\<lparr>in_bin_mode := insert n (in_bin_mode ctx)\<rparr>"

definition binary_off :: "u16 \<Rightarrow> BcContext \<Rightarrow> BcContext" where
  "binary_off n ctx = ctx\<lparr>in_bin_mode := in_bin_mode ctx - {n}\<rparr>"

definition debug_on :: "BcContext \<Rightarrow> BcContext" where
  "debug_on ctx = ctx\<lparr>debug := True\<rparr>"

lemma context_sel [simp]:
  "encryption_protocol (set_encrypted p ctx) = p" "in_bin_mode (set_encrypted p ctx) = in_bin_mode ctx"
  "credentials (set_encrypted p ctx) = credentials ctx"
  "encryption_protocol (binary_on n ctx) = encryption_protocol ctx"
  "encryption_protocol (binary_off n ctx) = encryption_protocol ctx"
  "credentials (binary_on n ctx) = credentials ctx"
  "credentials (binary_off n ctx) = credentials ctx"
  "in_bin_mode (binary_on n ctx) = insert n (in_bin_mode ctx)"
  "in_bin_mode (binary_off n ctx) = in_bin_mode ctx - {n}"
  by (simp_all add: set_encrypted_def binary_on_def binary_off_def)

record BcCodex =
  codec_context :: BcContext
  pending_session_aes :: "(u16 \<times> bytes \<times> bytes) option"

definition BcCodex_new :: "Credentials \<Rightarrow> BcCodex" where
  "BcCodex_new c = \<lparr>codec_context = BcContext_new c, pending_session_aes = None\<rparr>"

definition BcCodex_new_with_debug :: "Credentials \<Rightarrow> BcCodex" where
  "BcCodex_new_with_debug c =
     \<lparr>codec_context = debug_on (BcContext_new c), pending_session_aes = None\<rparr>"

section \<open>Serialiser\<close>

definition bc_ext_bytes ::
  "('x, 'z) bc_lib_scheme \<Rightarrow> u32 \<Rightarrow> bytes \<Rightarrow> EncryptionProtocol \<Rightarrow> bytes" where
  "bc_ext_bytes L enc_offset xml_bytes prot = encrypt L prot enc_offset xml_bytes"

definition bc_payload_bytes ::
  "('x, 'z) bc_lib_scheme \<Rightarrow> u32 \<Rightarrow> bytes \<Rightarrow> bool \<Rightarrow> EncryptionProtocol \<Rightarrow> bytes" where
  "bc_payload_bytes L enc_offset payload_bytes is_xml prot =
     (if is_xml then encrypt L prot enc_offset payload_bytes else payload_bytes)"

text \<open>\<open>opt\<close> and \<open>opt_ref\<close>: apply the serialiser when there is a value, else write nothing.\<close>

definition ser_opt :: "'a option \<Rightarrow> ('a \<Rightarrow> bytes) \<Rightarrow> bytes" where
  "ser_opt v f = (case v of None \<Rightarrow> [] | Some x \<Rightarrow> f x)"

definition ser_bc_header :: "('x, 'z) bc_lib_scheme \<Rightarrow> BcHeader \<Rightarrow> bytes" where
  "ser_bc_header L h =
     wr_u32 L MAGIC_HEADER @ wr_u32 L (h_msg_id h) @ wr_u32 L (h_body_len h) @
     wr_u8 L (h_channel_id h) @ wr_u8 L (h_stream_type h) @ wr_u16 L (h_msg_num h) @
     wr_u16 L (h_response_code h) @ wr_u16 L (h_class h) @
     ser_opt (h_payload_offset h) (wr_u32 L)"

fun bc_legacy :: "LegacyMsg \<Rightarrow> bc_error + bytes" where
  "bc_legacy (LoginMsg user pass) =
     (if length user \<noteq> 32 \<or> length pass \<noteq> 32 then Err (GenError 0)
      else Ok (string_bytes user @ string_bytes pass @ replicate 1772 0))"
| "bc_legacy LoginUpgrade = Ok []"
| "bc_legacy UnknownMsg = Err (GenError 1)"

definition ext_xml_bytes ::
  "('x, 'z) bc_lib_scheme \<Rightarrow> Extension option \<Rightarrow> bc_error + bytes option" where
  "ext_xml_bytes L e = (case e of
     None \<Rightarrow> Ok None
   | Some ext \<Rightarrow> (case ext_se L ext of None \<Rightarrow> Err (GenError 2) | Some b \<Rightarrow> Ok (Some b)))"

definition payload_xml_bytes ::
  "('x, 'z) bc_lib_scheme \<Rightarrow> 'x BcPayloads option \<Rightarrow> bc_error + bytes option" where
  "payload_xml_bytes L p = (case p of
     None \<Rightarrow> Ok None
   | Some (PBcXml x) \<Rightarrow>
       (case BcXml_serialize L x of None \<Rightarrow> Err (GenError 3) | Some b \<Rightarrow> Ok (Some b))
   | Some (PBinary b) \<Rightarrow> Ok (Some b))"

definition payload_is_xml :: "'x BcPayloads option \<Rightarrow> bool" where
  "payload_is_xml p = (case p of Some (PBcXml _) \<Rightarrow> True | _ \<Rightarrow> False)"

text \<open>The body of \<open>Bc::serialize\<close>: the body bytes and the payload offset of the header.\<close>

definition ser_bc_body ::
  "('x, 'z) bc_lib_scheme \<Rightarrow> EncryptionProtocol \<Rightarrow> 'x Bc \<Rightarrow> bc_error + (bytes \<times> u32 option)" where
  "ser_bc_body L prot bc = (case body bc of
     BModern modern \<Rightarrow>
       (case ext_xml_bytes L (extension modern) of
          Inl e \<Rightarrow> Err e
        | Inr ext_bytes \<Rightarrow>
            (case payload_xml_bytes L (payload modern) of
               Inl e \<Rightarrow> Err e
             | Inr payload_bytes \<Rightarrow>
                 (let offset = ucast (channel_id (meta bc));
                      ext_buf = ser_opt ext_bytes (\<lambda>b. bc_ext_bytes L offset b prot);
                      payload_offset =
                        (if has_payload_offset (msg_class (meta bc))
                         then Some (if extension modern \<noteq> None then of_nat (length ext_buf) else 0)
                         else None);
                      payload_buf = ser_opt payload_bytes
                        (\<lambda>b. bc_payload_bytes L offset b (payload_is_xml (payload modern)) prot)
                  in Ok (ext_buf @ payload_buf, payload_offset))))
   | BLegacy legacy \<Rightarrow>
       (case bc_legacy legacy of Inl e \<Rightarrow> Err e | Inr buf \<Rightarrow> Ok (buf, None)))"

definition bc_serialize ::
  "('x, 'z) bc_lib_scheme \<Rightarrow> EncryptionProtocol \<Rightarrow> 'x Bc \<Rightarrow> bc_error + bytes" where
  "bc_serialize L prot bc = (case ser_bc_body L prot bc of
     Inl e \<Rightarrow> Err e
   | Inr (body_buf, payload_offset) \<Rightarrow>
       (let header = from_meta (meta bc) (of_nat (length body_buf)) payload_offset
        in Ok (ser_bc_header L header @ body_buf)))"

section \<open>Parser\<close>

definition MAX_BC_BODY_LEN :: u32 where "MAX_BC_BODY_LEN = 8 * 1024 * 1024"

definition bc_header :: "('x, 'z) bc_lib_scheme \<Rightarrow> BcHeader parser" where
  "bc_header L =
     pbind (verify (rd_u32 L) (\<lambda>x. x = MAGIC_HEADER \<or> x = MAGIC_HEADER_REV)) (\<lambda>magic.
     pbind (rd_u32 L) (\<lambda>mid.
     pbind (verify (rd_u32 L) (\<lambda>n. n \<le> MAX_BC_BODY_LEN)) (\<lambda>blen.
     pbind (rd_u8 L) (\<lambda>chan.
     pbind (rd_u8 L) (\<lambda>stype.
     pbind (rd_u16 L) (\<lambda>mnum.
     pbind (rd_u16 L) (\<lambda>rcode.
     pbind (rd_u16 L) (\<lambda>cls.
     pbind (cond_p (has_payload_offset cls) (rd_u32 L)) (\<lambda>off.
     pret \<lparr>h_body_len = blen, h_msg_id = mid, h_channel_id = chan, h_stream_type = stype,
           h_msg_num = mnum, h_response_code = rcode, h_class = cls,
           h_payload_offset = off\<rparr>)))))))))"

definition hex32 :: "('x, 'z) bc_lib_scheme \<Rightarrow> string parser" where
  "hex32 L = map_res (rd_take L 32) from_utf8"

definition bc_legacy_login_msg :: "('x, 'z) bc_lib_scheme \<Rightarrow> LegacyMsg parser" where
  "bc_legacy_login_msg L =
     pbind (hex32 L) (\<lambda>user. pbind (hex32 L) (\<lambda>pass. pret (LoginMsg user pass)))"

text \<open>Which protocol decrypts the payload (\<open>de.rs\<close>, the match on \<open>header\<close>).\<close>

definition payload_protocol :: "EncryptionProtocol \<Rightarrow> BcMeta \<Rightarrow> EncryptionProtocol" where
  "payload_protocol enc m =
     (if msg_id m = 1 then
        if drop_bit 8 (response_code m) AND 0xff = 0xdd then
          (if response_code m AND 0xff = 0x00 then Unencrypted else BCEncrypt)
        else if is_aes enc then BCEncrypt else enc
      else enc)"

fun binary_payload :: "EncryptionProtocol \<Rightarrow> u32 option \<Rightarrow> bytes \<Rightarrow> bytes \<Rightarrow> bytes" where
  "binary_payload (FullAes _ _) (Some encrypted_len) processed raw =
     take (min (unat encrypted_len) (length processed)) processed"
| "binary_payload _ _ processed raw = raw"

definition ext_binary :: "Extension option \<Rightarrow> bool \<times> u32 option" where
  "ext_binary e = (case e of
     None \<Rightarrow> (False, None)
   | Some ext \<Rightarrow> if binary_data ext = Some 1 then (True, encrypt_len ext) else (False, None))"

definition bc_modern_payload ::
  "('x, 'z) bc_lib_scheme \<Rightarrow> BcContext \<Rightarrow> BcHeader \<Rightarrow> Extension option \<Rightarrow> bytes \<Rightarrow>
   'x BcPayloads option option" where
  "bc_modern_payload L ctx header ext payload_buf =
     (let enc = encryption_protocol ctx;
          (in_binary, encrypted_len) = ext_binary ext;
          processed = decrypt L (payload_protocol enc (to_meta header))
                        (ucast (h_channel_id header)) payload_buf
      in if payload_buf = [] then Some None
         else if h_msg_num header \<in> in_bin_mode ctx \<or> in_binary
         then Some (Some (PBinary (binary_payload enc encrypted_len processed payload_buf)))
         else map_option (\<lambda>xml. Some (PBcXml xml)) (qx_read L processed))"

definition bc_modern_msg ::
  "('x, 'z) bc_lib_scheme \<Rightarrow> BcContext \<Rightarrow> BcHeader \<Rightarrow> 'x ModernMsg parser" where
  "bc_modern_msg L ctx header =
     (let ext_len = (case h_payload_offset header of None \<Rightarrow> 0 | Some n \<Rightarrow> n)
      in if ext_len > h_body_len header then pfail NFailure
         else
           pbind (rd_take L (unat ext_len)) (\<lambda>ext_buf.
           pbind (rd_take L (unat (h_body_len header - ext_len))) (\<lambda>payload_buf.
           let processed_ext_buf =
                 decrypt L (encryption_protocol ctx) (ucast (h_channel_id header)) ext_buf
           in case (if ext_len > 0 then map_option Some (ext_de L processed_ext_buf)
                    else Some None) of
                None \<Rightarrow> pfail NError
              | Some ext \<Rightarrow>
                  (case bc_modern_payload L ctx header ext payload_buf of
                     None \<Rightarrow> pfail NError
                   | Some p \<Rightarrow> pret \<lparr>extension = ext, payload = p\<rparr>))))"

definition bc_body ::
  "('x, 'z) bc_lib_scheme \<Rightarrow> BcContext \<Rightarrow> BcHeader \<Rightarrow> 'x BcBody parser" where
  "bc_body L ctx header =
     (if is_modern header
      then pbind (bc_modern_msg L ctx header) (\<lambda>b. pret (BModern b))
      else pbind (if h_msg_id header = MSG_ID_LOGIN then bc_legacy_login_msg L
                  else pret UnknownMsg) (\<lambda>b. pret (BLegacy b)))"

definition bc_msg :: "('x, 'z) bc_lib_scheme \<Rightarrow> BcContext \<Rightarrow> 'x Bc parser" where
  "bc_msg L ctx =
     pbind (bc_header L) (\<lambda>header.
     pbind (bc_body L ctx header) (\<lambda>b. pret \<lparr>meta = to_meta header, body = b\<rparr>))"

definition bc_deserialize ::
  "('x, 'z) bc_lib_scheme \<Rightarrow> BcContext \<Rightarrow> bytes \<Rightarrow> (bc_error + 'x Bc) \<times> bytes" where
  "bc_deserialize L ctx buf = deserialize_with (bc_msg L ctx) buf"

section \<open>Encoder and decoder\<close>

text \<open>\<open>Some s\<close>: the message is a signed (sigV3) login whose \<open>session_aes\<close> is \<open>s\<close>.\<close>

definition signed_login_aes :: "'x Bc \<Rightarrow> (bytes \<times> bytes) option option" where
  "signed_login_aes item = (case body item of
     BModern m \<Rightarrow> (case payload m of
       Some (PBcXml xml) \<Rightarrow> (case login_user xml of
         Some lu \<Rightarrow> if public_key lu \<noteq> None then Some (session_aes lu) else None
       | None \<Rightarrow> None)
     | _ \<Rightarrow> None)
   | _ \<Rightarrow> None)"

definition encode_arm :: "'x Bc \<Rightarrow> BcCodex \<Rightarrow> BcCodex" where
  "encode_arm item c = (case signed_login_aes item of
     None \<Rightarrow> c
   | Some s \<Rightarrow> c\<lparr>codec_context := set_encrypted BCEncrypt (codec_context c),
                pending_session_aes := map_option (\<lambda>(k, iv). (msg_num (meta item), k, iv)) s\<rparr>)"

definition encode_protocol :: "EncryptionProtocol \<Rightarrow> BcMeta \<Rightarrow> EncryptionProtocol" where
  "encode_protocol enc m = (if is_aes enc \<and> msg_id m = 1 then BCEncrypt else enc)"

definition BcCodex_encode ::
  "('x, 'z) bc_lib_scheme \<Rightarrow> BcCodex \<Rightarrow> 'x Bc \<Rightarrow> bytes \<Rightarrow> (bc_error + unit) \<times> BcCodex \<times> bytes" where
  "BcCodex_encode L c item dst =
     (let c' = encode_arm item c;
          prot = encode_protocol (encryption_protocol (codec_context c')) (meta item)
      in case bc_serialize L prot item of
           Inl e \<Rightarrow> (Err e, c', dst)
         | Inr buf \<Rightarrow> (Ok (), c', dst @ buf))"

definition apply_pending :: "'x Bc \<Rightarrow> BcCodex \<Rightarrow> BcCodex" where
  "apply_pending bc c = (case pending_session_aes c of
     None \<Rightarrow> c
   | Some (n, key, iv) \<Rightarrow>
       if msg_id (meta bc) = 1 \<and> msg_num (meta bc) = n
       then (if response_code (meta bc) = 200
             then c\<lparr>codec_context := set_encrypted (full_aes_with_iv key iv) (codec_context c)\<rparr>
             else c)\<lparr>pending_session_aes := None\<rparr>
       else c)"

definition login_nonce :: "'x Bc \<Rightarrow> string option" where
  "login_nonce bc =
     (if msg_id (meta bc) = 1 then
        (case body bc of
           BModern m \<Rightarrow> (case payload m of
             Some (PBcXml xml) \<Rightarrow>
               (case encryption xml of Some e \<Rightarrow> Some (nonce e) | None \<Rightarrow> None)
           | _ \<Rightarrow> None)
         | _ \<Rightarrow> None)
      else None)"

definition negotiate ::
  "('x, 'z) bc_lib_scheme \<Rightarrow> 'x Bc \<Rightarrow> BcCodex \<Rightarrow> (bc_error + unit) \<times> BcCodex" where
  "negotiate L bc c = (case login_nonce bc of
     None \<Rightarrow> (Ok (), c)
   | Some nonc \<Rightarrow>
       if drop_bit 8 (response_code (meta bc)) = 0xdd then
         (let b = response_code (meta bc) AND 0xff;
              key = make_aeskey L (credentials (codec_context c)) nonc;
              enc_set = (\<lambda>p. (Ok (), c\<lparr>codec_context := set_encrypted p (codec_context c)\<rparr>))
          in if b = 0x00 then enc_set Unencrypted
             else if b = 0x01 then enc_set BCEncrypt
             else if b = 0x02 then enc_set (aes_protocol key)
             else if b = 0x12 then enc_set (full_aes key)
             else (Err (UnknownEncryption (unat b)), c))
       else (Ok (), c))"

definition track_binary :: "'x Bc \<Rightarrow> BcCodex \<Rightarrow> BcCodex" where
  "track_binary bc c = (case body bc of
     BModern m \<Rightarrow> (case extension m of
       Some e \<Rightarrow> (case binary_data e of
         Some on_off \<Rightarrow>
           (if on_off = 0 then c\<lparr>codec_context := binary_off (msg_num (meta bc)) (codec_context c)\<rparr>
            else c\<lparr>codec_context := binary_on (msg_num (meta bc)) (codec_context c)\<rparr>)
       | None \<Rightarrow> c)
     | None \<Rightarrow> c)
   | _ \<Rightarrow> c)"

definition decode_update ::
  "('x, 'z) bc_lib_scheme \<Rightarrow> BcCodex \<Rightarrow> 'x Bc \<Rightarrow> (bc_error + 'x Bc option) \<times> BcCodex" where
  "decode_update L c bc =
     (case negotiate L bc (apply_pending bc c) of
        (Inl e, c') \<Rightarrow> (Err e, c')
      | (Inr _, c') \<Rightarrow> (Ok (Some bc), track_binary bc c'))"

definition BcCodex_decode ::
  "('x, 'z) bc_lib_scheme \<Rightarrow> BcCodex \<Rightarrow> bytes \<Rightarrow>
   (bc_error + 'x Bc option) \<times> BcCodex \<times> bytes" where
  "BcCodex_decode L c src =
     (case bc_deserialize L (codec_context c) src of
        (Inr bc, src') \<Rightarrow> (let (r, c') = decode_update L c bc in (r, c', src'))
      | (Inl (NomIncomplete _), src') \<Rightarrow> (Ok None, c, src')
      | (Inl e, src') \<Rightarrow> (Err e, c, src'))"

definition BcCodex_decode_eof ::
  "('x, 'z) bc_lib_scheme \<Rightarrow> BcCodex \<Rightarrow> bytes \<Rightarrow>
   (bc_error + 'x Bc option) \<times> BcCodex \<times> bytes" where
  "BcCodex_decode_eof L c buf =
     (case BcCodex_decode L c buf of
        (Inl e, c', buf') \<Rightarrow> (Err e, c', buf')
      | (Inr (Some frame), c', buf') \<Rightarrow> (Ok (Some frame), c', buf')
      | (Inr None, c', buf') \<Rightarrow> (Ok None, c', buf'))"

section \<open>Correctness\<close>

text \<open>
  The modern messages that survive the wire under session encryption \<open>enc\<close> and binary-mode set
  \<open>bin\<close>: an extension needs a header class with a payload offset, the payload kind must agree with
  what the peer expects for this message number, and both ends must pick the same cipher.
\<close>

definition wf_payload ::
  "('x, 'z) bc_lib_scheme \<Rightarrow> EncryptionProtocol \<Rightarrow> u16 set \<Rightarrow> BcMeta \<Rightarrow> 'x ModernMsg \<Rightarrow> bool" where
  "wf_payload L enc bin mt m = (case payload m of
     None \<Rightarrow> True
   | Some (PBcXml x) \<Rightarrow>
       BcXml_serialize L x \<noteq> None \<and> msg_num mt \<notin> bin \<and> \<not> fst (ext_binary (extension m)) \<and>
       payload_protocol enc mt = encode_protocol enc mt
   | Some (PBinary b) \<Rightarrow>
       b \<noteq> [] \<and> (msg_num mt \<in> bin \<or> fst (ext_binary (extension m))) \<and>
       (\<forall>k iv. enc = FullAes k iv \<longrightarrow> snd (ext_binary (extension m)) = None))"

definition wf_ext ::
  "('x, 'z) bc_lib_scheme \<Rightarrow> EncryptionProtocol \<Rightarrow> BcMeta \<Rightarrow> Extension option \<Rightarrow> bool" where
  "wf_ext L enc mt e = (case e of
     None \<Rightarrow> True
   | Some ext \<Rightarrow> ext_se L ext \<noteq> None \<and> has_payload_offset (msg_class mt) \<and>
       encode_protocol enc mt = enc)"

definition wf_modern ::
  "('x, 'z) bc_lib_scheme \<Rightarrow> EncryptionProtocol \<Rightarrow> u16 set \<Rightarrow> 'x Bc \<Rightarrow> bool" where
  "wf_modern L enc bin bc = (case body bc of
     BLegacy _ \<Rightarrow> False
   | BModern m \<Rightarrow> msg_class (meta bc) \<noteq> 0x6514 \<and> wf_ext L enc (meta bc) (extension m) \<and>
       wf_payload L enc bin (meta bc) m \<and>
       (case ser_bc_body L (encode_protocol enc (meta bc)) bc of
          Inl _ \<Rightarrow> False | Inr (b, _) \<Rightarrow> length b \<le> 8 * 1024 * 1024))"

definition as_received :: "'x Bc \<Rightarrow> 'x Bc" where
  "as_received bc = bc\<lparr>body := (case body bc of
     BModern m \<Rightarrow> BModern (m\<lparr>payload := (case payload m of
         Some (PBcXml x) \<Rightarrow> Some (PBcXml (on_wire x)) | p \<Rightarrow> p)\<rparr>)
   | b \<Rightarrow> b)\<rparr>"

lemma body_cap_of_nat: "n \<le> 8 * 1024 * 1024 \<Longrightarrow> (of_nat n :: u32) \<le> MAX_BC_BODY_LEN"
  by (simp add: MAX_BC_BODY_LEN_def word_le_nat_alt)

lemma body_cap_unat: "n \<le> MAX_BC_BODY_LEN \<Longrightarrow> unat n \<le> 8388608"
  by (simp add: MAX_BC_BODY_LEN_def word_le_nat_alt)

lemma of_nat_sub_u32:
  "a \<le> n \<Longrightarrow> n < 4294967296 \<Longrightarrow> unat ((of_nat n :: u32) - of_nat a) = n - a"
  by (simp add: unat_sub word_le_nat_alt)

context bc_codec_lib
begin

lemma bc_header_roundtrip:
  assumes "h_body_len h \<le> MAX_BC_BODY_LEN"
    and "h_payload_offset h \<noteq> None \<longleftrightarrow> has_payload_offset (h_class h)"
  shows "bc_header L (ser_bc_header L h @ rest) = Ok (rest, h)"
  using assms
  by (cases "h_payload_offset h")
    (simp_all add: bc_header_def ser_bc_header_def ser_opt_def cond_p_def pbind_def)

lemma incremental_bc_msg: "incremental (bc_msg L ctx)"
  unfolding bc_msg_def bc_header_def bc_body_def bc_modern_msg_def bc_legacy_login_msg_def
    hex32_def Let_def
  by (intro stream_intros reader_intros)

lemma ext_parse:
  assumes "wf_ext L enc mt e" and "ext_xml_bytes L e = Ok eb"
    and "ext_buf = ser_opt eb (\<lambda>b. bc_ext_bytes L off b (encode_protocol enc mt))"
  shows "(if ext_buf \<noteq> [] then map_option Some (ext_de L (decrypt L enc off ext_buf))
          else Some None) = Some e"
    and "e = None \<longleftrightarrow> ext_buf = []"
  using assms ext_roundtrip
  by (auto simp: wf_ext_def ext_xml_bytes_def ser_opt_def bc_ext_bytes_def split: option.splits)

lemma payload_parse:
  assumes "wf_payload L (encryption_protocol ctx) (in_bin_mode ctx) (to_meta h) m"
    and "payload_xml_bytes L (payload m) = Ok pb"
    and "payload_buf = ser_opt pb (\<lambda>b. bc_payload_bytes L (ucast (h_channel_id h)) b
           (payload_is_xml (payload m)) (encode_protocol (encryption_protocol ctx) (to_meta h)))"
  shows "bc_modern_payload L ctx h (extension m) payload_buf =
     Some (case payload m of Some (PBcXml x) \<Rightarrow> Some (PBcXml (on_wire x)) | p \<Rightarrow> p)"
proof (cases "payload m")
  case None
  with assms show ?thesis
    by (simp add: bc_modern_payload_def payload_xml_bytes_def ser_opt_def Let_def case_prod_beta)
next
  case (Some p)
  show ?thesis
  proof (cases p)
    case (PBcXml x)
    with Some assms BcXml_roundtrip [of x] show ?thesis
      by (auto simp: bc_modern_payload_def payload_xml_bytes_def ser_opt_def Let_def
          case_prod_beta wf_payload_def bc_payload_bytes_def payload_is_xml_def to_meta_def
          split: option.splits)
  next
    case (PBinary b)
    have "binary_payload e None q b = b" for e q by (cases e) auto
    moreover have "(\<forall>k iv. e \<noteq> FullAes k iv) \<Longrightarrow> binary_payload e n q b = b" for e n q
      by (cases e) auto
    ultimately show ?thesis
      using Some PBinary assms
      by (auto simp: bc_modern_payload_def payload_xml_bytes_def ser_opt_def Let_def
          case_prod_beta wf_payload_def bc_payload_bytes_def payload_is_xml_def to_meta_def)
  qed
qed

lemma modern_parse:
  assumes wf: "wf_modern L (encryption_protocol ctx) (in_bin_mode ctx) bc"
    and body: "body bc = BModern m"
    and ser: "ser_bc_body L (encode_protocol (encryption_protocol ctx) (meta bc)) bc = Ok (buf, off)"
  shows "bc_modern_msg L ctx (from_meta (meta bc) (of_nat (length buf)) off) (buf @ rest) =
     Ok (rest, m\<lparr>payload := (case payload m of Some (PBcXml x) \<Rightarrow> Some (PBcXml (on_wire x)) | p \<Rightarrow> p)\<rparr>)"
    and "off \<noteq> None \<longleftrightarrow> has_payload_offset (msg_class (meta bc))"
proof -
  let ?enc = "encryption_protocol ctx" and ?off = "ucast (channel_id (meta bc)) :: u32"
  let ?prot = "encode_protocol ?enc (meta bc)" and ?h = "from_meta (meta bc) (of_nat (length buf)) off"
  have wfe: "wf_ext L ?enc (meta bc) (extension m)"
    and wfp: "wf_payload L ?enc (in_bin_mode ctx) (meta bc) m" and len: "length buf \<le> 8388608"
    using wf ser by (auto simp: wf_modern_def body)
  obtain eb pb where eb: "ext_xml_bytes L (extension m) = Ok eb"
    and pb: "payload_xml_bytes L (payload m) = Ok pb"
    using ser by (auto simp: ser_bc_body_def body split: sum.splits)
  define e_buf where "e_buf = ser_opt eb (\<lambda>b. bc_ext_bytes L ?off b ?prot)"
  define p_buf where "p_buf = ser_opt pb (\<lambda>b. bc_payload_bytes L ?off b (payload_is_xml (payload m)) ?prot)"
  have buf: "buf = e_buf @ p_buf" and off: "off = (if has_payload_offset (msg_class (meta bc))
      then Some (if extension m \<noteq> None then of_nat (length e_buf) else 0) else None)"
    using ser by (auto simp: ser_bc_body_def body eb pb e_buf_def p_buf_def Let_def)
  note ext = ext_parse [OF wfe eb e_buf_def]
  note pay = payload_parse [where h = ?h, unfolded from_meta_sel to_from_meta, OF wfp pb p_buf_def]
  have el: "(case off of None \<Rightarrow> 0 | Some n \<Rightarrow> n) = of_nat (length e_buf)"
    using ext(2) wfe by (auto simp: off wf_ext_def split: option.splits)
  have small: "length e_buf < 4294967296" "length buf < 4294967296" "length e_buf \<le> length buf"
    using len by (simp_all add: buf)
  have nz: "0 < (of_nat (length e_buf) :: u32) \<longleftrightarrow> e_buf \<noteq> []"
    using small(1) by (simp add: word_gt_0 of_nat_u32_eq_0)
  have "\<not> (of_nat (length buf) :: u32) < of_nat (length e_buf)"
    using small by (simp add: word_less_nat_alt)
  then show "bc_modern_msg L ctx ?h (buf @ rest) = Ok (rest, m\<lparr>payload :=
      (case payload m of Some (PBcXml x) \<Rightarrow> Some (PBcXml (on_wire x)) | p \<Rightarrow> p)\<rparr>)"
    using ext(1) pay small
    by (simp add: bc_modern_msg_def Let_def el nz of_nat_sub_u32 buf [symmetric])
       (simp add: buf pbind_def)
  show "off \<noteq> None \<longleftrightarrow> has_payload_offset (msg_class (meta bc))"
    by (simp add: off)
qed

lemma bc_parse_serialize:
  assumes wf: "wf_modern L (encryption_protocol ctx) (in_bin_mode ctx) bc"
  shows "\<exists>bs. bc_serialize L (encode_protocol (encryption_protocol ctx) (meta bc)) bc = Ok bs \<and>
              bs \<noteq> [] \<and> bc_msg L ctx (bs @ rest) = Ok (rest, as_received bc)"
proof -
  obtain m where m: "body bc = BModern m"
    using wf by (auto simp: wf_modern_def split: BcBody.splits)
  obtain buf off where ser: "ser_bc_body L (encode_protocol (encryption_protocol ctx) (meta bc)) bc = Ok (buf, off)"
    and len: "length buf \<le> 8 * 1024 * 1024" and cls: "msg_class (meta bc) \<noteq> 0x6514"
    using wf by (auto simp: wf_modern_def m split: sum.splits)
  let ?h = "from_meta (meta bc) (of_nat (length buf)) off"
  note body = modern_parse [OF wf m ser]
  have "bc_header L (ser_bc_header L ?h @ buf @ rest) = Ok (buf @ rest, ?h)"
    using body(2) body_cap_of_nat [OF len] by (intro bc_header_roundtrip) simp_all
  then have "bc_msg L ctx (ser_bc_header L ?h @ buf @ rest) = Ok (rest, as_received bc)"
    using body(1) cls by (simp add: bc_msg_def bc_body_def is_modern_def as_received_def m)
  moreover have "ser_bc_header L ?h \<noteq> []"
    by (simp add: ser_bc_header_def writers to_le32_def)
  ultimately show ?thesis
    by (auto simp: bc_serialize_def ser)
qed

lemma need_bc_msg: "need 8388608 (bc_msg L ctx)"
proof -
  have r: "need 8388608 (rd_u8 L)" "need 8388608 (rd_u16 L)" "need 8388608 (rd_u32 L)"
    by (rule need_mono [OF need_readers(1)] need_mono [OF need_readers(2)]
        need_mono [OF need_readers(3)], simp)+
  have t: "k \<le> 8388608 \<Longrightarrow> need 8388608 (rd_take L k)" for k
    by (rule need_mono [OF need_readers(4)])
  have body: "need 8388608 (bc_body L ctx h)" if "h_body_len h \<le> MAX_BC_BODY_LEN" for h
  proof -
    have le: "unat x \<le> 8388608" if "\<not> h_body_len h < x" for x
      using that \<open>h_body_len h \<le> MAX_BC_BODY_LEN\<close> body_cap_unat by (meson not_less order_trans)
    have "unat (h_body_len h - x) \<le> 8388608" if "\<not> h_body_len h < x" for x
      using that \<open>h_body_len h \<le> MAX_BC_BODY_LEN\<close> body_cap_unat [of "h_body_len h"]
      by (simp add: unat_sub not_less)
    with le show ?thesis
      unfolding bc_body_def bc_modern_msg_def bc_legacy_login_msg_def hex32_def map_res_def Let_def
      by (intro need_intros t; simp)
  qed
  have hdr: "bc_header L buf = Ok (r, h) \<Longrightarrow> h_body_len h \<le> MAX_BC_BODY_LEN" for buf r h
    by (auto simp: bc_header_def reader_iffs)
  have nh: "need 8388608 (bc_header L)"
    unfolding bc_header_def cond_p_def by (intro need_intros r)
  show ?thesis
    unfolding need_def bc_msg_def
    using nh body hdr by (fastforce simp: need_def pbind_def split: sum.splits)
qed

lemma hex32_string:
  "length s = 32 \<Longrightarrow> utf8_valid (string_bytes s) \<Longrightarrow>
   hex32 L (string_bytes s @ rest) = Ok (rest, s)"
  by (simp add: hex32_def map_res_def from_utf8_def)

lemma legacy_login_parse:
  assumes "length u = 32" "length p = 32" "utf8_valid (string_bytes u)" "utf8_valid (string_bytes p)"
    and "msg_id m = 1" "msg_class m = 0x6514" "n \<le> MAX_BC_BODY_LEN"
  shows "bc_msg L ctx (ser_bc_header L (from_meta m n None) @ string_bytes u @ string_bytes p @ rest) =
    Ok (rest, \<lparr>meta = m, body = BLegacy (LoginMsg u p)\<rparr>)"
  using assms
  by (simp add: bc_msg_def bc_header_roundtrip has_payload_offset_def bc_body_def is_modern_def
      MSG_ID_LOGIN_def bc_legacy_login_msg_def hex32_string)

lemma zeros_rejected: "4 \<le> n \<Longrightarrow> bc_msg L ctx (replicate n 0 @ rest) = Err NError"
proof -
  assume "4 \<le> n"
  then have "\<exists>k. n = Suc (Suc (Suc (Suc k)))" by presburger
  then obtain k where "n = Suc (Suc (Suc (Suc k)))" ..
  then have "replicate n 0 = wr_u32 L 0 @ replicate k 0"
    by (simp add: writers to_le32_def)
  then show ?thesis
    by (simp add: bc_msg_def bc_header_def MAGIC_HEADER_def MAGIC_HEADER_REV_def)
qed

end

section \<open>A concrete instance of the parameters\<close>

text \<open>
  A XOR stream in place of AES, a padded copy in place of MD5, and tagged encodings of the
  messages the handshake exchanges: the nonce reply, the signed login and an empty document.
\<close>

definition std_aes :: "bytes \<Rightarrow> bytes \<Rightarrow> bytes \<Rightarrow> bytes" where
  "std_aes key iv b = map (\<lambda>x. x XOR (if key = [] then 1 else hd key)) b"

definition std_md5_hex :: "string \<Rightarrow> string" where
  "std_md5_hex s = take 32 (s @ replicate 32 CHR ''0'')"

definition std_ext_se :: "Extension \<Rightarrow> bytes option" where
  "std_ext_se e = (case (binary_data e, encrypt_len e) of
     (Some b, Some n) \<Rightarrow>
       if e = Extension_default\<lparr>binary_data := Some b, encrypt_len := Some n\<rparr>
       then Some (1 # to_le32 b @ to_le32 n) else None
   | (Some b, None) \<Rightarrow>
       if e = Extension_default\<lparr>binary_data := Some b\<rparr> then Some (2 # to_le32 b) else None
   | (None, None) \<Rightarrow> if e = Extension_default then Some [3] else None
   | _ \<Rightarrow> None)"

definition std_ext_de :: "bytes \<Rightarrow> Extension option" where
  "std_ext_de b = (if b = [] then None
     else if hd b = 1 then Some (Extension_default\<lparr>binary_data := Some (from_le (take 4 (tl b))),
                                 encrypt_len := Some (from_le (drop 4 (tl b)))\<rparr>)
     else if hd b = 2 then Some (Extension_default\<lparr>binary_data := Some (from_le (tl b))\<rparr>)
     else if hd b = 3 then Some Extension_default else None)"

definition std_nonce_xml :: "string \<Rightarrow> BcXml" where
  "std_nonce_xml n = \<lparr>encryption = Some \<lparr>enc_version = ''1.1'', enc_type = ''md5'', nonce = n,
     auth_type_list = None, sig_ver = None, ecdhe = None\<rparr>, login_user = None\<rparr>"

definition std_login_xml :: "string \<Rightarrow> (bytes \<times> bytes) option \<Rightarrow> BcXml" where
  "std_login_xml pk s = \<lparr>encryption = None, login_user = Some \<lparr>lu_version = ''1.1'',
     lu_auth_type = None, lu_user_name = ''admin'', lu_password = '''', lu_user_ver = 1,
     lu_client_type = None, public_key = Some pk, token_key = None, cipher_content = None,
     cert_chain = None, auth_info = None, session_aes = s\<rparr>\<rparr>"

definition std_empty_xml :: BcXml where
  "std_empty_xml = \<lparr>encryption = None, login_user = None\<rparr>"

definition std_qx_bytes :: "BcXml \<Rightarrow> bytes" where
  "std_qx_bytes x = (case (encryption x, login_user x) of
     (Some e, None) \<Rightarrow> if x = std_nonce_xml (nonce e) then 1 # string_bytes (nonce e) else []
   | (None, Some u) \<Rightarrow>
       (case public_key u of
          Some pk \<Rightarrow> if x = std_login_xml pk (session_aes u) then 2 # string_bytes pk else []
        | None \<Rightarrow> [])
   | (None, None) \<Rightarrow> [3]
   | _ \<Rightarrow> [])"

definition std_qx_write :: "BcXml \<Rightarrow> bytes option" where
  "std_qx_write x =
     (if std_qx_bytes x = [] \<or> find_sub (string_bytes ''<certChain>'') (std_qx_bytes x) \<noteq> None
      then None else Some (std_qx_bytes x))"

definition std_qx_read :: "bytes \<Rightarrow> BcXml option" where
  "std_qx_read b = (if b = [] then None
     else if hd b = 1 then Some (std_nonce_xml (bytes_string (tl b)))
     else if hd b = 2 then Some (std_login_xml (bytes_string (tl b)) None)
     else if hd b = 3 then Some std_empty_xml else None)"

definition std_bc :: "unit bc_lib" where
  "std_bc = wire.extend std_wire
     \<lparr>aes_enc = std_aes, aes_dec = std_aes, md5_hex = std_md5_hex, ext_de = std_ext_de,
      ext_se = std_ext_se, qx_read = std_qx_read, qx_write = std_qx_write\<rparr>"

lemma std_bc_sel [simp]:
  "rd_u8 std_bc = rd_u8 std_wire" "rd_u16 std_bc = rd_u16 std_wire"
  "rd_u32 std_bc = rd_u32 std_wire" "rd_take std_bc = rd_take std_wire"
  "wr_u8 std_bc = wr_u8 std_wire" "wr_u16 std_bc = wr_u16 std_wire"
  "wr_u32 std_bc = wr_u32 std_wire" "aes_enc std_bc = std_aes" "aes_dec std_bc = std_aes"
  "md5_hex std_bc = std_md5_hex" "ext_de std_bc = std_ext_de" "ext_se std_bc = std_ext_se"
  "qx_read std_bc = std_qx_read" "qx_write std_bc = std_qx_write"
  by (simp_all add: std_bc_def wire.defs bc_lib.defs)

lemma std_qx_law:
  assumes "std_qx_write x = Some b"
  shows "b \<noteq> []" "encode_certchain_newlines b = b" "std_qx_read b = Some (on_wire x)"
proof -
  have b: "b = std_qx_bytes x" "b \<noteq> []" "find_sub (string_bytes ''<certChain>'') b = None"
    using assms by (auto simp: std_qx_write_def split: if_splits)
  then show "b \<noteq> []" "encode_certchain_newlines b = b"
    by (simp_all add: encode_certchain_newlines_def Let_def)
  show "std_qx_read b = Some (on_wire x)"
  proof (cases "encryption x")
    case enc: None
    show ?thesis
    proof (cases "login_user x")
      case None
      with enc b(1) show ?thesis
        by (simp add: std_qx_bytes_def std_qx_read_def on_wire_def std_empty_xml_def)
    next
      case (Some u)
      then obtain pk where pk: "public_key u = Some pk"
        using enc b(1,2) by (cases "public_key u") (simp_all add: std_qx_bytes_def)
      then have x: "x = std_login_xml pk (session_aes u)"
        using enc Some b(1,2) by (simp add: std_qx_bytes_def split: if_splits)
      have "b = 2 # string_bytes pk"
        using enc Some pk x by (simp add: std_qx_bytes_def b(1))
      then show ?thesis
        unfolding x by (simp add: std_qx_read_def on_wire_def) (simp add: std_login_xml_def)
    qed
  next
    case (Some e)
    then have lu: "login_user x = None"
      using b(1,2) by (cases "login_user x") (simp_all add: std_qx_bytes_def)
    then have x: "x = std_nonce_xml (nonce e)"
      using Some b(1,2) by (simp add: std_qx_bytes_def split: if_splits)
    have "b = 1 # string_bytes (nonce e)"
      using Some lu x by (simp add: std_qx_bytes_def b(1))
    then show ?thesis
      unfolding x by (simp add: std_qx_read_def on_wire_def) (simp add: std_nonce_xml_def)
  qed
qed

interpretation std_bc: bc_codec_lib std_bc
proof unfold_locales
  show "aes_dec std_bc k iv (aes_enc std_bc k iv b) = b" for k iv b
    by (simp add: std_aes_def comp_def xor.assoc)
  show "ext_se std_bc e = Some b \<Longrightarrow> b \<noteq> [] \<and> ext_de std_bc b = Some e" for e b
    by (auto simp: std_ext_se_def std_ext_de_def split: option.splits if_splits)
qed (simp_all add: std.read_u8 std.read_u16 std.read_u32 std.read_take std.writers std_aes_def
    std_md5_hex_def std_qx_law)

section \<open>Properties\<close>

lemma bc_decode_complete:
  assumes "bc_msg L (codec_context d) src = Ok (rest, bc)" and "bc_codec_lib L"
  shows "BcCodex_decode L d src = (fst (decode_update L d bc), snd (decode_update L d bc), rest)"
  using deserialize_with_ok [OF bc_codec_lib.incremental_bc_msg [OF assms(2)] assms(1)]
  by (simp add: BcCodex_decode_def bc_deserialize_def split: prod.split)

lemma bc_decode_incomplete:
  "bc_msg L (codec_context d) src = Err (NIncomplete n) \<Longrightarrow>
   BcCodex_decode L d src = (Ok None, d, src)"
  by (simp add: BcCodex_decode_def bc_deserialize_def deserialize_with_err)


definition std_meta :: "u32 \<Rightarrow> u16 \<Rightarrow> u16 \<Rightarrow> BcMeta" where
  "std_meta mid num code = \<lparr>msg_id = mid, channel_id = 3, stream_type = 0, response_code = code,
     msg_num = num, msg_class = 0x6414\<rparr>"

definition std_session :: "EncryptionProtocol \<Rightarrow> BcCodex" where
  "std_session p = \<lparr>codec_context = \<lparr>credentials = \<lparr>username = ''admin'', password = None\<rparr>,
     in_bin_mode = {}, encryption_protocol = p, debug = False\<rparr>, pending_session_aes = None\<rparr>"

lemmas std_bc_eval =
  std_meta_def std_session_def std_nonce_xml_def std_login_xml_def std_empty_xml_def
  std_ext_se_def std_qx_write_def std_qx_bytes_def string_bytes_def Bc_new_def
  Bc_new_from_xml_def Extension_default_def ext_xml_bytes_def payload_xml_bytes_def
  BcXml_serialize_def encode_certchain_newlines_def ser_opt_def encode_arm_def
  signed_login_aes_def encode_protocol_def payload_protocol_def ext_binary_def
  has_payload_offset_def bc_ext_bytes_def bc_payload_bytes_def payload_is_xml_def


text \<open>
  The decoder waits on a partial control message: every proper prefix of an encoded message
  gives "need more bytes", the buffer and the session are untouched.
\<close>

theorem bc_decode_waits:
  assumes "bc_codec_lib L"
    and "wf_modern L (encryption_protocol (codec_context d)) (in_bin_mode (codec_context d)) bc"
    and "bc_serialize L (encode_protocol (encryption_protocol (codec_context d)) (meta bc)) bc = Ok bs"
    and "n < length bs"
  shows "BcCodex_decode L d (take n bs) = (Ok None, d, take n bs)"
proof -
  have "bc_msg L (codec_context d) bs = Ok ([], as_received bc)"
    using bc_codec_lib.bc_parse_serialize [OF assms(1,2), of "[]"] assms(3) by auto
  then show ?thesis
    using proper_prefix_incomplete [OF bc_codec_lib.incremental_bc_msg [OF assms(1)] _ assms(4)]
      bc_decode_incomplete by blast
qed

theorem bc_decode_waits_witness:
  "BcCodex_decode std_bc (std_session BCEncrypt)
     (take 20 (ser_bc_header std_bc (from_meta (std_meta 2 5 0) 0 (Some 0)))) =
   (Ok None, std_session BCEncrypt,
    take 20 (ser_bc_header std_bc (from_meta (std_meta 2 5 0) 0 (Some 0))))"
  by (rule bc_decode_waits [OF std_bc.bc_codec_lib_axioms, where bc = "Bc_new (std_meta 2 5 0) None None"])
    (simp_all add: wf_modern_def wf_ext_def wf_payload_def ser_bc_body_def bc_serialize_def Let_def
      std_bc_eval ser_bc_header_def)

text \<open>
  The 8 MiB body cap bounds what the framer may be asked to buffer: whatever the header of a
  hostile peer declares (body length, payload offset), no more than that many bytes are requested.
\<close>

theorem bc_bounded_request:
  assumes "bc_codec_lib L" and "bc_deserialize L ctx buf = (Err (NomIncomplete n), buf')"
  shows "n \<le> 8388608 \<and> buf' = buf"
proof -
  have "bc_msg L ctx buf = Err (NIncomplete n) \<and> buf' = buf"
    using assms(2)
    by (auto simp: bc_deserialize_def deserialize_with_def split: sum.splits
        elim: error_from_nom.elims)
  then show ?thesis
    using bc_codec_lib.need_bc_msg [OF assms(1)] by (auto simp: need_def)
qed

theorem bc_bounded_request_witness:
  "bc_deserialize std_bc (BcContext_new \<lparr>username = [], password = None\<rparr>) [0xf0] =
     (Err (NomIncomplete 3), [0xf0]) \<and> (3::nat) \<le> 8388608 \<and> [0xf0] = ([0xf0] :: bytes)"
proof -
  have run: "bc_deserialize std_bc (BcContext_new \<lparr>username = [], password = None\<rparr>) [0xf0] =
     (Err (NomIncomplete 3), [0xf0])"
    by (simp add: bc_deserialize_def deserialize_with_def bc_msg_def bc_header_def verify_def
        pbind_def std_wire_def)
  with bc_bounded_request [OF std_bc.bc_codec_lib_axioms run] show ?thesis by simp
qed

lemma encode_state: "\<exists>r d. BcCodex_encode L c item dst = (r, encode_arm item c, d)"
  by (simp add: BcCodex_encode_def Let_def split: sum.split)

text \<open>
  A codec's history: the messages it encoded and the buffers it decoded, in order, with any
  outcome (an encode or decode that fails still counts).
\<close>

datatype 'x codex_event = Sent "'x Bc" | Received bytes

inductive codex_run ::
  "('x, 'z) bc_lib_scheme \<Rightarrow> Credentials \<Rightarrow> 'x codex_event list \<Rightarrow> BcCodex \<Rightarrow> bool"
  for L :: "('x, 'z) bc_lib_scheme" and cr :: Credentials where
  start: "codex_run L cr [] (BcCodex_new cr)"
| sent: "codex_run L cr evs c \<Longrightarrow> BcCodex_encode L c item dst = (r, c', dst') \<Longrightarrow>
    codex_run L cr (evs @ [Sent item]) c'"
| received: "codex_run L cr evs c \<Longrightarrow> BcCodex_decode L c src = (r, c', src') \<Longrightarrow>
    codex_run L cr (evs @ [Received src]) c'"

text \<open>Keys the session may legitimately use after the events \<open>evs\<close>.\<close>

definition offered :: "'x codex_event list \<Rightarrow> bytes \<Rightarrow> bytes \<Rightarrow> bool" where
  "offered evs k iv \<longleftrightarrow> (\<exists>item. Sent item \<in> set evs \<and> signed_login_aes item = Some (Some (k, iv)))"

definition derived :: "('x, 'z) bc_lib_scheme \<Rightarrow> Credentials \<Rightarrow> bytes \<Rightarrow> bytes \<Rightarrow> bool" where
  "derived L cr k iv \<longleftrightarrow> iv = IV \<and> (\<exists>n. k = make_aeskey L cr n)"

definition keys_ok ::
  "('x, 'z) bc_lib_scheme \<Rightarrow> Credentials \<Rightarrow> 'x codex_event list \<Rightarrow> BcCodex \<Rightarrow> bool" where
  "keys_ok L cr evs c \<longleftrightarrow> credentials (codec_context c) = cr \<and>
     (case encryption_protocol (codec_context c) of
        Aes k iv \<Rightarrow> derived L cr k iv
      | FullAes k iv \<Rightarrow> derived L cr k iv \<or> offered evs k iv
      | _ \<Rightarrow> True) \<and>
     (\<forall>n k iv. pending_session_aes c = Some (n, k, iv) \<longrightarrow> offered evs k iv)"

lemma offered_more: "offered evs k iv \<Longrightarrow> offered (evs @ evs2) k iv"
  by (auto simp: offered_def)

lemma keys_ok_more: "keys_ok L cr evs c \<Longrightarrow> keys_ok L cr (evs @ evs2) c"
  by (auto simp: keys_ok_def offered_more split: EncryptionProtocol.splits)

lemma keys_ok_arm:
  "keys_ok L cr evs c \<Longrightarrow> keys_ok L cr (evs @ [Sent item]) (encode_arm item c)"
  using keys_ok_more [of L cr evs c "[Sent item]"]
  by (auto simp: keys_ok_def encode_arm_def offered_def split: option.splits)

lemma keys_ok_pending: "keys_ok L cr evs c \<Longrightarrow> keys_ok L cr evs (apply_pending bc c)"
  by (auto simp: keys_ok_def apply_pending_def full_aes_with_iv_def split: option.splits)

lemma keys_ok_negotiate:
  "keys_ok L cr evs c \<Longrightarrow> negotiate L bc c = (r, c') \<Longrightarrow> keys_ok L cr evs c'"
  by (auto simp: keys_ok_def negotiate_def Let_def derived_def aes_protocol_def full_aes_def
      split: option.splits if_splits)

lemma keys_ok_binary: "keys_ok L cr evs c \<Longrightarrow> keys_ok L cr evs (track_binary bc c)"
  by (auto simp: keys_ok_def track_binary_def split: option.splits BcBody.splits)

lemma keys_ok_update:
  "keys_ok L cr evs c \<Longrightarrow> decode_update L c bc = (r, c') \<Longrightarrow> keys_ok L cr evs c'"
  by (auto simp: decode_update_def split: prod.splits sum.splits
      dest: keys_ok_negotiate [OF keys_ok_pending] intro: keys_ok_binary)

lemma keys_ok_decode:
  "keys_ok L cr evs c \<Longrightarrow> BcCodex_decode L c src = (r, c', src') \<Longrightarrow> keys_ok L cr evs c'"
  by (auto simp: BcCodex_decode_def Let_def split: prod.splits sum.splits bc_error.splits
      dest: keys_ok_update)

lemma keys_ok_run: "codex_run L cr evs c \<Longrightarrow> keys_ok L cr evs c"
proof (induction rule: codex_run.induct)
  case start
  show ?case by (simp add: keys_ok_def BcCodex_new_def BcContext_new_def)
next
  case (sent evs c item dst r c' dst')
  then show ?case
    using keys_ok_arm encode_state [of L c item dst] by auto
next
  case (received evs c src r c' src')
  then show ?case
    using keys_ok_decode keys_ok_more by blast
qed


definition std_login :: "unit Bc" where
  "std_login = Bc_new_from_xml (std_meta 1 4 0) (std_login_xml ''pk'' (Some ([1], [2])))"

definition std_reply :: "u16 \<Rightarrow> unit Bc" where
  "std_reply code = Bc_new_from_meta (std_meta 1 4 code)"




text \<open>
  C37. A legacy login breaks the framing. The serialiser writes the 1836-byte body that the header
  announces, but the parser takes only the 64 bytes of user name and password: the 1772 padding
  bytes stay in the buffer, and every further decode of that stream fails on the magic number.
\<close>

theorem legacy_login_desync:
  assumes "bc_codec_lib L" and "length u = 32" and "length p = 32"
    and "utf8_valid (string_bytes u)" and "utf8_valid (string_bytes p)"
    and "msg_id m = 1" and "msg_class m = 0x6514" and "pending_session_aes c = None"
  shows "\<exists>bs. bc_serialize L prot \<lparr>meta = m, body = BLegacy (LoginMsg u p)\<rparr> = Ok bs \<and>
    BcCodex_decode L c (bs @ rest) =
      (Ok (Some \<lparr>meta = m, body = BLegacy (LoginMsg u p)\<rparr>), c, replicate 1772 0 @ rest) \<and>
    BcCodex_decode L c (replicate 1772 0 @ rest) = (Err NomError, c, replicate 1772 0 @ rest)"
proof -
  let ?bc = "\<lparr>meta = m, body = BLegacy (LoginMsg u p)\<rparr> :: 'a Bc"
  have "(1836 :: u32) \<le> MAX_BC_BODY_LEN" by (simp add: MAX_BC_BODY_LEN_def)
  note parse = bc_codec_lib.legacy_login_parse [OF assms(1-7) this, of "codec_context c"
      "replicate 1772 0 @ rest"]
  have upd: "decode_update L c ?bc = (Ok (Some ?bc), c)"
    by (simp add: decode_update_def apply_pending_def negotiate_def login_nonce_def
        track_binary_def assms(8))
  have "BcCodex_decode L c (replicate 1772 0 @ rest) = (Err NomError, c, replicate 1772 0 @ rest)"
    by (simp add: BcCodex_decode_def bc_deserialize_def deserialize_with_def
        bc_codec_lib.zeros_rejected [OF assms(1)])
  moreover have "bc_serialize L prot ?bc =
      Ok (ser_bc_header L (from_meta m 1836 None) @ string_bytes u @ string_bytes p @ replicate 1772 0)"
    using assms(2,3) by (simp add: bc_serialize_def ser_bc_body_def)
  ultimately show ?thesis
    using bc_decode_complete [OF parse assms(1)] upd by simp
qed

theorem legacy_login_desync_witness:
  "\<exists>bs. bc_serialize std_bc BCEncrypt
      \<lparr>meta = (std_meta 1 0 0)\<lparr>msg_class := 0x6514\<rparr>,
       body = BLegacy (LoginMsg (replicate 32 CHR ''a'') (replicate 32 CHR ''b''))\<rparr> = Ok bs \<and>
    BcCodex_decode std_bc (std_session BCEncrypt) (bs @ []) =
      (Ok (Some \<lparr>meta = (std_meta 1 0 0)\<lparr>msg_class := 0x6514\<rparr>,
         body = BLegacy (LoginMsg (replicate 32 CHR ''a'') (replicate 32 CHR ''b''))\<rparr>),
       std_session BCEncrypt, replicate 1772 0 @ []) \<and>
    BcCodex_decode std_bc (std_session BCEncrypt) (replicate 1772 0 @ []) =
      (Err NomError, std_session BCEncrypt, replicate 1772 0 @ [])"
proof (rule legacy_login_desync [OF std_bc.bc_codec_lib_axioms])
  have "utf8_valid (replicate n 0x61)" "utf8_valid (replicate n 0x62)" for n
    by (induction n) simp_all
  then show "utf8_valid (string_bytes (replicate 32 CHR ''a''))"
    "utf8_valid (string_bytes (replicate 32 CHR ''b''))"
    by (simp_all add: string_bytes_def)
qed (simp_all add: std_meta_def std_session_def)

end
