(* ===== verification/Udp_Xml.thy ===== *)
theory Udp_Xml
  imports Prelude
begin

text \<open>
  The XML payloads of BcUdp discovery packets (\<open>src/baichuan/bcudp/xml.rs\<close>): one record per
  struct, its fields prefixed with the struct's name, and the enum \<open>UdpXml\<close> with one constructor
  per message. \<open>i64\<close> is kept as its 64-bit pattern; the empty tag structs are \<open>unit\<close>. The
  serde attributes only steer quick-xml, which is a parameter of the codec.
\<close>

section \<open>Message structs\<close>

record PortList =
  portList_port :: u32

record C2dS =
  c2dS_to :: PortList

record ClientList =
  clientList_port :: u32

record C2dC =
  c2dC_uid :: string
  c2dC_cli :: ClientList
  c2dC_cid :: i32
  c2dC_mtu :: u32
  c2dC_debug :: bool
  c2dC_os :: string
  c2dC_lver :: u32

record Timer =
  timer_def :: u32
  timer_hb :: u32
  timer_hbt :: u32

record D2cCr =
  d2cCr_timer :: Timer
  d2cCr_rsp :: i32
  d2cCr_cid :: i32
  d2cCr_did :: i32
  d2cCr_pl :: "string option"
  d2cCr_nc :: "u64 option"

record C2dDisc =
  c2dDisc_cid :: i32
  c2dDisc_did :: i32

record D2cDisc =
  d2cDisc_cid :: i32
  d2cDisc_did :: i32

record R2cDisc =
  r2cDisc_sid :: u32

record D2cT =
  d2cT_sid :: u32
  d2cT_conn :: string
  d2cT_cid :: i32
  d2cT_did :: i32

record C2dT =
  c2dT_sid :: u32
  c2dT_conn :: string
  c2dT_cid :: i32
  c2dT_mtu :: u32

record C2mQ =
  c2mQ_uid :: string
  c2mQ_os :: string

record D2mQ =
  d2mQ_uid :: string
  d2mQ_revision :: "i32 option"

record IpPort =
  ipPort_ip :: string
  ipPort_port :: u16

type_synonym EmptyTag = unit

record M2dQr =
  m2dQr_reg :: IpPort
  m2dQr_log :: IpPort
  m2dQr_timer :: EmptyTag
  m2dQr_retry :: EmptyTag
  m2dQr_rsp :: i32
  m2dQr_token :: u64
  m2dQr_ac :: u32

record D2rR =
  d2rR_uid :: string
  d2rR_token :: u64
  d2rR_revision :: "i32 option"

record R2dRr =
  r2dRr_rsp :: i32
  r2dRr_ac :: u32

record M2cQr =
  m2cQr_reg :: "IpPort option"
  m2cQr_relay :: "IpPort option"
  m2cQr_log :: "IpPort option"
  m2cQr_t :: "IpPort option"

record C2rC =
  c2rC_uid :: string
  c2rC_cli :: IpPort
  c2rC_relay :: IpPort
  c2rC_cid :: i32
  c2rC_debug :: bool
  c2rC_family :: u8
  c2rC_os :: string
  c2rC_revision :: "i32 option"

record R2cT =
  r2cT_dmap :: "IpPort option"
  r2cT_dev :: "IpPort option"
  r2cT_cid :: i32
  r2cT_sid :: u32

record R2cCr =
  r2cCr_dev :: "IpPort option"
  r2cCr_dmap :: "IpPort option"
  r2cCr_relay :: "IpPort option"
  r2cCr_relayt :: "IpPort option"
  r2cCr_nat :: string
  r2cCr_sid :: "u32 option"
  r2cCr_rsp :: i32
  r2cCr_ac :: u32

record D2cCfm =
  d2cCfm_sid :: u32
  d2cCfm_conn :: string
  d2cCfm_rsp :: i32
  d2cCfm_cid :: i32
  d2cCfm_did :: i32
  d2cCfm_time_r :: "u32 option"

record C2rCfm =
  c2rCfm_sid :: u32
  c2rCfm_conn :: string
  c2rCfm_rsp :: i32
  c2rCfm_cid :: i32
  c2rCfm_did :: i32

record C2dA =
  c2dA_sid :: u32
  c2dA_conn :: string
  c2dA_cid :: i32
  c2dA_did :: i32
  c2dA_mtu :: u32

record C2dHb =
  c2dHb_cid :: i32
  c2dHb_did :: i32

record C2rHb =
  c2rHb_sid :: u32
  c2rHb_cid :: i32
  c2rHb_did :: i32

record D2cHb =
  d2cHb_cid :: i32
  d2cHb_did :: i32

record D2rHb =
  d2rHb_uid :: string
  d2rHb_dev :: "IpPort option"
  d2rHb_needrsp :: "u8 option"
  d2rHb_token :: u64

record HbTimer =
  hbTimer_hb :: u32

record R2dHbr =
  r2dHbr_rsp :: i32
  r2dHbr_time_t :: u64
  r2dHbr_timer :: HbTimer

record R2dC =
  r2dC_cli :: IpPort
  r2dC_cmap :: IpPort
  r2dC_relay :: IpPort
  r2dC_sid :: u32
  r2dC_cid :: i32

record D2rCr =
  d2rCr_sid :: u32
  d2rCr_dev :: "IpPort option"
  d2rCr_rsp :: i32

record D2rDisc =
  d2rDisc_sid :: u32

record R2dDcr =
  r2dDcr_sid :: u32
  r2dDcr_rsp :: i32

section \<open>The message enum\<close>

datatype (plugins only: code) UdpXml =
    C2dS C2dS
  | C2dC C2dC
  | D2cCr D2cCr
  | D2cT D2cT
  | C2dT C2dT
  | D2cCfm D2cCfm
  | C2dDisc C2dDisc
  | D2cDisc D2cDisc
  | R2cDisc R2cDisc
  | C2mQ C2mQ
  | M2cQr M2cQr
  | C2rC C2rC
  | R2cT R2cT
  | R2cCr R2cCr
  | C2rCfm C2rCfm
  | C2dA C2dA
  | C2dHb C2dHb
  | C2rHb C2rHb
  | D2cHb D2cHb
  | D2rHb D2rHb
  | R2dHbr R2dHbr
  | R2dC R2dC
  | D2rCr D2rCr
  | D2rDisc D2rDisc
  | R2dDcr R2dDcr
  | D2mQ D2mQ
  | M2dQr M2dQr
  | D2rR D2rR
  | R2dRr R2dRr

end
