(* ===== verification/Bcudp.thy ===== *)
theory Bcudp
  imports Wire Udp_Xml
begin

text \<open>
  The BcUdp datagram codec (\<open>src/baichuan/bcudp\<close>): the three packet kinds, the XOR cipher
  over discovery XML, the serialiser, the incremental parser with its payload cap, and the
  \<open>Encoder\<close>/\<open>Decoder\<close> pair of \<open>BcUdpCodex\<close>. quick-xml and crc32fast are parameters.
\<close>

section \<open>Data model\<close>

record UdpDiscovery =
  disc_tid :: u32
  disc_payload :: UdpXml

record UdpAck =
  ack_connection_id :: i32
  ack_group_id :: u32
  ack_packet_id :: u32
  ack_maybe_latency :: u32
  ack_payload :: bytes

record UdpData =
  data_connection_id :: i32
  data_packet_id :: u32
  data_payload :: bytes

datatype BcUdp = Discovery UdpDiscovery | Ack UdpAck | Data UdpData

fun get_connection_id :: "BcUdp \<Rightarrow> i32" where
  "get_connection_id (Discovery _) = 0"
| "get_connection_id (Ack d) = ack_connection_id d"
| "get_connection_id (Data d) = data_connection_id d"

definition udp_ack_empty :: "i32 \<Rightarrow> UdpAck" where
  "udp_ack_empty cid = \<lparr>ack_connection_id = cid, ack_group_id = 0xffffffff,
     ack_packet_id = 0xffffffff, ack_maybe_latency = 0, ack_payload = []\<rparr>"

definition MAGIC_HEADER_UDP_NEGO :: u32 where "MAGIC_HEADER_UDP_NEGO = 0x2a87cf3a"
definition MAGIC_HEADER_UDP_ACK :: u32 where "MAGIC_HEADER_UDP_ACK = 0x2a87cf20"
definition MAGIC_HEADER_UDP_DATA :: u32 where "MAGIC_HEADER_UDP_DATA = 0x2a87cf10"

definition MAX_BCUDP_PAYLOAD :: u32 where "MAX_BCUDP_PAYLOAD = 65535"

lemmas udp_magics =
  MAGIC_HEADER_UDP_NEGO_def MAGIC_HEADER_UDP_ACK_def MAGIC_HEADER_UDP_DATA_def

section \<open>Third-party code\<close>

text \<open>
  \<open>crc32\<close> is \<open>crc32fast::Hasher::new_with_initial(i)\<close>, fed with the payload and finalised;
  \<open>xml_de\<close> and \<open>xml_se\<close> are quick-xml's \<open>from_reader\<close> and \<open>write_serializable\<close> at \<open>UdpXml\<close>,
  \<open>None\<close> standing for their error.
\<close>

record udp_lib = wire +
  crc32 :: "u32 \<Rightarrow> bytes \<Rightarrow> u32"
  xml_de :: "bytes \<Rightarrow> UdpXml option"
  xml_se :: "UdpXml \<Rightarrow> bytes option"

definition calc_crc :: "'z udp_lib_scheme \<Rightarrow> bytes \<Rightarrow> u32" where
  "calc_crc U payload = crc32 U 0xffffffff payload XOR 0xffffffff"

section \<open>Discovery cipher\<close>

definition UDP_XML_KEY :: "u32 list" where
  "UDP_XML_KEY = [0x1f2d3c4b, 0x5a6c7f8d, 0x38172e4b, 0x8271635a,
                  0x863f1a2b, 0xa5c6f7d8, 0x8371e1b4, 0x17f2d3a5]"

definition udp_decrypt :: "u32 \<Rightarrow> bytes \<Rightarrow> bytes" where
  "udp_decrypt offset buf =
     zip_cycle 0 (concat (map (\<lambda>i. to_le32 (i + offset)) UDP_XML_KEY)) (\<lambda>k b. k XOR b) buf"

definition udp_encrypt :: "u32 \<Rightarrow> bytes \<Rightarrow> bytes" where
  "udp_encrypt offset buf = udp_decrypt offset buf"

lemma length_udp_encrypt [simp]: "length (udp_encrypt t b) = length b"
  by (simp add: udp_encrypt_def udp_decrypt_def)

lemma udp_decrypt_encrypt [simp]: "udp_decrypt t (udp_encrypt t b) = b"
  by (simp add: udp_encrypt_def udp_decrypt_def zip_cycle_involution)

section \<open>Serialiser\<close>

definition len_as_u32 :: "usize \<Rightarrow> bc_error + u32" where
  "len_as_u32 len = (if len < 2 ^ 32 then Ok (of_nat len) else Err (GenError 5))"

definition bcudp_disc :: "'z udp_lib_scheme \<Rightarrow> UdpDiscovery \<Rightarrow> bytes \<Rightarrow> u32 \<Rightarrow> bytes" where
  "bcudp_disc U payload xml_payload xml_len =
     (let checksum = calc_crc U xml_payload
      in wr_u32 U MAGIC_HEADER_UDP_NEGO @ wr_u32 U xml_len @ wr_u32 U 1 @
         wr_u32 U (disc_tid payload) @ wr_u32 U checksum @ xml_payload)"

definition bcudp_ack :: "'z udp_lib_scheme \<Rightarrow> UdpAck \<Rightarrow> bytes \<Rightarrow> u32 \<Rightarrow> bytes" where
  "bcudp_ack U payload binary_payload bin_len =
     wr_u32 U MAGIC_HEADER_UDP_ACK @ wr_u32 U (ack_connection_id payload) @ wr_u32 U 0 @
     wr_u32 U (ack_group_id payload) @ wr_u32 U (ack_packet_id payload) @
     wr_u32 U (ack_maybe_latency payload) @ wr_u32 U bin_len @ binary_payload"

definition bcudp_data :: "'z udp_lib_scheme \<Rightarrow> UdpData \<Rightarrow> bytes \<Rightarrow> u32 \<Rightarrow> bytes" where
  "bcudp_data U payload binary_payload bin_len =
     wr_u32 U MAGIC_HEADER_UDP_DATA @ wr_u32 U (data_connection_id payload) @ wr_u32 U 0 @
     wr_u32 U (data_packet_id payload) @ wr_u32 U bin_len @ binary_payload"

fun bcudp_serialize :: "'z udp_lib_scheme \<Rightarrow> BcUdp \<Rightarrow> bc_error + bytes" where
  "bcudp_serialize U (Discovery payload) =
     (case xml_se U (disc_payload payload) of
        None \<Rightarrow> Err (GenError 4)
      | Some xml_bytes \<Rightarrow>
          (let xml_payload = udp_encrypt (disc_tid payload) xml_bytes
           in case len_as_u32 (length xml_payload) of
                Inl e \<Rightarrow> Err e
              | Inr xml_len \<Rightarrow> Ok (bcudp_disc U payload xml_payload xml_len)))"
| "bcudp_serialize U (Ack payload) =
     (case len_as_u32 (length (ack_payload payload)) of
        Inl e \<Rightarrow> Err e
      | Inr bin_len \<Rightarrow> Ok (bcudp_ack U payload (ack_payload payload) bin_len))"
| "bcudp_serialize U (Data payload) =
     (case len_as_u32 (length (data_payload payload)) of
        Inl e \<Rightarrow> Err e
      | Inr bin_len \<Rightarrow> Ok (bcudp_data U payload (data_payload payload) bin_len))"

section \<open>Parser\<close>

definition udp_disc :: "'z udp_lib_scheme \<Rightarrow> UdpDiscovery parser" where
  "udp_disc U =
     pbind (verify (rd_u32 U) (\<lambda>n. n \<le> MAX_BCUDP_PAYLOAD)) (\<lambda>payload_size.
     pbind (verify (rd_u32 U) (\<lambda>x. x = 1)) (\<lambda>unknown_a.
     pbind (rd_u32 U) (\<lambda>tid.
     pbind (rd_u32 U) (\<lambda>checksum.
     pbind (rd_take U (unat payload_size)) (\<lambda>enc_data_slice.
     let actual_checksum = calc_crc U enc_data_slice
     in if checksum \<noteq> actual_checksum then pfail NFailure
        else let decrypted_payload = udp_decrypt tid enc_data_slice
             in case xml_de U decrypted_payload of
                  None \<Rightarrow> pfail NError
                | Some payload \<Rightarrow> pret \<lparr>disc_tid = tid, disc_payload = payload\<rparr>)))))"

definition udp_ack :: "'z udp_lib_scheme \<Rightarrow> UdpAck parser" where
  "udp_ack U =
     pbind (rd_u32 U) (\<lambda>connection_id.
     pbind (verify (rd_u32 U) (\<lambda>x. x = 0)) (\<lambda>unknown_a.
     pbind (verify (rd_u32 U) (\<lambda>x. x = 0 \<or> x = 0xffffffff)) (\<lambda>group_id.
     pbind (rd_u32 U) (\<lambda>packet_id.
     pbind (rd_u32 U) (\<lambda>maybe_latency.
     pbind (verify (rd_u32 U) (\<lambda>n. n \<le> MAX_BCUDP_PAYLOAD)) (\<lambda>payload_size.
     pbind (if payload_size > 0 then rd_take U (unat payload_size) else pret []) (\<lambda>payload.
     pret \<lparr>ack_connection_id = connection_id, ack_group_id = group_id,
           ack_packet_id = packet_id, ack_maybe_latency = maybe_latency,
           ack_payload = payload\<rparr>)))))))"

definition udp_data :: "'z udp_lib_scheme \<Rightarrow> UdpData parser" where
  "udp_data U =
     pbind (rd_u32 U) (\<lambda>connection_id.
     pbind (verify (rd_u32 U) (\<lambda>x. x = 0)) (\<lambda>unknown_a.
     pbind (rd_u32 U) (\<lambda>packet_id.
     pbind (verify (rd_u32 U) (\<lambda>n. n \<le> MAX_BCUDP_PAYLOAD)) (\<lambda>payload_size.
     pbind (rd_take U (unat payload_size)) (\<lambda>payload.
     pret \<lparr>data_connection_id = connection_id, data_packet_id = packet_id,
           data_payload = payload\<rparr>)))))"

definition bcudp :: "'z udp_lib_scheme \<Rightarrow> BcUdp parser" where
  "bcudp U =
     pbind (verify (rd_u32 U) (\<lambda>x. x = MAGIC_HEADER_UDP_NEGO \<or> x = MAGIC_HEADER_UDP_ACK \<or>
                                   x = MAGIC_HEADER_UDP_DATA)) (\<lambda>magic.
     if magic = MAGIC_HEADER_UDP_NEGO then pbind (udp_disc U) (\<lambda>p. pret (Discovery p))
     else if magic = MAGIC_HEADER_UDP_ACK then pbind (udp_ack U) (\<lambda>p. pret (Ack p))
     else if magic = MAGIC_HEADER_UDP_DATA then pbind (udp_data U) (\<lambda>p. pret (Data p))
     else pfail NFailure)"

definition bcudp_deserialize :: "'z udp_lib_scheme \<Rightarrow> bytes \<Rightarrow> (bc_error + BcUdp) \<times> bytes" where
  "bcudp_deserialize U buf = deserialize_with (bcudp U) buf"

section \<open>Codec\<close>

definition BcUdpCodex_encode ::
  "'z udp_lib_scheme \<Rightarrow> BcUdp \<Rightarrow> bytes \<Rightarrow> (bc_error + unit) \<times> bytes" where
  "BcUdpCodex_encode U item dst =
     (case bcudp_serialize U item of
        Inl e \<Rightarrow> (Err e, dst)
      | Inr buf \<Rightarrow> (Ok (), dst @ buf))"

definition BcUdpCodex_decode ::
  "'z udp_lib_scheme \<Rightarrow> bytes \<Rightarrow> (bc_error + BcUdp option) \<times> bytes" where
  "BcUdpCodex_decode U src =
     (if src = [] then (Ok None, src)
      else case bcudp_deserialize U src of
             (Inr (Discovery d), src') \<Rightarrow>
               (case disc_payload d of
                  R2cDisc _ \<Rightarrow> (Err RelayTerminate, src')
                | D2cDisc _ \<Rightarrow> (Err CameraTerminate, src')
                | _ \<Rightarrow> (Ok (Some (Discovery d)), src'))
           | (Inr bc, src') \<Rightarrow> (Ok (Some bc), src')
           | (Inl (NomIncomplete _), src') \<Rightarrow> (Ok None, src')
           | (Inl e, src') \<Rightarrow> (Err e, src'))"

section \<open>Correctness\<close>

text \<open>
  The packets the parser can ever return: payloads within the cap, and for acknowledgements one
  of the two group ids in use.
\<close>

definition wf_bcudp :: "'z udp_lib_scheme \<Rightarrow> BcUdp \<Rightarrow> bool" where
  "wf_bcudp U p = (case p of
     Discovery d \<Rightarrow> (case xml_se U (disc_payload d) of
                       None \<Rightarrow> False | Some b \<Rightarrow> length b \<le> 65535)
   | Ack a \<Rightarrow> (ack_group_id a = 0 \<or> ack_group_id a = 0xffffffff) \<and>
              length (ack_payload a) \<le> 65535
   | Data d \<Rightarrow> length (data_payload d) \<le> 65535)"

lemma cap_of_nat: "n \<le> 65535 \<Longrightarrow> (of_nat n :: u32) \<le> MAX_BCUDP_PAYLOAD"
  by (simp add: MAX_BCUDP_PAYLOAD_def word_le_nat_alt)

lemma cap_unat: "n \<le> MAX_BCUDP_PAYLOAD \<Longrightarrow> unat n \<le> 65535"
  by (simp add: MAX_BCUDP_PAYLOAD_def word_le_nat_alt)

lemmas bcudp_ser_defs = len_as_u32_def bcudp_disc_def bcudp_ack_def bcudp_data_def Let_def
lemmas bcudp_de_defs = bcudp_def udp_disc_def udp_ack_def udp_data_def udp_magics Let_def

text \<open>
  What the codec relies on: the wire primitives, and that quick-xml reads back what it wrote.
\<close>

locale udp_codec_lib = wire_lib U for U :: "'z udp_lib_scheme" +
  assumes xml_roundtrip: "xml_se U x = Some b \<Longrightarrow> xml_de U b = Some x"
begin

lemma incremental_bcudp: "incremental (bcudp U)"
  unfolding bcudp_def udp_disc_def udp_ack_def udp_data_def Let_def
  by (intro stream_intros reader_intros)

lemma bcudp_parse_serialize:
  assumes "wf_bcudp U p"
  shows "\<exists>bs. bcudp_serialize U p = Ok bs \<and> bcudp U (bs @ rest) = Ok (rest, p)"
proof (cases p)
  case (Discovery d)
  with assms obtain b where b: "xml_se U (disc_payload d) = Some b" "length b \<le> 65535"
    by (auto simp: wf_bcudp_def split: option.splits)
  then show ?thesis
    using xml_roundtrip [OF b(1)]
    by (simp add: Discovery bcudp_ser_defs bcudp_def udp_disc_def cap_of_nat pbind_def)
next
  case (Ack a)
  with assms show ?thesis
    by (cases "ack_payload a = []")
      (auto simp: wf_bcudp_def bcudp_ser_defs bcudp_de_defs cap_of_nat pbind_def word_gt_0
        of_nat_u32_eq_0)
next
  case (Data d)
  with assms show ?thesis
    by (auto simp: wf_bcudp_def bcudp_ser_defs bcudp_de_defs cap_of_nat pbind_def)
qed

lemma bcudp_deserialize_serialize:
  assumes "wf_bcudp U p"
  shows "\<exists>bs. bcudp_serialize U p = Ok bs \<and> bcudp_deserialize U (bs @ rest) = (Ok p, rest)"
  using bcudp_parse_serialize [OF assms, of rest]
  by (auto simp: bcudp_deserialize_def intro: deserialize_with_ok [OF incremental_bcudp])

lemma need_bcudp: "need 65535 (bcudp U)"
proof -
  have r: "need 65535 (rd_u32 U)" by (rule need_mono [OF need_readers(3)]) simp
  have t: "n \<le> MAX_BCUDP_PAYLOAD \<Longrightarrow> need 65535 (rd_take U (unat n))" for n :: u32
    by (rule need_mono [OF need_readers(4)]) (rule cap_unat)
  have "need 65535 (udp_disc U)" "need 65535 (udp_ack U)" "need 65535 (udp_data U)"
    unfolding udp_disc_def udp_ack_def udp_data_def Let_def
    by (intro need_intros r t; assumption?)+
  then show ?thesis
    unfolding bcudp_def by (intro need_intros r)
qed

lemma bcudp_canonical:
  assumes "bcudp U buf = Ok (rest, p)" and "\<forall>d. p \<noteq> Discovery d"
  shows "\<exists>bs. bcudp_serialize U p = Ok bs \<and> buf = bs @ rest"
proof -
  from assms(1) obtain magic mid where buf: "buf = wr_u32 U magic @ mid"
    and body: "if magic = MAGIC_HEADER_UDP_NEGO then \<exists>d. p = Discovery d
       else if magic = MAGIC_HEADER_UDP_ACK then \<exists>a. p = Ack a \<and> udp_ack U mid = Ok (rest, a)
       else magic = MAGIC_HEADER_UDP_DATA \<and> (\<exists>d. p = Data d \<and> udp_data U mid = Ok (rest, d))"
    by (auto simp: bcudp_def reader_iffs split: if_splits)
  have ack: "\<exists>bs. bcudp_serialize U (Ack a) = Ok bs \<and> wr_u32 U MAGIC_HEADER_UDP_ACK @ mid = bs @ rest"
    if "udp_ack U mid = Ok (rest, a)" for a
    using that
    by (auto simp: udp_ack_def reader_iffs bcudp_ser_defs word_gt_0 dest!: cap_unat
        split: if_splits)
  have "\<exists>bs. bcudp_serialize U (Data d) = Ok bs \<and> wr_u32 U MAGIC_HEADER_UDP_DATA @ mid = bs @ rest"
    if "udp_data U mid = Ok (rest, d)" for d
    using that by (auto simp: udp_data_def reader_iffs bcudp_ser_defs dest!: cap_unat)
  with ack buf body assms(2) show ?thesis
    by (auto split: if_splits)
qed

end

section \<open>A concrete instance of the parameters\<close>

text \<open>
  The CRC-32 of the reflected polynomial \<open>0xedb88320\<close>, bit by bit, and a length-preserving tag
  encoding for the heartbeat and disconnect messages: enough to run the codec in the kernel.
\<close>

fun crc_bits :: "nat \<Rightarrow> u32 \<Rightarrow> u32" where
  "crc_bits 0 c = c"
| "crc_bits (Suc n) c =
     crc_bits n (if bit c 0 then drop_bit 1 c XOR 0xedb88320 else drop_bit 1 c)"

definition std_crc32 :: "u32 \<Rightarrow> bytes \<Rightarrow> u32" where
  "std_crc32 init payload = NOT (fold (\<lambda>b c. crc_bits 8 (c XOR ucast b)) payload (NOT init))"

fun std_xml_se :: "UdpXml \<Rightarrow> bytes option" where
  "std_xml_se (C2dHb m) = Some (1 # to_le32 (c2dHb_cid m) @ to_le32 (c2dHb_did m))"
| "std_xml_se (D2cHb m) = Some (2 # to_le32 (d2cHb_cid m) @ to_le32 (d2cHb_did m))"
| "std_xml_se (C2dDisc m) = Some (3 # to_le32 (c2dDisc_cid m) @ to_le32 (c2dDisc_did m))"
| "std_xml_se (D2cDisc m) = Some (4 # to_le32 (d2cDisc_cid m) @ to_le32 (d2cDisc_did m))"
| "std_xml_se (R2cDisc m) = Some (5 # to_le32 (r2cDisc_sid m))"
| "std_xml_se _ = None"

definition std_xml_de :: "bytes \<Rightarrow> UdpXml option" where
  "std_xml_de b = (if b = [] then None else
     let t = hd b; c = from_le (take 4 (tl b)); d = from_le (take 4 (drop 4 (tl b)))
     in if t = 1 then Some (C2dHb \<lparr>c2dHb_cid = c, c2dHb_did = d\<rparr>)
        else if t = 2 then Some (D2cHb \<lparr>d2cHb_cid = c, d2cHb_did = d\<rparr>)
        else if t = 3 then Some (C2dDisc \<lparr>c2dDisc_cid = c, c2dDisc_did = d\<rparr>)
        else if t = 4 then Some (D2cDisc \<lparr>d2cDisc_cid = c, d2cDisc_did = d\<rparr>)
        else if t = 5 then Some (R2cDisc \<lparr>r2cDisc_sid = c\<rparr>) else None)"

definition std_udp :: udp_lib where
  "std_udp = wire.extend std_wire
     \<lparr>crc32 = std_crc32, xml_de = std_xml_de, xml_se = std_xml_se\<rparr>"

lemma std_udp_sel [simp]:
  "rd_u8 std_udp = rd_u8 std_wire" "rd_u16 std_udp = rd_u16 std_wire"
  "rd_u32 std_udp = rd_u32 std_wire" "rd_take std_udp = rd_take std_wire"
  "wr_u8 std_udp = wr_u8 std_wire" "wr_u16 std_udp = wr_u16 std_wire"
  "wr_u32 std_udp = wr_u32 std_wire"
  "xml_de std_udp = std_xml_de" "xml_se std_udp = std_xml_se" "crc32 std_udp = std_crc32"
  by (simp_all add: std_udp_def wire.defs udp_lib.defs)

interpretation std_udp: udp_codec_lib std_udp
proof unfold_locales
  show "xml_de std_udp b = Some x" if "xml_se std_udp x = Some b" for x b
    using that by (cases x) (auto simp: std_xml_de_def)
qed (simp_all add: std.read_u8 std.read_u16 std.read_u32 std.read_take std.writers)

section \<open>Properties\<close>

text \<open>
  The decoder's answer to one complete packet: the two disconnect messages end the connection,
  everything else is delivered.
\<close>

definition frame_verdict :: "BcUdp \<Rightarrow> bc_error + BcUdp option" where
  "frame_verdict p = (case p of
     Discovery d \<Rightarrow> (case disc_payload d of
         R2cDisc _ \<Rightarrow> Err RelayTerminate
       | D2cDisc _ \<Rightarrow> Err CameraTerminate
       | _ \<Rightarrow> Ok (Some p))
   | _ \<Rightarrow> Ok (Some p))"

lemma decode_complete:
  "src \<noteq> [] \<Longrightarrow> bcudp_deserialize U src = (Ok p, src') \<Longrightarrow>
   BcUdpCodex_decode U src = (frame_verdict p, src')"
  by (auto simp: BcUdpCodex_decode_def frame_verdict_def split: BcUdp.splits UdpXml.splits)

lemma decode_incomplete:
  "bcudp_deserialize U src = (Err (NomIncomplete n), src') \<Longrightarrow>
   BcUdpCodex_decode U src = (Ok None, if src = [] then src else src')"
  by (simp add: BcUdpCodex_decode_def)

lemma udp_serialize_nonempty: "wire_lib U \<Longrightarrow> bcudp_serialize U p = Ok bs \<Longrightarrow> bs \<noteq> []"
  by (cases p) (auto simp: bcudp_ser_defs wire_lib.write_u32 to_le32_def
      split: option.splits if_splits)

text \<open>
  C28. Round trip of the UDP codec. Encoding any well-formed packet succeeds and appends its
  bytes; decoding those bytes, whatever follows them in the buffer, gives the packet back (or the
  terminate error for the two disconnect messages) and leaves exactly what followed.
\<close>

theorem bcudp_codec_roundtrip:
  assumes "udp_codec_lib U" and "wf_bcudp U p"
  shows "\<exists>bs. BcUdpCodex_encode U p dst = (Ok (), dst @ bs) \<and>
              BcUdpCodex_decode U (bs @ rest) = (frame_verdict p, rest)"
proof -
  obtain bs where bs: "bcudp_serialize U p = Ok bs"
      "bcudp_deserialize U (bs @ rest) = (Ok p, rest)"
    using udp_codec_lib.bcudp_deserialize_serialize [OF assms] by blast
  have "bs \<noteq> []"
    using udp_serialize_nonempty [OF udp_codec_lib.axioms(1) [OF assms(1)] bs(1)] .
  with bs decode_complete [OF _ bs(2)] show ?thesis
    by (auto simp: BcUdpCodex_encode_def)
qed

theorem bcudp_codec_roundtrip_witness:
  "\<exists>bs. BcUdpCodex_encode std_udp
          (Data \<lparr>data_connection_id = 7, data_packet_id = 9, data_payload = [1, 2, 3]\<rparr>) [0xaa] =
            (Ok (), [0xaa] @ bs) \<and>
        BcUdpCodex_decode std_udp (bs @ [5, 6]) =
          (Ok (Some (Data \<lparr>data_connection_id = 7, data_packet_id = 9,
                           data_payload = [1, 2, 3]\<rparr>)), [5, 6])"
proof -
  let ?p = "Data \<lparr>data_connection_id = 7, data_packet_id = 9, data_payload = [1, 2, 3]\<rparr>"
  have wf: "wf_bcudp std_udp ?p" by (simp add: wf_bcudp_def)
  show ?thesis
    using bcudp_codec_roundtrip [OF std_udp.udp_codec_lib_axioms wf, of "[0xaa]" "[5, 6]"]
    by (simp add: frame_verdict_def)
qed

text \<open>
  The decoder waits on a partial datagram: every proper prefix of an encoded packet is
  answered with "need more bytes" and the buffer is left untouched.
\<close>

theorem bcudp_decode_waits:
  assumes "udp_codec_lib U" and "wf_bcudp U p"
    and "bcudp_serialize U p = Ok bs" and "n < length bs"
  shows "BcUdpCodex_decode U (take n bs) = (Ok None, take n bs)"
proof -
  have "bcudp U bs = Ok ([], p)"
    using udp_codec_lib.bcudp_parse_serialize [OF assms(1,2), of "[]"] assms(3) by auto
  then obtain k where "bcudp U (take n bs) = Err (NIncomplete k)"
    using proper_prefix_incomplete [OF udp_codec_lib.incremental_bcudp [OF assms(1)]] assms(4)
    by blast
  then have "bcudp_deserialize U (take n bs) = (Err (NomIncomplete k), take n bs)"
    by (simp add: bcudp_deserialize_def deserialize_with_err)
  from decode_incomplete [OF this] show ?thesis by simp
qed

theorem bcudp_decode_waits_witness:
  "BcUdpCodex_decode std_udp
     (take 9 (bcudp_data std_udp \<lparr>data_connection_id = 7, data_packet_id = 9,
                                  data_payload = [1, 2]\<rparr> [1, 2] 2)) =
   (Ok None, take 9 (bcudp_data std_udp \<lparr>data_connection_id = 7, data_packet_id = 9,
                                  data_payload = [1, 2]\<rparr> [1, 2] 2))"
  by (rule bcudp_decode_waits [OF std_udp.udp_codec_lib_axioms,
        where p = "Data \<lparr>data_connection_id = 7, data_packet_id = 9, data_payload = [1, 2]\<rparr>"])
    (simp_all add: wf_bcudp_def len_as_u32_def bcudp_data_def std_wire_def)

text \<open>
  No unbounded buffering: whatever bytes arrive, the decoder never asks for more than the
  65,535-byte payload cap, so a forged length field cannot make the framer grow its buffer.
\<close>

theorem bcudp_bounded_request:
  assumes "udp_codec_lib U" and "bcudp_deserialize U buf = (Err (NomIncomplete n), buf')"
  shows "n \<le> 65535 \<and> buf' = buf"
proof -
  have "bcudp U buf = Err (NIncomplete n) \<and> buf' = buf"
    using assms(2)
    by (auto simp: bcudp_deserialize_def deserialize_with_def split: sum.splits
        elim: error_from_nom.elims)
  then show ?thesis
    using udp_codec_lib.need_bcudp [OF assms(1)] by (auto simp: need_def)
qed

theorem bcudp_bounded_request_witness:
  "bcudp_deserialize std_udp [] = (Err (NomIncomplete 4), []) \<and>
   (4::nat) \<le> 65535 \<and> [] = ([] :: bytes)"
proof -
  have run: "bcudp_deserialize std_udp [] = (Err (NomIncomplete 4), [])"
    by (simp add: bcudp_deserialize_def deserialize_with_def bcudp_def verify_def pbind_def
        std_wire_def)
  with bcudp_bounded_request [OF std_udp.udp_codec_lib_axioms run] show ?thesis by simp
qed

text \<open>
  The parser accepts only canonical bytes: an acknowledgement or data packet it returns was
  read from exactly the bytes the serialiser writes for that packet.
\<close>

theorem bcudp_accepts_canonical:
  assumes "udp_codec_lib U" and "bcudp_deserialize U buf = (Ok p, rest)"
    and "\<forall>d. p \<noteq> Discovery d"
  shows "\<exists>bs. bcudp_serialize U p = Ok bs \<and> buf = bs @ rest"
proof -
  obtain rest' where r: "bcudp U buf = Ok (rest', p)"
    using assms(2) by (auto simp: bcudp_deserialize_def deserialize_with_def split: sum.splits)
  then have "rest' = rest"
    using deserialize_with_ok [OF udp_codec_lib.incremental_bcudp [OF assms(1)] r] assms(2)
    by (simp add: bcudp_deserialize_def)
  with r udp_codec_lib.bcudp_canonical [OF assms(1) _ assms(3)] show ?thesis by simp
qed

theorem bcudp_accepts_canonical_witness:
  "\<exists>bs. bcudp_serialize std_udp (Ack (udp_ack_empty 3)) = Ok bs \<and>
        bcudp_ack std_udp (udp_ack_empty 3) [] 0 @ [9] = bs @ [9]"
proof (rule bcudp_accepts_canonical [OF std_udp.udp_codec_lib_axioms])
  have "bcudp_serialize std_udp (Ack (udp_ack_empty 3)) =
          Ok (bcudp_ack std_udp (udp_ack_empty 3) [] 0)"
    by (simp add: len_as_u32_def udp_ack_empty_def)
  then show "bcudp_deserialize std_udp (bcudp_ack std_udp (udp_ack_empty 3) [] 0 @ [9]) =
          (Ok (Ack (udp_ack_empty 3)), [9])"
    using std_udp.bcudp_deserialize_serialize [of "Ack (udp_ack_empty 3)" "[9]"]
    by (simp add: wf_bcudp_def udp_ack_empty_def)
qed simp

end
