(* ===== verification/Udp_Flow.thy ===== *)
theory Udp_Flow
  imports Bcudp Ordered_Map
begin

text \<open>
  The reliable byte stream over BcUdp (\<open>src/baichuan/bc_protocol/connection/udpsource.rs\<close>): the
  pure flow state \<open>UdpFlowState\<close> with its reorder buffer and resend map, the latency statistic,
  and one turn of the coordination loop \<open>UdpPayloadInner::run\<close>. Time is a parameter
  (nanoseconds); a socket address is a value of an arbitrary type.
\<close>

section \<open>Latency statistic\<close>

record AckLatency =
  current_values :: "u32 list"
  last_receive_time :: "nat option"
  display_value :: u32
  last_display_time :: "nat option"

definition AckLatency_default :: AckLatency where
  "AckLatency_default = \<lparr>current_values = [], last_receive_time = None, display_value = 0,
                         last_display_time = None\<rparr>"

definition get_value :: "AckLatency \<Rightarrow> u32" where
  "get_value s = display_value s"

definition latency_average :: "u32 list \<Rightarrow> u32" where
  "latency_average vs =
     (let current_values_count = of_nat (length vs)
      in foldl (\<lambda>acc value. acc + value div current_values_count) 0 vs)"

definition feed_ack :: "nat \<Rightarrow> AckLatency \<Rightarrow> AckLatency" where
  "feed_ack now s =
     (let s = (case last_receive_time s of
                 Some t \<Rightarrow> s\<lparr>current_values := current_values s @ [of_nat ((now - t) div 1000)],
                              last_receive_time := Some now\<rparr>
               | None \<Rightarrow> s\<lparr>last_receive_time := Some now\<rparr>)
      in case last_display_time s of
           Some t \<Rightarrow>
             if now - t > 1000000000
             then s\<lparr>last_display_time := Some now,
                    display_value := latency_average (current_values s),
                    current_values := []\<rparr>
             else s
         | None \<Rightarrow> s\<lparr>last_display_time := Some now, display_value := 0\<rparr>)"

section \<open>Flow state\<close>

definition MTU :: usize where "MTU = 1350"
definition UDPDATA_HEADER_SIZE :: usize where "UDPDATA_HEADER_SIZE = 20"
definition REORDER_CAP :: usize where "REORDER_CAP = 1024"
definition ACK_BITMAP_CAP :: u32 where "ACK_BITMAP_CAP = of_nat (REORDER_CAP * 4)"

record UdpFlowState =
  client_id :: i32
  camera_id :: i32
  packets_sent :: u32
  packets_want :: u32
  sent :: "(u32, UdpData) btree"
  received :: "(u32, bytes) btree"
  ack_latency :: AckLatency

definition UdpFlowState_new :: "i32 \<Rightarrow> i32 \<Rightarrow> UdpFlowState" where
  "UdpFlowState_new client camera = \<lparr>client_id = client, camera_id = camera, packets_sent = 0,
     packets_want = 0, sent = [], received = [], ack_latency = AckLatency_default\<rparr>"

primrec enqueue_chunks :: "bytes list \<Rightarrow> UdpFlowState \<Rightarrow> UdpData list \<times> UdpFlowState" where
  "enqueue_chunks [] f = ([], f)"
| "enqueue_chunks (chunk # cs) f =
     (let d = \<lparr>data_connection_id = camera_id f, data_packet_id = packets_sent f,
               data_payload = chunk\<rparr>;
          f' = f\<lparr>packets_sent := packets_sent f + 1,
                 sent := bt_insert (data_packet_id d) d (sent f)\<rparr>;
          (out, f'') = enqueue_chunks cs f'
      in (d # out, f''))"

definition enqueue_send :: "bytes \<Rightarrow> UdpFlowState \<Rightarrow> UdpData list \<times> UdpFlowState" where
  "enqueue_send p f = enqueue_chunks (chunks (MTU - UDPDATA_HEADER_SIZE) p) f"

definition handle_data :: "UdpData \<Rightarrow> UdpFlowState \<Rightarrow> bool \<times> UdpFlowState" where
  "handle_data d f =
     (if data_connection_id d \<noteq> client_id f then (False, f)
      else if data_packet_id d = 0xffffffff then (False, f)
      else if data_packet_id d \<ge> packets_want f \<and> length (received f) < REORDER_CAP
      then (True, f\<lparr>received := bt_insert (data_packet_id d) (data_payload d) (received f)\<rparr>)
      else if length (received f) \<ge> REORDER_CAP then (False, f)
      else (False, f))"

definition remove_acked :: "u32 \<Rightarrow> bytes \<Rightarrow> (u32, UdpData) btree \<Rightarrow> (u32, UdpData) btree" where
  "remove_acked start p m =
     fold (\<lambda>(idx, value) m. if value > 0 then bt_remove (start + 1 + of_nat idx) m else m)
       (List.enumerate 0 p) m"

definition handle_ack :: "nat \<Rightarrow> UdpAck \<Rightarrow> UdpFlowState \<Rightarrow> UdpFlowState" where
  "handle_ack now ack f =
     (let start = ack_packet_id ack;
          f1 = (if start \<noteq> 0xffffffff
                then let m = bt_retain (\<lambda>k. k > start) (sent f)
                     in if unat start + 1 + length (ack_payload ack) > 0xffffffff
                        then f\<lparr>sent := m\<rparr>
                        else f\<lparr>sent := remove_acked start (ack_payload ack) m\<rparr>
                else f)
      in f1\<lparr>ack_latency := feed_ack now (ack_latency f1)\<rparr>)"

function drain_loop ::
  "(u32, bytes) btree \<Rightarrow> u32 \<Rightarrow> bytes list \<times> (u32, bytes) btree \<times> u32" where
  "drain_loop r want =
     (case bt_get r want of
        None \<Rightarrow> ([], r, want)
      | Some p \<Rightarrow>
          (let (out, r', want') = drain_loop (bt_remove want r) (want + 1)
           in (p # out, r', want')))"
  by pat_completeness auto
termination
  by (relation "measure (\<lambda>(r, want). length r)") (auto simp: length_bt_remove_less)

declare drain_loop.simps [simp del]

definition drain_contiguous :: "UdpFlowState \<Rightarrow> bytes list \<times> UdpFlowState" where
  "drain_contiguous f =
     (let (out, r, want) = drain_loop (received f) (packets_want f)
      in (out, f\<lparr>received := r, packets_want := want\<rparr>))"

text \<open>
  The scan for the first missing packet saturates at \<open>u32::MAX\<close>, so it would spin if that id were
  in the buffer; \<open>None\<close> stands for a call that does not return.
\<close>

partial_function (option) first_missing_loop :: "(u32, bytes) btree \<Rightarrow> u32 \<Rightarrow> u32 option" where
  "first_missing_loop r fm =
     (if bt_contains r fm then first_missing_loop r (sat_add32 fm 1) else Some fm)"

definition ack_bitmap :: "(u32, bytes) btree \<Rightarrow> u32 \<Rightarrow> u32 \<Rightarrow> bytes" where
  "ack_bitmap r fm scan_to =
     map (\<lambda>i. if bt_contains r (of_nat i) then 1 else 0) [unat fm..<unat scan_to]"

text \<open>
  \<open>None\<close>: the scan spins, or \<open>scan_to - first_missing\<close> underflows.
\<close>

definition missing_ids :: "(u32, bytes) btree \<Rightarrow> u32 \<Rightarrow> bytes option" where
  "missing_ids r fm =
     (if r = [] then Some []
      else let last_id = Max (set (bt_keys r));
               end_inclusive = sat_add32 last_id 1;
               scan_to = min end_inclusive (sat_add32 fm ACK_BITMAP_CAP)
           in if scan_to < fm then None else Some (ack_bitmap r fm scan_to))"

definition build_send_ack :: "UdpFlowState \<Rightarrow> UdpAck option" where
  "build_send_ack f =
     (if packets_want f > 0 then
        (case first_missing_loop (received f) (packets_want f) of
           None \<Rightarrow> None
         | Some fm \<Rightarrow>
             (case missing_ids (received f) fm of
                None \<Rightarrow> None
              | Some ids \<Rightarrow>
                  Some \<lparr>ack_connection_id = camera_id f, ack_group_id = 0,
                        ack_packet_id = fm - 1, ack_maybe_latency = get_value (ack_latency f),
                        ack_payload = ids\<rparr>))
      else Some (udp_ack_empty (camera_id f)))"

definition resend_packets :: "UdpFlowState \<Rightarrow> UdpData list" where
  "resend_packets f = bt_values (sent f)"

definition received_len :: "UdpFlowState \<Rightarrow> usize" where
  "received_len f = length (received f)"

section \<open>One turn of the coordination loop\<close>

record 'a UdpPayloadInner =
  camera_addr :: 'a
  ack_tx :: UdpAck
  flow :: UdpFlowState

definition UdpPayloadInner_new :: "'a \<Rightarrow> i32 \<Rightarrow> i32 \<Rightarrow> 'a UdpPayloadInner" where
  "UdpPayloadInner_new addr client camera =
     \<lparr>camera_addr = addr, ack_tx = udp_ack_empty camera, flow = UdpFlowState_new client camera\<rparr>"

text \<open>
  The three branches of the \<open>select!\<close>: the resend tick, an item from the application (\<open>None\<close> when
  the channel closed), a datagram with its source address. The result is what was fed to the
  socket, and the state; \<open>None\<close> again stands for not returning.
\<close>

datatype 'a run_event =
    ResendTick
  | AppItem "bytes option"
  | SocketItem "(BcUdp \<times> 'a) option"

definition on_datagram ::
  "nat \<Rightarrow> BcUdp \<Rightarrow> 'a UdpPayloadInner \<Rightarrow> 'a UdpPayloadInner option" where
  "on_datagram now item s = (case item of
     Discovery _ \<Rightarrow> Some s
   | Ack ack \<Rightarrow>
       if ack_connection_id ack = client_id (flow s)
       then Some (s\<lparr>flow := handle_ack now ack (flow s)\<rparr>) else Some s
   | Data d \<Rightarrow>
       (case handle_data d (flow s) of
          (True, f) \<Rightarrow>
            (case build_send_ack f of
               None \<Rightarrow> None | Some a \<Rightarrow> Some (s\<lparr>flow := f, ack_tx := a\<rparr>))
        | (False, f) \<Rightarrow> Some (s\<lparr>flow := f\<rparr>)))"

definition run_select ::
  "nat \<Rightarrow> 'a run_event \<Rightarrow> 'a UdpPayloadInner \<Rightarrow>
   (bc_error + (BcUdp list \<times> 'a UdpPayloadInner)) option" where
  "run_select now ev s = (case ev of
     ResendTick \<Rightarrow>
       (case build_send_ack (flow s) of
          None \<Rightarrow> None
        | Some a \<Rightarrow> Some (Ok (map Data (resend_packets (flow s)), s\<lparr>ack_tx := a\<rparr>)))
   | AppItem None \<Rightarrow> Some (Err BcUdpDropSender)
   | AppItem (Some item) \<Rightarrow>
       (let (ps, f) = enqueue_send item (flow s)
        in Some (Ok (map Data ps, s\<lparr>flow := f\<rparr>)))
   | SocketItem None \<Rightarrow> Some (Err BcUdpDropReceiver)
   | SocketItem (Some (item, addr)) \<Rightarrow>
       (if addr = camera_addr s
        then map_option (\<lambda>s'. Ok ([], s')) (on_datagram now item s)
        else Some (Ok ([], s))))"

definition run ::
  "nat \<Rightarrow> 'a run_event \<Rightarrow> 'a UdpPayloadInner \<Rightarrow>
   (bc_error + (BcUdp list \<times> bytes list \<times> 'a UdpPayloadInner)) option" where
  "run now ev s = (case run_select now ev s of
     None \<Rightarrow> None
   | Some (Inl e) \<Rightarrow> Some (Err e)
   | Some (Inr (sock, s')) \<Rightarrow>
       (let (out, f) = drain_contiguous (flow s')
        in Some (Ok (sock, out, s'\<lparr>flow := f\<rparr>))))"

section \<open>Invariant\<close>

text \<open>
  Both maps are ordered; the reorder buffer holds at most \<open>REORDER_CAP\<close> packets, none below the
  next wanted id and none with id \<open>u32::MAX\<close>.
\<close>

definition recv_ok :: "(u32, bytes) btree \<Rightarrow> u32 \<Rightarrow> bool" where
  "recv_ok r want \<longleftrightarrow> bt_ok r \<and> length r \<le> REORDER_CAP \<and>
     (\<forall>k\<in>set (bt_keys r). want \<le> k \<and> k < 0xffffffff)"

definition flow_ok :: "UdpFlowState \<Rightarrow> bool" where
  "flow_ok f \<longleftrightarrow> recv_ok (received f) (packets_want f) \<and> bt_ok (sent f)"

lemma recv_ok_get:
  "recv_ok r want \<Longrightarrow> bt_get r k = Some p \<Longrightarrow> want \<le> k \<and> unat k < 0xffffffff"
  using bt.keys_get [of r k] by (auto simp: recv_ok_def word_less_nat_alt)

lemma flow_ok_new: "flow_ok (UdpFlowState_new a b)"
  by (simp add: flow_ok_def recv_ok_def UdpFlowState_new_def bt_keys_def)

lemma enqueue_chunks_ok:
  "flow_ok f \<Longrightarrow> flow_ok (snd (enqueue_chunks cs f))"
  by (induction cs arbitrary: f) (simp_all add: flow_ok_def Let_def bt_ok_insert case_prod_beta)

lemma insert_ok:
  "flow_ok f \<Longrightarrow> packets_want f \<le> k \<Longrightarrow> k \<noteq> 0xffffffff \<Longrightarrow> length (received f) < REORDER_CAP \<Longrightarrow>
   flow_ok (f\<lparr>received := bt_insert k p (received f)\<rparr>)"
  by (auto simp: flow_ok_def recv_ok_def bt.keys_ins bt_ok_insert length_bt_insert u32_lt_max)

lemma handle_data_ok: "flow_ok f \<Longrightarrow> flow_ok (snd (handle_data d f))"
  by (simp add: handle_data_def insert_ok)

lemma acked_fold:
  fixes m :: "(u32, UdpData) btree"
  defines "step \<equiv> \<lambda>start (idx, value) m. if value > 0 then bt_remove (start + 1 + of_nat idx) m else m"
  shows "bt_get (fold (step start) (List.enumerate n p) m) k =
      (if \<exists>i < length p. p ! i > 0 \<and> k = start + 1 + of_nat (n + i) then None else bt_get m k)"
    and "bt_ok m \<Longrightarrow> bt_ok (fold (step start) (List.enumerate n p) m)"
proof (induction p arbitrary: n m)
  case (Cons v p)
  case 1
  have ex: "(\<exists>i < length (v # p). (v # p) ! i > 0 \<and> k = start + 1 + of_nat (n + i)) \<longleftrightarrow>
      (v > 0 \<and> k = start + 1 + of_nat n) \<or>
      (\<exists>i < length p. p ! i > 0 \<and> k = start + 1 + of_nat (Suc n + i))"
    by (auto simp: less_Suc_eq_0_disj)
  show ?case unfolding ex
    using Cons.IH(1) [of "Suc n"] by (auto simp: step_def bt_get_remove)
next
  case (Cons v p)
  case 2
  then show ?case
    using Cons.IH(2) by (simp add: step_def bt_ok_remove)
qed simp_all

lemma remove_acked_get:
  "bt_get (remove_acked start p m) k =
     (if \<exists>i < length p. p ! i > 0 \<and> k = start + 1 + of_nat i then None else bt_get m k)"
  unfolding remove_acked_def using acked_fold(1) [of start 0 p m k] by simp

lemma remove_acked_ok: "bt_ok m \<Longrightarrow> bt_ok (remove_acked start p m)"
  unfolding remove_acked_def using acked_fold(2) [of m start 0 p] by simp

lemma handle_ack_ok: "flow_ok f \<Longrightarrow> flow_ok (handle_ack now ack f)"
  by (auto simp: flow_ok_def handle_ack_def Let_def remove_acked_ok bt_ok_retain)

lemma handle_ack_recv [simp]:
  "received (handle_ack now ack f) = received f" "packets_want (handle_ack now ack f) = packets_want f"
  "client_id (handle_ack now ack f) = client_id f"
  by (simp_all add: handle_ack_def Let_def)

lemma enqueue_recv [simp]:
  "received (snd (enqueue_chunks cs f)) = received f"
  "packets_want (snd (enqueue_chunks cs f)) = packets_want f"
  "client_id (snd (enqueue_chunks cs f)) = client_id f"
  "camera_id (snd (enqueue_chunks cs f)) = camera_id f"
  by (induction cs arbitrary: f) (simp_all add: Let_def case_prod_beta)

lemma drain_step:
  assumes "recv_ok r want" and "bt_get r want = Some p"
  shows "recv_ok (bt_remove want r) (want + 1)" "unat (want + 1) = Suc (unat want)"
proof -
  show n: "unat (want + 1) = Suc (unat want)"
    using recv_ok_get [OF assms] by (simp add: unat_succ_u32)
  have "want + 1 \<le> k" if "want \<le> k" "k \<noteq> want" for k
    using that n by (simp add: word_le_nat_alt word_unat_eq_iff)
  then show "recv_ok (bt_remove want r) (want + 1)"
    using assms(1) length_bt_remove_le [of want r]
    by (auto simp: recv_ok_def bt_ok_retain bt_remove_def bt.keys_retain)
qed

text \<open>
  Draining: the packets \<open>want, want + 1, \<dots>\<close> up to the first gap come out, in order; the rest stays.
\<close>

lemma drain_loop_spec:
  assumes "recv_ok r want" and "drain_loop r want = (out, r', want')"
  shows "recv_ok r' want' \<and> unat want' = unat want + length out \<and> bt_get r' want' = None \<and>
    (\<forall>i < length out. bt_get r (of_nat (unat want + i)) = Some (out ! i)) \<and>
    (\<forall>k p. bt_get r' k = Some p \<longrightarrow> bt_get r k = Some p)"
  using assms
proof (induction r want arbitrary: out r' want' rule: drain_loop.induct)
  case (1 r want)
  show ?case
  proof (cases "bt_get r want")
    case None
    with 1 show ?thesis by (simp add: drain_loop.simps)
  next
    case (Some p)
    obtain o2 r2 w2 where rec: "drain_loop (bt_remove want r) (want + 1) = (o2, r2, w2)"
      by (metis prod_cases3)
    with 1(3) Some have out: "out = p # o2" "r' = r2" "want' = w2"
      by (simp_all add: drain_loop.simps [of r want])
    note st = drain_step [OF 1(2) Some]
    note ih = 1(1) [OF Some st(1) rec]
    have "bt_get r (of_nat (unat want + i)) = Some (out ! i)" if i: "i < length out" for i
    proof (cases i)
      case (Suc j)
      then have "bt_get (bt_remove want r) (of_nat (Suc (unat want) + j)) = Some (o2 ! j)"
        using ih i st(2) by (simp add: out)
      then show ?thesis
        by (simp add: Suc out bt_get_remove split: if_splits)
    qed (simp add: Some out)
    moreover have "bt_get r' k = Some q \<longrightarrow> bt_get r k = Some q" for k q
      using ih by (metis bt_get_remove option.distinct(1) out(2))
    ultimately show ?thesis
      using ih st(2) by (simp add: out)
  qed
qed

lemma drain_ok: "flow_ok f \<Longrightarrow> flow_ok (snd (drain_contiguous f))"
  using drain_loop_spec [of "received f" "packets_want f"]
  by (auto simp: flow_ok_def drain_contiguous_def Let_def split: prod.splits)

section \<open>The acknowledgement\<close>

lemma first_missing_spec:
  assumes "recv_ok r want"
  shows "\<exists>x. first_missing_loop r fm = Some x \<and> fm \<le> x \<and> \<not> bt_contains r x \<and>
     (\<forall>i. fm \<le> i \<and> i < x \<longrightarrow> bt_contains r i)"
proof (induction "0xffffffff - unat fm" arbitrary: fm rule: less_induct)
  case less
  show ?case
  proof (cases "bt_contains r fm")
    case True
    then have lt: "unat fm < 0xffffffff"
      using assms recv_ok_get [OF assms] bt_contains_iff [of r fm] by (auto simp: recv_ok_def)
    then have sat: "sat_add32 fm 1 = fm + 1" and suc: "unat (fm + 1) = Suc (unat fm)"
      by (simp_all add: sat_add32_def unat_succ_u32)
    have "0xffffffff - unat (fm + 1) < 0xffffffff - unat fm"
      using lt suc by simp
    from less [OF this] obtain x where x: "first_missing_loop r (fm + 1) = Some x" "fm + 1 \<le> x"
      "\<not> bt_contains r x" "\<forall>i. fm + 1 \<le> i \<and> i < x \<longrightarrow> bt_contains r i" by blast
    have "fm + 1 \<le> i \<or> i = fm" if "fm \<le> i" for i
      using that suc by (auto simp: word_le_nat_alt word_unat_eq_iff)
    then have "\<forall>i. fm \<le> i \<and> i < x \<longrightarrow> bt_contains r i"
      using x(4) True by blast
    moreover have "fm \<le> x"
      using x(2) suc by (simp add: word_le_nat_alt)
    moreover have "first_missing_loop r fm = Some x"
      using True x(1) sat by (subst first_missing_loop.simps) simp
    ultimately show ?thesis using x(3) by blast
  next
    case False
    then show ?thesis by (subst first_missing_loop.simps) (auto simp: word_le_nat_alt word_less_nat_alt)
  qed
qed

lemma missing_ids_spec:
  assumes ok: "recv_ok r want" and fm: "\<forall>i. want \<le> i \<and> i < fm \<longrightarrow> bt_contains r i"
  shows "\<exists>ids. missing_ids r fm = Some ids \<and> length ids \<le> 4096 \<and>
     unat fm + length ids \<le> 0xffffffff \<and>
     (\<forall>i < length ids. ids ! i > 0 \<longrightarrow> bt_contains r (fm + of_nat i))"
proof (cases "r = []")
  case True
  then show ?thesis using unat_lt_u32 [of fm] by (simp add: missing_ids_def)
next
  case False
  let ?last = "Max (set (bt_keys r))"
  let ?to = "min (sat_add32 ?last 1) (sat_add32 fm ACK_BITMAP_CAP)"
  have last: "?last \<in> set (bt_keys r)"
    using False by (intro Max_in) (auto simp: bt_keys_def)
  then have "want \<le> ?last" and lm: "unat ?last < 0xffffffff"
    using ok by (auto simp: recv_ok_def word_less_nat_alt)
  then have s: "unat (?last + 1) = Suc (unat ?last)" and sat: "sat_add32 ?last 1 = ?last + 1"
    by (simp_all add: unat_succ_u32 sat_add32_def)
  have "\<not> bt_contains r (?last + 1)"
  proof
    assume "bt_contains r (?last + 1)"
    then have "?last + 1 \<le> ?last" by (simp add: bt_contains_def bt_keys_def)
    with s show False by (simp add: word_le_nat_alt)
  qed
  moreover have "want \<le> ?last + 1"
    using \<open>want \<le> ?last\<close> s by (simp add: word_le_nat_alt)
  ultimately have le: "fm \<le> ?last + 1"
    using fm by (meson not_less)
  have cap: "unat ACK_BITMAP_CAP = 4096" by (simp add: ACK_BITMAP_CAP_def REORDER_CAP_def)
  have bound: "unat ?to \<le> unat fm + 4096" "unat ?to \<le> 0xffffffff"
    using unat_sat_add32 [of fm ACK_BITMAP_CAP] cap unat_sat_add32 [of ?last 1]
    by (auto simp: min_def word_le_nat_alt)
  have ge: "\<not> ?to < fm"
    using le sat unat_sat_add32 [of fm ACK_BITMAP_CAP] unat_lt_u32 [of fm]
    by (auto simp: min_def word_le_nat_alt word_less_nat_alt)
  have "missing_ids r fm = Some (ack_bitmap r fm ?to)"
    using False ge by (simp add: missing_ids_def Let_def)
  moreover have "bt_contains r (fm + of_nat i)"
    if "i < length (ack_bitmap r fm ?to)" "ack_bitmap r fm ?to ! i > 0" for i
    using that by (simp add: ack_bitmap_def split: if_splits)
  moreover have "unat fm \<le> unat ?to" using ge by (simp add: word_less_nat_alt)
  ultimately show ?thesis using bound by (auto simp: ack_bitmap_def)
qed

text \<open>What the receiver already holds: delivered packets and the reorder buffer.\<close>

definition holds :: "UdpFlowState \<Rightarrow> u32 \<Rightarrow> bool" where
  "holds f k \<longleftrightarrow> k < packets_want f \<or> bt_contains (received f) k"

lemma build_send_ack_spec:
  assumes "flow_ok f"
  shows "\<exists>ack. build_send_ack f = Some ack \<and> length (ack_payload ack) \<le> 4096 \<and>
    (ack_packet_id ack \<noteq> 0xffffffff \<longrightarrow>
       unat (ack_packet_id ack) + 1 + length (ack_payload ack) \<le> 0xffffffff \<and>
       (\<forall>k \<le> ack_packet_id ack. holds f k) \<and>
       (\<forall>i < length (ack_payload ack). ack_payload ack ! i > 0 \<longrightarrow>
          holds f (ack_packet_id ack + 1 + of_nat i)))"
proof (cases "packets_want f > 0")
  case True
  let ?r = "received f" and ?w = "packets_want f"
  have ok: "recv_ok ?r ?w" using assms by (simp add: flow_ok_def)
  obtain fm where fm: "first_missing_loop ?r ?w = Some fm" "?w \<le> fm"
    "\<forall>i. ?w \<le> i \<and> i < fm \<longrightarrow> bt_contains ?r i"
    using first_missing_spec [OF ok] by blast
  obtain ids where ids: "missing_ids ?r fm = Some ids" "length ids \<le> 4096"
    "unat fm + length ids \<le> 0xffffffff" "\<forall>i < length ids. ids ! i > 0 \<longrightarrow> bt_contains ?r (fm + of_nat i)"
    using missing_ids_spec [OF ok fm(3)] by blast
  have "0 < fm" using True fm(2) by (rule less_le_trans)
  then have pred: "unat (fm - 1) = unat fm - 1" "0 < unat fm"
    by (simp_all add: unat_minus_one word_gt_0 unat_gt_0)
  have lt: "k < fm" if "k \<le> fm - 1" for k
    using that pred by (simp add: word_le_nat_alt word_less_nat_alt)
  have "holds f k" if "k \<le> fm - 1" for k
    using lt [OF that] fm(3) by (auto simp: holds_def not_less)
  then show ?thesis
    using True fm(1) ids pred by (auto simp: build_send_ack_def holds_def)
next
  case False
  then show ?thesis by (simp add: build_send_ack_def udp_ack_empty_def)
qed

lemma handle_ack_removed:
  assumes "bt_get (sent g) k \<noteq> None" and "bt_get (sent (handle_ack now ack g)) k = None"
  shows "ack_packet_id ack \<noteq> 0xffffffff \<and>
    (k \<le> ack_packet_id ack \<or>
     (\<exists>i < length (ack_payload ack). ack_payload ack ! i > 0 \<and> k = ack_packet_id ack + 1 + of_nat i))"
  using assms
  by (auto simp: handle_ack_def Let_def remove_acked_get bt_get_retain not_le split: if_splits)

section \<open>Runs over a lossy network\<close>

text \<open>
  \<open>genuine_event\<close>: a data packet that arrives from the camera's address for this connection is one
  the camera really sent. Loss, duplication, reordering, foreign datagrams and acknowledgements of
  any content are unconstrained.
\<close>

definition genuine_event :: "(UdpData \<Rightarrow> bool) \<Rightarrow> 'a UdpPayloadInner \<Rightarrow> 'a run_event \<Rightarrow> bool" where
  "genuine_event G s ev = (case ev of
     SocketItem (Some (Data d, a)) \<Rightarrow>
       a = camera_addr s \<and> data_connection_id d = client_id (flow s) \<longrightarrow> G d
   | _ \<Rightarrow> True)"

inductive udp_run ::
  "(UdpData \<Rightarrow> bool) \<Rightarrow> 'a \<Rightarrow> i32 \<Rightarrow> i32 \<Rightarrow> bytes list \<Rightarrow> 'a UdpPayloadInner \<Rightarrow> bool"
  for G :: "UdpData \<Rightarrow> bool" and addr :: 'a and client camera :: i32 where
  start: "udp_run G addr client camera [] (UdpPayloadInner_new addr client camera)"
| turn: "udp_run G addr client camera out s \<Longrightarrow> genuine_event G s ev \<Longrightarrow>
    run now ev s = Some (Ok (sock, o1, s')) \<Longrightarrow> udp_run G addr client camera (out @ o1) s'"

text \<open>The part of the state that a turn changes before it drains the buffer.\<close>

lemma select_effect:
  assumes "run_select now ev s = Some (Ok (sock, s'))"
  shows "flow_ok (flow s) \<Longrightarrow> flow_ok (flow s')"
    and "packets_want (flow s') = packets_want (flow s)" "client_id (flow s') = client_id (flow s)"
    and "received (flow s') = received (flow s) \<or>
      (\<exists>d. ev = SocketItem (Some (Data d, camera_addr s)) \<and>
           data_connection_id d = client_id (flow s) \<and> data_packet_id d \<noteq> 0xffffffff \<and>
           packets_want (flow s) \<le> data_packet_id d \<and> length (received (flow s)) < REORDER_CAP \<and>
           received (flow s') =
             bt_insert (data_packet_id d) (data_payload d) (received (flow s)))"
  using assms
  by (auto simp: run_select_def insert_ok on_datagram_def enqueue_send_def handle_data_def
      enqueue_chunks_ok handle_ack_ok case_prod_beta
      split: run_event.splits option.splits BcUdp.splits if_splits prod.splits bool.splits)

lemma run_unfold:
  "run now ev s = Some (Ok (sock, out, s')) \<longleftrightarrow>
   (\<exists>s1. run_select now ev s = Some (Ok (sock, s1)) \<and>
     out = fst (drain_contiguous (flow s1)) \<and> s' = s1\<lparr>flow := snd (drain_contiguous (flow s1))\<rparr>)"
  by (auto simp: run_def Let_def split: option.splits sum.splits prod.splits)

lemma drain_fst_snd:
  assumes "flow_ok f"
  shows "unat (packets_want (snd (drain_contiguous f))) =
      unat (packets_want f) + length (fst (drain_contiguous f))"
    and "i < length (fst (drain_contiguous f)) \<Longrightarrow>
      bt_get (received f) (of_nat (unat (packets_want f) + i)) = Some (fst (drain_contiguous f) ! i)"
    and "bt_get (received (snd (drain_contiguous f))) k = Some p \<Longrightarrow> bt_get (received f) k = Some p"
    and "bt_get (received (snd (drain_contiguous f))) (packets_want (snd (drain_contiguous f))) = None"
    and "client_id (snd (drain_contiguous f)) = client_id f"
  using drain_loop_spec [of "received f" "packets_want f"] assms
  by (auto simp: flow_ok_def drain_contiguous_def Let_def split: prod.splits)

lemma run_flow_ok: "run now ev s = Some (Ok (sock, out, s')) \<Longrightarrow> flow_ok (flow s) \<Longrightarrow> flow_ok (flow s')"
  by (auto simp: run_unfold dest: select_effect(1) intro!: drain_ok)

lemma run_flow_client:
  "run now ev s = Some (Ok (sock, out, s')) \<Longrightarrow> flow_ok (flow s) \<Longrightarrow>
   client_id (flow s') = client_id (flow s)"
  using select_effect(1,3) drain_fst_snd(5) by (fastforce simp: run_unfold)

text \<open>The reorder buffer and the output hold what the peer sent under each id.\<close>

definition buffered_from :: "(nat \<Rightarrow> bytes) \<Rightarrow> UdpFlowState \<Rightarrow> bool" where
  "buffered_from pay f \<longleftrightarrow> (\<forall>k p. bt_get (received f) k = Some p \<longrightarrow> p = pay (unat k))"

lemma run_delivers:
  assumes ok: "flow_ok (flow s)" and buf: "buffered_from pay (flow s)"
    and gen: "genuine_event G s ev" and G: "\<And>d. G d \<Longrightarrow> data_payload d = pay (unat (data_packet_id d))"
    and run: "run now ev s = Some (Ok (sock, out, s'))"
  shows "buffered_from pay (flow s')"
    and "out = map pay [unat (packets_want (flow s))..<unat (packets_want (flow s'))]"
proof -
  obtain s1 where s1: "run_select now ev s = Some (Ok (sock, s1))"
    and out: "out = fst (drain_contiguous (flow s1))"
    and s': "s' = s1\<lparr>flow := snd (drain_contiguous (flow s1))\<rparr>"
    using run by (auto simp: run_unfold)
  note eff = select_effect [OF s1]
  have ok1: "flow_ok (flow s1)" using eff(1) ok .
  have buf1: "buffered_from pay (flow s1)"
    using eff(4)
  proof (elim disjE exE conjE)
    fix d assume "ev = SocketItem (Some (Data d, camera_addr s))" "data_connection_id d = client_id (flow s)"
      and r: "received (flow s1) = bt_insert (data_packet_id d) (data_payload d) (received (flow s))"
    then have "data_payload d = pay (unat (data_packet_id d))"
      using gen G by (simp add: genuine_event_def)
    with r buf ok show ?thesis
      by (auto simp: buffered_from_def bt_get_insert flow_ok_def recv_ok_def split: if_splits)
  qed (use buf in \<open>simp add: buffered_from_def\<close>)
  show "buffered_from pay (flow s')"
    using buf1 drain_fst_snd(3) [OF ok1] by (auto simp: s' buffered_from_def)
  have w: "unat (packets_want (flow s')) = unat (packets_want (flow s)) + length out"
    using drain_fst_snd(1) [OF ok1] by (simp add: s' out eff(2))
  show "out = map pay [unat (packets_want (flow s))..<unat (packets_want (flow s'))]"
  proof (rule nth_equalityI)
    fix i assume i: "i < length out"
    let ?k = "unat (packets_want (flow s)) + i"
    have "out ! i = pay (unat (of_nat ?k :: u32))"
      using drain_fst_snd(2) [OF ok1, of i] i buf1 by (simp add: out eff(2) buffered_from_def)
    moreover have "?k < 4294967296"
      using w i unat_lt_u32 [of "packets_want (flow s')"] by simp
    ultimately show "out ! i = map pay [unat (packets_want (flow s))..<unat (packets_want (flow s'))] ! i"
      using i w by (simp del: of_nat_add)
  qed (simp add: w)
qed

lemma udp_run_inv:
  assumes "udp_run G addr client camera out s"
    and "\<And>d. G d \<Longrightarrow> data_payload d = pay (unat (data_packet_id d))"
  shows "flow_ok (flow s) \<and> buffered_from pay (flow s) \<and> client_id (flow s) = client \<and>
     out = map pay [0..<unat (packets_want (flow s))]"
  using assms(1)
proof induction
  case start
  show ?case
    by (simp add: UdpPayloadInner_new_def flow_ok_new)
      (simp add: UdpFlowState_new_def buffered_from_def)
next
  case (turn out s ev now sock o1 s')
  then have ok: "flow_ok (flow s)" and buf: "buffered_from pay (flow s)" by auto
  note del = run_delivers [OF ok buf turn(2) assms(2) turn(3)]
  have "unat (packets_want (flow s)) \<le> unat (packets_want (flow s'))"
    using del(2) turn(3) ok select_effect(1,2) drain_fst_snd(1)
    by (fastforce simp: run_unfold)
  then have "out @ o1 = map pay [0..<unat (packets_want (flow s'))]"
    using turn.IH del(2) by (metis le_add_diff_inverse map_append upt_add_eq_append zero_le)
  then show ?case
    using turn del(1) run_flow_ok [OF turn(3) ok] run_flow_client [OF turn(3) ok] by auto
qed

section \<open>Sending\<close>

lemma enqueue_chunks_ids:
  "map data_packet_id (fst (enqueue_chunks cs f)) =
     map (\<lambda>i. packets_sent f + of_nat i) [0..<length cs]"
proof (induction cs arbitrary: f)
  case (Cons c cs)
  have "map (\<lambda>i. packets_sent f + of_nat i) [0..<Suc (length cs)] =
      packets_sent f # map (\<lambda>i. packets_sent f + 1 + of_nat i) [0..<length cs]"
    by (simp add: upt_conv_Cons map_Suc_upt [symmetric] comp_def add.assoc del: upt_Suc)
  with Cons show ?case by (simp add: Let_def case_prod_beta del: upt_Suc)
qed simp

lemma enqueue_chunks_out:
  "map data_payload (fst (enqueue_chunks cs f)) = cs"
  "d \<in> set (fst (enqueue_chunks cs f)) \<Longrightarrow> data_connection_id d = camera_id f"
  by (induction cs arbitrary: f) (auto simp: Let_def case_prod_beta)

lemma enqueue_chunks_keeps:
  "bt_ok (sent f) \<Longrightarrow> (\<And>i. i < length cs \<Longrightarrow> k \<noteq> packets_sent f + of_nat i) \<Longrightarrow>
   bt_get (sent (snd (enqueue_chunks cs f))) k = bt_get (sent f) k"
proof (induction cs arbitrary: f)
  case (Cons c cs)
  have "k \<noteq> packets_sent f" using Cons.prems(2) [of 0] by simp
  moreover have "k \<noteq> packets_sent f + 1 + of_nat i" if "i < length cs" for i
    using Cons.prems(2) [of "Suc i"] that by (simp add: add.assoc)
  ultimately show ?case
    using Cons by (simp add: Let_def case_prod_beta bt_ok_insert bt_get_insert)
qed simp

lemma enqueue_chunks_bt_ok: "bt_ok (sent f) \<Longrightarrow> bt_ok (sent (snd (enqueue_chunks cs f)))"
  by (induction cs arbitrary: f) (simp_all add: Let_def bt_ok_insert case_prod_beta)

lemma enqueue_chunks_stored:
  "bt_ok (sent f) \<Longrightarrow> length cs \<le> 4294967296 \<Longrightarrow> d \<in> set (fst (enqueue_chunks cs f)) \<Longrightarrow>
   bt_get (sent (snd (enqueue_chunks cs f))) (data_packet_id d) = Some d"
proof (induction cs arbitrary: f)
  case (Cons c cs)
  let ?d = "\<lparr>data_connection_id = camera_id f, data_packet_id = packets_sent f, data_payload = c\<rparr>"
  let ?f = "f\<lparr>packets_sent := packets_sent f + 1, sent := bt_insert (packets_sent f) ?d (sent f)\<rparr>"
  have "packets_sent f \<noteq> packets_sent f + 1 + of_nat i" if "i < length cs" for i
  proof -
    have "unat (of_nat (Suc i) :: u32) = Suc i" using that Cons.prems(2) by (intro unat_of_nat_u32) simp
    then have "(of_nat (Suc i) :: u32) \<noteq> 0" by (metis nat.distinct(1) unsigned_0)
    then show ?thesis by (simp add: add.assoc)
  qed
  then have "bt_get (sent (snd (enqueue_chunks cs ?f))) (packets_sent f) = Some ?d"
    using Cons.prems(1) by (subst enqueue_chunks_keeps) (auto simp: bt_ok_insert bt_get_insert)
  then show ?case
    using Cons by (auto simp: Let_def case_prod_beta bt_ok_insert)
qed simp

section \<open>Properties\<close>

lemma build_send_ack_returns: "flow_ok f \<Longrightarrow> \<exists>a. build_send_ack f = Some a"
  using build_send_ack_spec by blast

lemma on_datagram_returns:
  assumes "flow_ok (flow s)"
  shows "\<exists>s'. on_datagram now item s = Some s'"
proof (cases item)
  case (Data d)
  obtain b f where h: "handle_data d (flow s) = (b, f)" by force
  then obtain a where "build_send_ack f = Some a"
    using handle_data_ok [OF assms, of d] build_send_ack_returns by auto
  then show ?thesis by (cases b) (simp_all add: on_datagram_def Data h)
qed (simp_all add: on_datagram_def)

lemma run_select_returns:
  assumes "flow_ok (flow s)"
  shows "\<exists>r. run_select now ev s = Some r \<and>
    (ev \<noteq> AppItem None \<and> ev \<noteq> SocketItem None \<longrightarrow> is_ok r)"
proof (cases ev)
  case ResendTick
  then show ?thesis
    using build_send_ack_returns [OF assms] by (auto simp: run_select_def)
next
  case (AppItem i)
  then show ?thesis by (cases i) (simp_all add: run_select_def case_prod_beta)
next
  case (SocketItem i)
  then show ?thesis
    using on_datagram_returns [OF assms]
    by (cases i) (fastforce simp: run_select_def split: prod.splits)+
qed

lemma udp_run_flow_ok: "udp_run G addr client camera out s \<Longrightarrow> flow_ok (flow s)"
  by (induction rule: udp_run.induct) (auto simp: UdpPayloadInner_new_def flow_ok_new dest: run_flow_ok)

text \<open>
  C1. In-order, exactly-once delivery. Whatever the network loses, duplicates, reorders or injects
  from elsewhere, the application receives precisely the payloads the camera sent under packet ids
  0, 1, 2, \<dots>, each once and in that order, up to the next id the flow waits for.
\<close>

theorem udp_in_order_delivery:
  assumes "udp_run G addr client camera out s"
    and "\<forall>d. G d \<longrightarrow> data_payload d = pay (unat (data_packet_id d))"
  shows "out = map pay [0..<unat (packets_want (flow s))]"
  using udp_run_inv [OF assms(1), of pay] assms(2) by simp

text \<open>
  C10. No turn of the loop hangs or panics: in every reachable state each event is handled to the
  end, and only a closed channel gives an error. In particular the scan of \<open>build_send_ack\<close>, which
  would spin on packet id \<open>u32::MAX\<close>, always ends.
\<close>

theorem udp_run_returns:
  assumes "udp_run G addr client camera out s"
  shows "\<exists>r. run now ev s = Some r \<and>
    (ev \<noteq> AppItem None \<and> ev \<noteq> SocketItem None \<longrightarrow> is_ok r)"
proof -
  obtain r where r: "run_select now ev s = Some r"
    "ev \<noteq> AppItem None \<and> ev \<noteq> SocketItem None \<longrightarrow> is_ok r"
    using run_select_returns [OF udp_run_flow_ok [OF assms]] by blast
  then show ?thesis
    by (cases r) (auto simp: run_def Let_def split: prod.splits)
qed

text \<open>A concrete run: packet 1 overtakes packet 0.\<close>

definition std_packet :: "u32 \<Rightarrow> UdpData" where
  "std_packet n = \<lparr>data_connection_id = 7, data_packet_id = n, data_payload = [ucast n, 5]\<rparr>"

definition std_flow :: "u32 \<Rightarrow> (u32, bytes) btree \<Rightarrow> nat UdpPayloadInner" where
  "std_flow w r = \<lparr>camera_addr = 80, ack_tx = udp_ack_empty 9,
     flow = (UdpFlowState_new 7 9)\<lparr>packets_want := w, received := r\<rparr>\<rparr>"

lemma std_run_gap: "udp_run (\<lambda>d. d \<in> range std_packet) 80 7 9 [] (std_flow 0 [(1, [1, 5])])"
proof -
  let ?G = "\<lambda>d. d \<in> range std_packet"
  have 0: "udp_run ?G 80 7 9 [] (std_flow 0 [])"
    using udp_run.start [of ?G 80 7 9] by (simp add: UdpPayloadInner_new_def std_flow_def UdpFlowState_new_def)
  have "run 0 (SocketItem (Some (Data (std_packet 1), 80))) (std_flow 0 []) =
      Some (Ok ([], [], std_flow 0 [(1, [1, 5])]))"
    by (simp add: run_def run_select_def on_datagram_def handle_data_def std_flow_def
        std_packet_def UdpFlowState_new_def REORDER_CAP_def build_send_ack_def
        drain_contiguous_def drain_loop.simps bt_get_def)
  from udp_run.turn [OF 0 _ this] show ?thesis
    by (simp add: genuine_event_def)
qed

lemma std_run: "udp_run (\<lambda>d. d \<in> range std_packet) 80 7 9 [[0, 5], [1, 5]] (std_flow 2 [])"
proof -
  have "run 0 (SocketItem (Some (Data (std_packet 0), 80))) (std_flow 0 [(1, [1, 5])]) =
      Some (Ok ([], [[0, 5], [1, 5]], std_flow 2 []))"
    by (simp add: run_def run_select_def on_datagram_def handle_data_def std_flow_def
        std_packet_def UdpFlowState_new_def REORDER_CAP_def build_send_ack_def
        drain_contiguous_def drain_loop.simps bt_get_def bt_remove_def bt_retain_def)
  from udp_run.turn [OF std_run_gap _ this] show ?thesis
    by (simp add: genuine_event_def)
qed

theorem udp_in_order_delivery_witness:
  "[[0, 5], [1, 5]] = map (\<lambda>i. [of_nat i, 5 :: byte]) [0..<unat (packets_want (flow (std_flow 2 [])))]"
proof (rule udp_in_order_delivery [OF std_run])
  have "ucast n = (of_nat (unat n) :: byte)" for n :: u32
    by (simp add: of_nat_unat)
  then show "\<forall>d. d \<in> range std_packet \<longrightarrow> data_payload d = [of_nat (unat (data_packet_id d)), 5]"
    by (auto simp: std_packet_def)
qed

theorem udp_run_returns_witness:
  "\<exists>r. run 3 (ResendTick :: nat run_event) (std_flow 2 []) = Some r \<and> is_ok r"
  using udp_run_returns [OF std_run, of 3 ResendTick] by auto

text \<open>
  C11. Acknowledgements never lie. When the sender processes the acknowledgement a reachable
  receiver builds, every packet it drops from its resend map is one the receiver has already
  delivered or holds in its reorder buffer; so whatever is still missing keeps being resent.
\<close>

theorem udp_ack_sound:
  assumes "udp_run G addr client camera out s" and "build_send_ack (flow s) = Some ack"
    and "bt_get (sent g) k \<noteq> None" and "bt_get (sent (handle_ack now ack g)) k = None"
  shows "k < packets_want (flow s) \<or> bt_contains (received (flow s)) k"
  using build_send_ack_spec [OF udp_run_flow_ok [OF assms(1)]] handle_ack_removed [OF assms(3,4)]
    assms(2) by (auto simp: holds_def)

theorem udp_ack_sound_witness:
  "(1 :: u32) < packets_want (flow (std_flow 2 [])) \<or> bt_contains (received (flow (std_flow 2 []))) 1"
proof (rule udp_ack_sound [OF std_run, where k = 1 and now = 0 and
    ack = "\<lparr>ack_connection_id = 9, ack_group_id = 0, ack_packet_id = 1, ack_maybe_latency = 0, ack_payload = []\<rparr>"
    and g = "(UdpFlowState_new 9 7)\<lparr>sent := [(1, std_packet 1)]\<rparr>"])
  have "first_missing_loop [] 2 = Some 2"
    by (subst first_missing_loop.simps) (simp add: bt_contains_def)
  then show "build_send_ack (flow (std_flow 2 [])) = Some \<lparr>ack_connection_id = 9, ack_group_id = 0,
      ack_packet_id = 1, ack_maybe_latency = 0, ack_payload = []\<rparr>"
    by (simp add: build_send_ack_def std_flow_def UdpFlowState_new_def missing_ids_def get_value_def
        AckLatency_default_def)
qed (simp_all add: bt_get_def handle_ack_def remove_acked_def bt_retain_def)

text \<open>
  Every acknowledgement fits the wire: the bitmap is at most four times the reorder cap,
  whatever id a hostile packet carries, and the packet is well-formed for the datagram codec.
\<close>

theorem udp_ack_bounded:
  assumes "udp_run G addr client camera out s" and "build_send_ack (flow s) = Some ack"
  shows "length (ack_payload ack) \<le> 4096 \<and> wf_bcudp U (Ack ack)"
proof -
  have "length (ack_payload ack) \<le> 4096"
    using build_send_ack_spec [OF udp_run_flow_ok [OF assms(1)]] assms(2) by auto
  moreover have "ack_group_id ack = 0 \<or> ack_group_id ack = 0xffffffff"
    using assms(2) by (auto simp: build_send_ack_def udp_ack_empty_def split: if_splits option.splits)
  ultimately show ?thesis by (simp add: wf_bcudp_def)
qed

theorem udp_ack_bounded_witness:
  "\<exists>ack. build_send_ack (flow (std_flow 2 [])) = Some ack \<and>
     length (ack_payload ack) \<le> 4096 \<and> wf_bcudp std_udp (Ack ack)"
proof -
  obtain ack where "build_send_ack (flow (std_flow 2 [])) = Some ack"
    using build_send_ack_returns [OF udp_run_flow_ok [OF std_run]] by blast
  with udp_ack_bounded [OF std_run this] show ?thesis by blast
qed

text \<open>
  The reorder buffer is bounded: in every reachable state it holds at most 1024 packets,
  all at or above the wanted id and none with the id \<open>u32::MAX\<close>.
\<close>

theorem udp_reorder_bounded:
  assumes "udp_run G addr client camera out s"
  shows "received_len (flow s) \<le> 1024 \<and>
    (\<forall>k. bt_contains (received (flow s)) k \<longrightarrow> packets_want (flow s) \<le> k \<and> k \<noteq> 0xffffffff)"
  using udp_run_flow_ok [OF assms]
  by (auto simp: flow_ok_def recv_ok_def received_len_def REORDER_CAP_def bt_contains_def
      bt_keys_def)

theorem udp_reorder_bounded_witness:
  "received_len (flow (std_flow 0 [(1, [1, 5])])) \<le> 1024 \<and>
   packets_want (flow (std_flow 0 [(1, [1, 5])])) \<le> 1 \<and> (1 :: u32) \<noteq> 0xffffffff"
  using udp_reorder_bounded [OF std_run_gap] by (simp add: std_flow_def bt_contains_def)

text \<open>
  Sending. An application buffer is cut into datagrams of at most 1330 payload bytes that
  concatenate to it, numbered consecutively from the flow's counter (wrapping at 2^32), addressed
  to the camera's connection, and every one of them is kept for resending.
\<close>

theorem udp_enqueue_faithful:
  assumes "enqueue_send p f = (ps, f')" and "bt_ok (sent f)" and "length ps < 2 ^ 32"
  shows "concat (map data_payload ps) = p \<and>
    map data_packet_id ps = map (\<lambda>i. packets_sent f + of_nat i) [0..<length ps] \<and>
    (\<forall>d\<in>set ps. data_payload d \<noteq> [] \<and> length (data_payload d) \<le> 1330 \<and>
       data_connection_id d = camera_id f \<and> d \<in> set (resend_packets f'))"
proof -
  let ?cs = "chunks 1330 p"
  have ps: "ps = fst (enqueue_chunks ?cs f)" and f': "f' = snd (enqueue_chunks ?cs f)"
    using assms(1) by (simp_all add: enqueue_send_def MTU_def UDPDATA_HEADER_SIZE_def)
  have pay: "map data_payload ps = ?cs"
    by (simp add: ps enqueue_chunks_out(1))
  then have len: "length ?cs = length ps" by (metis length_map)
  have "bt_ok (sent f')"
    unfolding f' using assms(2) by (rule enqueue_chunks_bt_ok)
  then have "d \<in> set (resend_packets f')" if "d \<in> set ps" for d
    using enqueue_chunks_stored [OF assms(2), of ?cs d] that assms(3) len
    by (auto simp: resend_packets_def bt.vals_iff ps f')
  moreover have "data_payload d \<in> set ?cs" if "d \<in> set ps" for d
    using that pay by (metis image_eqI set_map)
  ultimately show ?thesis
    using enqueue_chunks_ids [of ?cs f] pay len concat_chunks [of 1330 p]
      enqueue_chunks_out(2) [of _ ?cs f] chunks_bounds [of _ 1330 p]
    by (auto simp: ps)
qed

text \<open>
  Progress. While the reorder buffer is below its cap, the arrival of the packet the flow
  waits for delivers it in that very turn, followed by everything that became contiguous, and the
  flow then waits for an id it does not have.
\<close>

theorem udp_progress:
  assumes "udp_run G addr client camera out s" and "received_len (flow s) < 1024"
    and "data_connection_id d = client_id (flow s)" and "data_packet_id d = packets_want (flow s)"
    and "data_packet_id d \<noteq> 0xffffffff"
  shows "\<exists>o1 s'. run now (SocketItem (Some (Data d, camera_addr s))) s = Some (Ok ([], o1, s')) \<and>
    o1 \<noteq> [] \<and> hd o1 = data_payload d \<and>
    unat (packets_want (flow s')) = unat (packets_want (flow s)) + length o1 \<and>
    \<not> bt_contains (received (flow s')) (packets_want (flow s'))"
proof -
  note ok = udp_run_flow_ok [OF assms(1)]
  let ?f = "(flow s)\<lparr>received := bt_insert (data_packet_id d) (data_payload d) (received (flow s))\<rparr>"
  have len: "length (received (flow s)) < REORDER_CAP"
    using assms(2) by (simp add: received_len_def REORDER_CAP_def)
  then have okf: "flow_ok ?f" using insert_ok [OF ok _ assms(5)] assms(4) by simp
  obtain a where "build_send_ack ?f = Some a" using build_send_ack_returns [OF okf] by blast
  then have run: "run now (SocketItem (Some (Data d, camera_addr s))) s =
      Some (Ok ([], fst (drain_contiguous ?f),
        s\<lparr>flow := snd (drain_contiguous ?f), ack_tx := a\<rparr>))"
    using assms(3-5) len by (simp add: run_def run_select_def on_datagram_def handle_data_def
        case_prod_beta Let_def)
  have get: "bt_get (received ?f) (packets_want ?f) = Some (data_payload d)"
    using ok assms(4) by (simp add: bt_get_insert flow_ok_def recv_ok_def)
  then have "fst (drain_contiguous ?f) \<noteq> [] \<and> hd (fst (drain_contiguous ?f)) = data_payload d"
    by (simp add: drain_contiguous_def drain_loop.simps [of _ "packets_want (flow s)"] Let_def
        case_prod_beta)
  moreover have "\<not> bt_contains (received (snd (drain_contiguous ?f))) (packets_want (snd (drain_contiguous ?f)))"
    using drain_fst_snd(4) [OF okf] drain_ok [OF okf]
    by (simp add: bt_contains_iff flow_ok_def recv_ok_def)
  ultimately show ?thesis
    using run drain_fst_snd(1) [OF okf] by simp
qed

text \<open>
  C36. The reorder buffer can deadlock. Once it is full while the wanted packet is missing, no
  event whatsoever delivers anything or changes the buffer again: the retransmission of the very
  packet that would free the buffer is refused because the buffer is full.
\<close>

theorem udp_reorder_deadlock:
  assumes "udp_run G addr client camera out s" and "received_len (flow s) = 1024"
    and "\<not> bt_contains (received (flow s)) (packets_want (flow s))"
    and "run now ev s = Some (Ok (sock, o1, s'))"
  shows "o1 = [] \<and> packets_want (flow s') = packets_want (flow s) \<and>
    received (flow s') = received (flow s)"
proof -
  obtain s1 where s1: "run_select now ev s = Some (Ok (sock, s1))"
    and o1: "o1 = fst (drain_contiguous (flow s1))"
    and s': "s' = s1\<lparr>flow := snd (drain_contiguous (flow s1))\<rparr>"
    using assms(4) by (auto simp: run_unfold)
  have same: "received (flow s1) = received (flow s)" "packets_want (flow s1) = packets_want (flow s)"
    using select_effect(2,4) [OF s1] assms(2) by (auto simp: received_len_def REORDER_CAP_def)
  have "bt_get (received (flow s)) (packets_want (flow s)) = None"
    using assms(3) by (auto simp: bt_contains_def bt_get_def map_of_eq_None_iff)
  then show ?thesis
    by (simp add: o1 s' drain_contiguous_def drain_loop.simps same)
qed

theorem udp_enqueue_faithful_witness:
  "concat (map data_payload (fst (enqueue_send (replicate 1331 7) (UdpFlowState_new 7 9)))) =
     replicate 1331 7 \<and>
   map data_packet_id (fst (enqueue_send (replicate 1331 7) (UdpFlowState_new 7 9))) = [0, 1] \<and>
   fst (enqueue_send (replicate 1331 7) (UdpFlowState_new 7 9)) \<noteq> []"
proof -
  let ?e = "enqueue_send (replicate 1331 7) (UdpFlowState_new 7 9)"
  have "chunks 1330 (replicate 1331 (7 :: byte)) = [replicate 1330 7, [7]]"
    by (simp add: chunks.simps numeral_eq_Suc [of num.One])
  then have len: "length (fst ?e) = 2"
    by (simp add: enqueue_send_def MTU_def UDPDATA_HEADER_SIZE_def Let_def case_prod_beta)
  have "bt_ok (sent (UdpFlowState_new 7 9))" by (simp add: UdpFlowState_new_def)
  from udp_enqueue_faithful [OF _ this, of "replicate 1331 7" "fst ?e" "snd ?e"] len
  show ?thesis by (auto simp: UdpFlowState_new_def upt_conv_Cons)
qed

theorem udp_progress_witness:
  "\<exists>o1 s'. run 0 (SocketItem (Some (Data (std_packet 0), 80))) (std_flow 0 [(1, [1, 5])]) =
      Some (Ok ([], o1, s')) \<and> o1 \<noteq> [] \<and> hd o1 = [0, 5] \<and>
    unat (packets_want (flow s')) = 0 + length o1 \<and>
    \<not> bt_contains (received (flow s')) (packets_want (flow s'))"
  using udp_progress [OF std_run_gap, of "std_packet 0" 0]
  by (simp add: std_flow_def UdpFlowState_new_def std_packet_def received_len_def)

text \<open>Packets 1 to \<open>n\<close> arrive while packet 0 is lost.\<close>

definition flood :: "nat \<Rightarrow> (u32, bytes) btree" where
  "flood n = map (\<lambda>i. (of_nat i, [])) [1..<Suc n]"

lemma bt_insert_last: "\<forall>e\<in>set m. fst e < k \<Longrightarrow> bt_insert k v m = m @ [(k, v)]"
  by (induction m) auto

lemma flood_gap: "n \<le> 1024 \<Longrightarrow> \<not> bt_contains (flood n) 0"
  by (auto simp: flood_def bt_contains_def of_nat_u32_eq_0 simp del: upt_Suc
      dest!: sym [of "0 :: u32"])

lemma flood_run: "n \<le> 1024 \<Longrightarrow> udp_run (\<lambda>_. True) 80 7 9 [] (std_flow 0 (flood n))"
proof (induction n)
  case 0
  show ?case
    using udp_run.start [of "\<lambda>_. True" 80 7 9]
    by (simp add: UdpPayloadInner_new_def std_flow_def UdpFlowState_new_def flood_def)
next
  case (Suc n)
  let ?d = "\<lparr>data_connection_id = 7, data_packet_id = of_nat (Suc n), data_payload = []\<rparr>"
  have u: "unat (of_nat i :: u32) = i" if "i \<le> 1024" for i
    using that by (intro unat_of_nat_u32) simp
  have "\<forall>e\<in>set (flood n). fst e < (of_nat (Suc n) :: u32)"
    using Suc.prems u by (auto simp: flood_def word_less_nat_alt simp del: of_nat_Suc)
  then have ins: "bt_insert (of_nat (Suc n)) [] (flood n) = flood (Suc n)"
    using bt_insert_last [of "flood n"] by (simp add: flood_def)
  have "bt_get (flood (Suc n)) 0 = None"
    using flood_gap [OF Suc.prems] by (simp add: bt_get_def bt_contains_def map_of_eq_None_iff)
  moreover have "(of_nat (Suc n) :: u32) \<noteq> 0xffffffff"
    using u [of "Suc n"] Suc.prems by (auto simp: u32_max_iff simp del: of_nat_Suc)
  moreover have "length (flood n) = n" by (simp add: flood_def)
  ultimately have "run 0 (SocketItem (Some (Data ?d, 80))) (std_flow 0 (flood n)) =
      Some (Ok ([], [], std_flow 0 (flood (Suc n))))"
    using Suc.prems ins
    by (simp add: run_def run_select_def on_datagram_def handle_data_def std_flow_def
        UdpFlowState_new_def REORDER_CAP_def build_send_ack_def drain_contiguous_def
        drain_loop.simps del: of_nat_Suc)
  from udp_run.turn [OF Suc.IH _ this] Suc.prems show ?case
    by (simp add: genuine_event_def)
qed

theorem udp_reorder_deadlock_witness:
  "\<exists>s'. run 0 (SocketItem (Some (Data (std_packet 0), 80))) (std_flow 0 (flood 1024)) =
      Some (Ok ([], [], s')) \<and> packets_want (flow s') = 0 \<and> received (flow s') = flood 1024"
proof -
  note reach = flood_run [OF order_refl]
  have full: "received_len (flow (std_flow 0 (flood 1024))) = 1024"
    by (simp add: received_len_def std_flow_def flood_def)
  have gap: "\<not> bt_contains (received (flow (std_flow 0 (flood 1024)))) (packets_want (flow (std_flow 0 (flood 1024))))"
    using flood_gap [of 1024] by (simp add: std_flow_def UdpFlowState_new_def)
  have "run 0 (SocketItem (Some (Data (std_packet 0), 80))) (std_flow 0 (flood 1024)) =
      Some (Ok ([], fst (drain_contiguous (flow (std_flow 0 (flood 1024)))),
        (std_flow 0 (flood 1024))\<lparr>flow := snd (drain_contiguous (flow (std_flow 0 (flood 1024))))\<rparr>))"
    using full by (simp add: run_def run_select_def on_datagram_def handle_data_def std_flow_def
        received_len_def REORDER_CAP_def Let_def case_prod_beta UdpFlowState_new_def)
  from udp_reorder_deadlock [OF reach full gap this] this show ?thesis
    by (simp add: std_flow_def UdpFlowState_new_def)
qed

text \<open>
  The receive counter does not wrap. A flow that waits for packet id \<open>u32::MAX\<close> never delivers
  anything again: that id is always refused, although the counter is documented to wrap there.
\<close>

theorem udp_counter_stalls:
  assumes "flow_ok (flow s)" and "packets_want (flow s) = 0xffffffff"
    and "run now ev s = Some (Ok (sock, o1, s'))"
  shows "o1 = [] \<and> packets_want (flow s') = 0xffffffff"
proof -
  obtain s1 where s1: "run_select now ev s = Some (Ok (sock, s1))"
    and o1: "o1 = fst (drain_contiguous (flow s1))"
    and s': "s' = s1\<lparr>flow := snd (drain_contiguous (flow s1))\<rparr>"
    using assms(3) by (auto simp: run_unfold)
  have "recv_ok (received (flow s1)) 0xffffffff" and want: "packets_want (flow s1) = 0xffffffff"
    using select_effect(1,2) [OF s1] assms(1,2) by (auto simp: flow_ok_def)
  then have "bt_get (received (flow s1)) 0xffffffff = None"
    using recv_ok_get [of "received (flow s1)" "0xffffffff" "0xffffffff"]
    by (cases "bt_get (received (flow s1)) 0xffffffff") auto
  then show ?thesis
    by (simp add: o1 s' drain_contiguous_def drain_loop.simps want)
qed

theorem udp_counter_stalls_witness:
  "\<exists>s'. run 0 (SocketItem (Some (Data (std_packet 0xffffffff), 80))) (std_flow 0xffffffff []) =
     Some (Ok ([], [], s')) \<and> packets_want (flow s') = 0xffffffff"
proof -
  let ?s = "std_flow 0xffffffff []"
  have ok: "flow_ok (flow ?s)" "packets_want (flow ?s) = 0xffffffff"
    by (simp_all add: flow_ok_def recv_ok_def std_flow_def UdpFlowState_new_def bt_keys_def)
  have "run 0 (SocketItem (Some (Data (std_packet 0xffffffff), 80))) ?s =
      Some (Ok ([], fst (drain_contiguous (flow ?s)), ?s\<lparr>flow := snd (drain_contiguous (flow ?s))\<rparr>))"
    by (simp add: run_def run_select_def on_datagram_def handle_data_def std_flow_def
        std_packet_def Let_def case_prod_beta UdpFlowState_new_def)
  from udp_counter_stalls [OF ok this] this show ?thesis by simp
qed

section \<open>The flow as a byte stream\<close>

lemma length_chunks_le: "0 < n \<Longrightarrow> length (chunks n xs) \<le> length xs"
proof (induction n xs rule: chunks.induct)
  case (1 n xs)
  show ?case
  proof (cases "xs = []")
    case False
    then have "length (chunks n (drop n xs)) \<le> length xs - n" and "0 < length xs"
      using 1 by auto
    then have "Suc (length (chunks n (drop n xs))) \<le> length xs"
      using 1(2) by linarith
    with False 1(2) show ?thesis by (simp add: chunks.simps [of n xs])
  qed simp
qed

text \<open>
  A message cut by \<open>enqueue_send\<close> on one side and reassembled by a run on the other: at any moment
  the bytes delivered so far are a prefix of it, and all of it once the last id has been passed.
\<close>

lemma udp_stream_prefix:
  assumes send: "enqueue_send msg (UdpFlowState_new a client) = (ps, f')"
    and len: "length ps < 4294967296"
    and run: "udp_run (\<lambda>d. d \<in> set ps) addr client camera out s"
  shows "\<exists>rest. msg = concat out @ rest"
    and "length ps \<le> unat (packets_want (flow s)) \<Longrightarrow> concat out = msg"
proof -
  let ?cs = "chunks 1330 msg"
  define pay where "pay i = (if i < length ?cs then ?cs ! i else [])" for i
  have ps: "ps = fst (enqueue_chunks ?cs (UdpFlowState_new a client))"
    using send by (simp add: enqueue_send_def MTU_def UDPDATA_HEADER_SIZE_def)
  have cs: "map data_payload ps = ?cs" and n: "length ?cs = length ps"
    by (simp add: ps enqueue_chunks_out(1)) (metis enqueue_chunks_out(1) length_map ps)
  have ids: "map data_packet_id ps = map of_nat [0..<length ps]"
    using enqueue_chunks_ids [of ?cs "UdpFlowState_new a client"] n
    by (simp add: ps UdpFlowState_new_def)
  have "data_payload d = pay (unat (data_packet_id d))" if "d \<in> set ps" for d
  proof -
    obtain i where i: "i < length ps" "d = ps ! i" using \<open>d \<in> set ps\<close> by (metis in_set_conv_nth)
    then have "data_packet_id d = of_nat i" using ids by (metis (no_types) add_0 diff_zero length_upt nth_map nth_upt)
    with i len cs n show ?thesis by (simp add: pay_def) (metis nth_map)
  qed
  from udp_run_inv [OF run this] have out: "out = map pay [0..<unat (packets_want (flow s))]" by blast
  have pre: "concat (map pay [0..<w]) = concat (take w ?cs)" for w
  proof (cases "w \<le> length ?cs")
    case True
    then have "map pay [0..<w] = take w ?cs"
      by (intro nth_equalityI) (auto simp: pay_def)
    then show ?thesis by simp
  next
    case False
    then have "[0..<w] = [0..<length ?cs] @ [length ?cs..<w]"
      by (metis le_add_diff_inverse nat_le_linear upt_add_eq_append zero_le)
    moreover have "map pay [0..<length ?cs] = ?cs"
      by (intro nth_equalityI) (auto simp: pay_def)
    ultimately show ?thesis using False by (simp add: pay_def concat_eq_Nil_conv)
  qed
  have msg: "msg = concat ?cs" by (simp add: concat_chunks)
  show "\<exists>rest. msg = concat out @ rest"
    unfolding out pre by (metis append_take_drop_id concat_append msg)
  show "concat out = msg" if "length ps \<le> unat (packets_want (flow s))"
    using that unfolding out pre n [symmetric] by (simp add: msg [symmetric])
qed

section \<open>The latency statistic\<close>

lemma average_fold:
  fixes acc :: u32 and vs :: "u32 list"
  assumes "n < 4294967296" and "0 < n" and "\<forall>k \<le> length vs. unat acc + k * (4294967295 div n) \<le> 4294967295"
  shows "unat (foldl (\<lambda>a v. a + v div of_nat n) acc vs) = unat acc + sum_list (map (\<lambda>v. unat v div n) vs)"
  using assms(3)
proof (induction vs arbitrary: acc)
  case (Cons v vs)
  have dv: "unat (v div of_nat n :: u32) = unat v div n"
    using assms(1) by (simp add: unat_div)
  have le: "unat v div n \<le> 4294967295 div n"
    using unat_lt_u32 [of v] by (intro div_le_mono) simp
  have step: "unat (acc + v div of_nat n) = unat acc + unat v div n"
    using spec [OF Cons.prems, of 1] le dv unat_add_lem [of acc "v div of_nat n"] by simp
  have "unat (acc + v div of_nat n) + k * (4294967295 div n) \<le> 4294967295" if "k \<le> length vs" for k
    using spec [OF Cons.prems, of "Suc k"] that le step by simp
  with Cons.IH [of "acc + v div of_nat n"] step show ?case by simp
qed simp

text \<open>
  The latency average is computed without overflow or division by zero: for any window of
  fewer than 2^32 samples it is the sum of the samples' shares, and stays below 2^32.
\<close>

theorem ack_latency_no_overflow:
  assumes "length vs < 2 ^ 32"
  shows "unat (latency_average vs) = sum_list (map (\<lambda>v. unat v div length vs) vs)"
proof (cases "vs = []")
  case False
  let ?n = "length vs"
  have "k * (4294967295 div ?n) \<le> 4294967295" if "k \<le> ?n" for k
  proof -
    have "k * (4294967295 div ?n) \<le> ?n * (4294967295 div ?n)" using that by simp
    also have "\<dots> \<le> 4294967295" by (metis mult.commute div_times_less_eq_dividend)
    finally show ?thesis .
  qed
  then show ?thesis
    using average_fold [of ?n vs 0] assms False by (simp add: latency_average_def Let_def)
qed (simp add: latency_average_def)

theorem ack_latency_no_overflow_witness:
  "unat (latency_average [0xffffffff, 0xffffffff]) = 4294967294"
  using ack_latency_no_overflow [of "[0xffffffff, 0xffffffff]"]
  by (simp add: numeral_2_eq_2 [symmetric])

end
