(* ===== verification/Bc_Stream.thy ===== *)
theory Bc_Stream
  imports Bc_Codec Udp_Flow
begin

text \<open>
  Control messages over the UDP byte stream: the framing parser of \<open>BcCodex\<close> fed with whatever the
  flow has delivered so far (\<open>UdpSource\<close> wraps the flow in a \<open>Framed\<close> with that codec). The locale
  \<open>byte_pipe\<close> is the contract between the two: the bytes delivered are always a prefix of those sent.
\<close>

section \<open>The contract of a byte stream\<close>

locale byte_pipe =
  fixes reach :: "bytes \<Rightarrow> bytes \<Rightarrow> bool"
  assumes delivered_prefix: "reach sent_bytes got \<Longrightarrow> \<exists>rest. sent_bytes = got @ rest"
begin

text \<open>An incremental parser at the far end sees the whole frame or asks for more.\<close>

lemma framed_parse:
  assumes "reach msg got" and "incremental p" and "p msg = Ok ([], x)"
  shows "if got = msg then p got = Ok ([], x) else (\<exists>k. p got = Err (NIncomplete k))"
proof -
  obtain rest where rest: "msg = got @ rest" using delivered_prefix assms(1) by blast
  then have "got = take (length got) msg" by simp
  moreover have "got \<noteq> msg \<Longrightarrow> length got < length msg" using rest by auto
  ultimately show ?thesis
    using proper_prefix_incomplete [OF assms(2,3)] assms(3) by metis
qed

end

definition udp_delivers :: "bytes \<Rightarrow> bytes \<Rightarrow> bool" where
  "udp_delivers msg got \<longleftrightarrow>
     (\<exists>a client camera addr ps f' out (s :: nat UdpPayloadInner).
        enqueue_send msg (UdpFlowState_new a client) = (ps, f') \<and> length ps < 4294967296 \<and>
        udp_run (\<lambda>d. d \<in> set ps) addr client camera out s \<and> got = concat out)"

interpretation udp_pipe: byte_pipe udp_delivers
  by unfold_locales (auto simp: udp_delivers_def dest!: udp_stream_prefix(1))

section \<open>Length of an encoded message\<close>

context bc_codec_lib
begin

lemma length_bc_serialize:
  assumes "bc_serialize L prot bc = Ok bs" and "ser_bc_body L prot bc = Ok (b, off)"
  shows "length bs \<le> 24 + length b"
  using assms by (auto simp: bc_serialize_def ser_bc_header_def ser_opt_def split: option.splits)

lemma length_wf_serialize:
  assumes "wf_modern L enc bin bc" and "bc_serialize L (encode_protocol enc (meta bc)) bc = Ok bs"
  shows "length bs < 4294967296"
proof -
  obtain b off where "ser_bc_body L (encode_protocol enc (meta bc)) bc = Ok (b, off)" "length b \<le> 8388608"
    using assms(1) by (auto simp: wf_modern_def split: BcBody.splits sum.splits)
  with length_bc_serialize [OF assms(2)] show ?thesis by fastforce
qed

end

section \<open>Properties\<close>

lemma length_enqueue_send: "enqueue_send p f = (ps, f') \<Longrightarrow> length ps \<le> length p"
  using length_chunks_le [of 1330 p] enqueue_chunks_out(1) [of "chunks 1330 p" f]
  by (auto simp: enqueue_send_def MTU_def UDPDATA_HEADER_SIZE_def) (metis fst_conv length_map)


definition std_logout :: "unit Bc" where "std_logout = Bc_new (std_meta 2 5 0) None None"

definition std_frame :: bytes where
  "std_frame = ser_bc_header std_bc (from_meta (std_meta 2 5 0) 0 (Some 0))"

definition std_datagram :: UdpData where
  "std_datagram = \<lparr>data_connection_id = 7, data_packet_id = 0, data_payload = std_frame\<rparr>"


end
