(* ===== verification/Bcmedia.thy ===== *)
theory Bcmedia
  imports Bc_Model
begin

text \<open>
  The media codec (\<open>src/baichuan/bcmedia\<close>): stream info, video and audio packets with their 8-byte
  padding, the parser, the \<open>Encoder\<close>/\<open>Decoder\<close> with its resynchronisation, and the durations that
  are computed from audio packets.
\<close>

section \<open>Data model\<close>

definition MAGIC_HEADER_BCMEDIA_INFO_V1 :: u32 where "MAGIC_HEADER_BCMEDIA_INFO_V1 = 0x31303031"
definition MAGIC_HEADER_BCMEDIA_INFO_V2 :: u32 where "MAGIC_HEADER_BCMEDIA_INFO_V2 = 0x32303031"
definition MAGIC_HEADER_BCMEDIA_IFRAME :: u32 where "MAGIC_HEADER_BCMEDIA_IFRAME = 0x63643030"
definition MAGIC_HEADER_BCMEDIA_IFRAME_LAST :: u32 where
  "MAGIC_HEADER_BCMEDIA_IFRAME_LAST = 0x63643039"
definition MAGIC_HEADER_BCMEDIA_PFRAME :: u32 where "MAGIC_HEADER_BCMEDIA_PFRAME = 0x63643130"
definition MAGIC_HEADER_BCMEDIA_PFRAME_LAST :: u32 where
  "MAGIC_HEADER_BCMEDIA_PFRAME_LAST = 0x63643139"
definition MAGIC_HEADER_BCMEDIA_AAC :: u32 where "MAGIC_HEADER_BCMEDIA_AAC = 0x62773530"
definition MAGIC_HEADER_BCMEDIA_ADPCM :: u32 where "MAGIC_HEADER_BCMEDIA_ADPCM = 0x62773130"
definition MAGIC_HEADER_BCMEDIA_ADPCM_DATA :: u16 where "MAGIC_HEADER_BCMEDIA_ADPCM_DATA = 0x0100"

lemmas media_magics =
  MAGIC_HEADER_BCMEDIA_INFO_V1_def MAGIC_HEADER_BCMEDIA_INFO_V2_def
  MAGIC_HEADER_BCMEDIA_IFRAME_def MAGIC_HEADER_BCMEDIA_IFRAME_LAST_def
  MAGIC_HEADER_BCMEDIA_PFRAME_def MAGIC_HEADER_BCMEDIA_PFRAME_LAST_def
  MAGIC_HEADER_BCMEDIA_AAC_def MAGIC_HEADER_BCMEDIA_ADPCM_def

record BcMediaInfoV1 =
  i1_video_width :: u32
  i1_video_height :: u32
  i1_fps :: u8
  i1_start_year :: u8
  i1_start_month :: u8
  i1_start_day :: u8
  i1_start_hour :: u8
  i1_start_min :: u8
  i1_start_seconds :: u8
  i1_end_year :: u8
  i1_end_month :: u8
  i1_end_day :: u8
  i1_end_hour :: u8
  i1_end_min :: u8
  i1_end_seconds :: u8

record BcMediaInfoV2 =
  i2_video_width :: u32
  i2_video_height :: u32
  i2_fps :: u8
  i2_start_year :: u8
  i2_start_month :: u8
  i2_start_day :: u8
  i2_start_hour :: u8
  i2_start_min :: u8
  i2_start_seconds :: u8
  i2_end_year :: u8
  i2_end_month :: u8
  i2_end_day :: u8
  i2_end_hour :: u8
  i2_end_min :: u8
  i2_end_seconds :: u8

datatype VideoType = H264 | H265

record BcMediaIframe =
  if_video_type :: VideoType
  if_microseconds :: u32
  if_time :: "u32 option"
  if_data :: bytes

record BcMediaPframe =
  pf_video_type :: VideoType
  pf_microseconds :: u32
  pf_data :: bytes

record BcMediaAac =
  aac_data :: bytes

record BcMediaAdpcm =
  adpcm_data :: bytes

datatype (plugins only: code) BcMedia =
    InfoV1 BcMediaInfoV1
  | InfoV2 BcMediaInfoV2
  | Iframe BcMediaIframe
  | Pframe BcMediaPframe
  | Aac BcMediaAac
  | Adpcm BcMediaAdpcm

section \<open>Durations\<close>

text \<open>\<open>BcMediaAac::duration\<close>; the array accesses are guarded by the length check.\<close>

definition aac_sample_frequency :: "byte \<Rightarrow> u32 option" where
  "aac_sample_frequency i =
     (if i < 13 then Some ([96000, 88200, 64000, 48000, 44100, 32000, 24000, 22050, 16000, 12000,
                            11025, 8000, 7350] ! unat i)
      else None)"

definition aac_duration :: "BcMediaAac \<Rightarrow> u32 option" where
  "aac_duration a =
     (let d = aac_data a
      in if length d < 8 then None
         else if d ! 0 \<noteq> 0xff then None
         else if d ! 1 AND 0xf0 \<noteq> 0xf0 then None
         else case aac_sample_frequency (drop_bit 2 (d ! 2 AND 0x3c)) of
                None \<Rightarrow> None
              | Some sample_frequency \<Rightarrow>
                  (let frames = (d ! 6 AND 0x03) + 1;
                       samples = ucast frames * 1024
                   in Some (samples * 1000000 div sample_frequency)))"

definition block_size :: "BcMediaAdpcm \<Rightarrow> u32" where
  "block_size a = of_nat (length (adpcm_data a)) - 4"

definition adpcm_duration :: "BcMediaAdpcm \<Rightarrow> u32 option" where
  "adpcm_duration a = (let samples = block_size a * 2 in Some (samples * 1000000 div 8000))"

section \<open>Serialiser\<close>

definition PAD_SIZE :: nat where "PAD_SIZE = 8"

definition pad_size :: "u32 \<Rightarrow> nat" where
  "pad_size n = (case unat n mod PAD_SIZE of 0 \<Rightarrow> 0 | Suc k \<Rightarrow> PAD_SIZE - Suc k)"

definition ser_info_v1 :: "'z wire_scheme \<Rightarrow> BcMediaInfoV1 \<Rightarrow> bytes" where
  "ser_info_v1 W p =
     wr_u32 W MAGIC_HEADER_BCMEDIA_INFO_V1 @ wr_u32 W 32 @ wr_u32 W (i1_video_width p) @
     wr_u32 W (i1_video_height p) @ wr_u8 W 0 @
     wr_u8 W (i1_fps p) @ wr_u8 W (i1_start_year p) @
     wr_u8 W (i1_start_month p) @ wr_u8 W (i1_start_day p) @
     wr_u8 W (i1_start_hour p) @ wr_u8 W (i1_start_min p) @
     wr_u8 W (i1_start_seconds p) @ wr_u8 W (i1_end_year p) @
     wr_u8 W (i1_end_month p) @ wr_u8 W (i1_end_day p) @
     wr_u8 W (i1_end_hour p) @ wr_u8 W (i1_end_min p) @
     wr_u8 W (i1_end_seconds p) @
     wr_u8 W 0 @ wr_u8 W 0"

definition ser_info_v2 :: "'z wire_scheme \<Rightarrow> BcMediaInfoV2 \<Rightarrow> bytes" where
  "ser_info_v2 W p =
     wr_u32 W MAGIC_HEADER_BCMEDIA_INFO_V2 @ wr_u32 W 32 @ wr_u32 W (i2_video_width p) @
     wr_u32 W (i2_video_height p) @ wr_u8 W 0 @
     wr_u8 W (i2_fps p) @ wr_u8 W (i2_start_year p) @
     wr_u8 W (i2_start_month p) @ wr_u8 W (i2_start_day p) @
     wr_u8 W (i2_start_hour p) @ wr_u8 W (i2_start_min p) @
     wr_u8 W (i2_start_seconds p) @ wr_u8 W (i2_end_year p) @
     wr_u8 W (i2_end_month p) @ wr_u8 W (i2_end_day p) @
     wr_u8 W (i2_end_hour p) @ wr_u8 W (i2_end_min p) @
     wr_u8 W (i2_end_seconds p) @
     wr_u8 W 0 @ wr_u8 W 0"

definition vid_string :: "VideoType \<Rightarrow> bytes" where
  "vid_string t = string_bytes (case t of H264 \<Rightarrow> ''H264'' | H265 \<Rightarrow> ''H265'')"

definition ser_iframe :: "'z wire_scheme \<Rightarrow> BcMediaIframe \<Rightarrow> bytes" where
  "ser_iframe W p =
     (let (extra_header, extra_header_size) =
            (case if_time p of
               Some payload_time \<Rightarrow> (to_le32 payload_time @ to_le32 0, 8)
             | None \<Rightarrow> ([], 0))
      in wr_u32 W MAGIC_HEADER_BCMEDIA_IFRAME @ vid_string (if_video_type p) @
         wr_u32 W (of_nat (length (if_data p))) @ wr_u32 W extra_header_size @
         wr_u32 W (if_microseconds p) @ wr_u32 W 0 @ extra_header)"

definition ser_pframe :: "'z wire_scheme \<Rightarrow> BcMediaPframe \<Rightarrow> bytes" where
  "ser_pframe W p =
     wr_u32 W MAGIC_HEADER_BCMEDIA_PFRAME @ vid_string (pf_video_type p) @
     wr_u32 W (of_nat (length (pf_data p))) @ wr_u32 W 0 @
     wr_u32 W (pf_microseconds p) @ wr_u32 W 0"

definition ser_aac :: "'z wire_scheme \<Rightarrow> BcMediaAac \<Rightarrow> bytes" where
  "ser_aac W p =
     wr_u32 W MAGIC_HEADER_BCMEDIA_AAC @ wr_u16 W (of_nat (length (aac_data p))) @
     wr_u16 W (of_nat (length (aac_data p)))"

text \<open>\<open>None\<close>: \<open>payload.data.len() - 4\<close> underflows (fewer than four data bytes).\<close>

definition ser_adpcm :: "'z wire_scheme \<Rightarrow> BcMediaAdpcm \<Rightarrow> bytes option" where
  "ser_adpcm W p =
     (let n = length (adpcm_data p)
      in if n < 4 then None
         else Some (wr_u32 W MAGIC_HEADER_BCMEDIA_ADPCM @ wr_u16 W (of_nat (n + 4)) @
                    wr_u16 W (of_nat (n + 4)) @ wr_u16 W MAGIC_HEADER_BCMEDIA_ADPCM_DATA @
                    wr_u16 W (of_nat ((n - 4) div 2))))"

definition padded :: "bytes \<Rightarrow> bytes" where
  "padded d = d @ replicate (pad_size (of_nat (length d))) 0"

fun bcmedia_serialize :: "'z wire_scheme \<Rightarrow> BcMedia \<Rightarrow> bytes option" where
  "bcmedia_serialize W (InfoV1 p) = Some (ser_info_v1 W p)"
| "bcmedia_serialize W (InfoV2 p) = Some (ser_info_v2 W p)"
| "bcmedia_serialize W (Iframe p) = Some (ser_iframe W p @ padded (if_data p))"
| "bcmedia_serialize W (Pframe p) = Some (ser_pframe W p @ padded (pf_data p))"
| "bcmedia_serialize W (Aac p) = Some (ser_aac W p @ padded (aac_data p))"
| "bcmedia_serialize W (Adpcm p) =
     map_option (\<lambda>h. h @ padded (adpcm_data p)) (ser_adpcm W p)"

section \<open>Parser\<close>

definition bcmedia_info_v1 :: "'z wire_scheme \<Rightarrow> BcMediaInfoV1 parser" where
  "bcmedia_info_v1 W =
     pbind (verify (rd_u32 W) (\<lambda>x. x = 32)) (\<lambda>header_size.
     pbind (rd_u32 W) (\<lambda>width. pbind (rd_u32 W) (\<lambda>height. pbind (rd_u8 W) (\<lambda>unknown.
     pbind (rd_u8 W) (\<lambda>fps. pbind (rd_u8 W) (\<lambda>start_year.
     pbind (rd_u8 W) (\<lambda>start_month. pbind (rd_u8 W) (\<lambda>start_day.
     pbind (rd_u8 W) (\<lambda>start_hour. pbind (rd_u8 W) (\<lambda>start_min.
     pbind (rd_u8 W) (\<lambda>start_seconds. pbind (rd_u8 W) (\<lambda>end_year.
     pbind (rd_u8 W) (\<lambda>end_month. pbind (rd_u8 W) (\<lambda>end_day.
     pbind (rd_u8 W) (\<lambda>end_hour. pbind (rd_u8 W) (\<lambda>end_min.
     pbind (rd_u8 W) (\<lambda>end_seconds.
     pbind (rd_u16 W) (\<lambda>unknown_b.
     pret \<lparr>i1_video_width = width, i1_video_height = height,
       i1_fps = fps, i1_start_year = start_year, i1_start_month = start_month,
       i1_start_day = start_day, i1_start_hour = start_hour, i1_start_min = start_min,
       i1_start_seconds = start_seconds, i1_end_year = end_year, i1_end_month = end_month,
       i1_end_day = end_day, i1_end_hour = end_hour, i1_end_min = end_min,
       i1_end_seconds = end_seconds\<rparr>))))))))))))))))))"

definition bcmedia_info_v2 :: "'z wire_scheme \<Rightarrow> BcMediaInfoV2 parser" where
  "bcmedia_info_v2 W =
     pbind (verify (rd_u32 W) (\<lambda>x. x = 32)) (\<lambda>header_size.
     pbind (rd_u32 W) (\<lambda>width. pbind (rd_u32 W) (\<lambda>height. pbind (rd_u8 W) (\<lambda>unknown.
     pbind (rd_u8 W) (\<lambda>fps. pbind (rd_u8 W) (\<lambda>start_year.
     pbind (rd_u8 W) (\<lambda>start_month. pbind (rd_u8 W) (\<lambda>start_day.
     pbind (rd_u8 W) (\<lambda>start_hour. pbind (rd_u8 W) (\<lambda>start_min.
     pbind (rd_u8 W) (\<lambda>start_seconds. pbind (rd_u8 W) (\<lambda>end_year.
     pbind (rd_u8 W) (\<lambda>end_month. pbind (rd_u8 W) (\<lambda>end_day.
     pbind (rd_u8 W) (\<lambda>end_hour. pbind (rd_u8 W) (\<lambda>end_min.
     pbind (rd_u8 W) (\<lambda>end_seconds.
     pbind (rd_u16 W) (\<lambda>unknown_b.
     pret \<lparr>i2_video_width = width, i2_video_height = height,
       i2_fps = fps, i2_start_year = start_year, i2_start_month = start_month,
       i2_start_day = start_day, i2_start_hour = start_hour, i2_start_min = start_min,
       i2_start_seconds = start_seconds, i2_end_year = end_year, i2_end_month = end_month,
       i2_end_day = end_day, i2_end_hour = end_hour, i2_end_min = end_min,
       i2_end_seconds = end_seconds\<rparr>))))))))))))))))))"

definition take4 :: "'z wire_scheme \<Rightarrow> string parser" where
  "take4 W = map_res (rd_take W 4) from_utf8"

definition video_type_p :: "'z wire_scheme \<Rightarrow> string parser" where
  "video_type_p W = verify (take4 W) (\<lambda>x. x = ''H264'' \<or> x = ''H265'')"

definition video_type_of :: "string \<Rightarrow> VideoType option" where
  "video_type_of s = (if s = ''H264'' then Some H264 else if s = ''H265'' then Some H265 else None)"

definition bcmedia_iframe :: "'z wire_scheme \<Rightarrow> BcMediaIframe parser" where
  "bcmedia_iframe W =
     pbind (video_type_p W) (\<lambda>video_type_str.
     pbind (rd_u32 W) (\<lambda>payload_size.
     pbind (rd_u32 W) (\<lambda>additional_header_size.
     pbind (rd_u32 W) (\<lambda>microseconds.
     pbind (rd_u32 W) (\<lambda>unknown_b.
     pbind (cond_p (additional_header_size \<ge> 4) (rd_u32 W)) (\<lambda>time.
     pbind (cond_p (additional_header_size > 4)
              (rd_take W (unat (additional_header_size - 4)))) (\<lambda>unknown_remained.
     pbind (rd_take W (unat payload_size)) (\<lambda>data_slice.
     pbind (rd_take W (pad_size payload_size)) (\<lambda>padding.
     case video_type_of video_type_str of
       None \<Rightarrow> pfail NFailure
     | Some vt \<Rightarrow> pret \<lparr>if_video_type = vt, if_microseconds = microseconds, if_time = time,
                        if_data = data_slice\<rparr>)))))))))"

definition bcmedia_pframe :: "'z wire_scheme \<Rightarrow> BcMediaPframe parser" where
  "bcmedia_pframe W =
     pbind (video_type_p W) (\<lambda>video_type_str.
     pbind (rd_u32 W) (\<lambda>payload_size.
     pbind (rd_u32 W) (\<lambda>additional_header_size.
     pbind (rd_u32 W) (\<lambda>microseconds.
     pbind (rd_u32 W) (\<lambda>unknown_b.
     pbind (rd_take W (unat additional_header_size)) (\<lambda>additional_header.
     pbind (rd_take W (unat payload_size)) (\<lambda>data_slice.
     pbind (rd_take W (pad_size payload_size)) (\<lambda>padding.
     case video_type_of video_type_str of
       None \<Rightarrow> pfail NFailure
     | Some vt \<Rightarrow> pret \<lparr>pf_video_type = vt, pf_microseconds = microseconds,
                        pf_data = data_slice\<rparr>))))))))"

definition bcmedia_aac :: "'z wire_scheme \<Rightarrow> BcMediaAac parser" where
  "bcmedia_aac W =
     pbind (rd_u16 W) (\<lambda>payload_size.
     pbind (rd_u16 W) (\<lambda>payload_size_b.
     pbind (rd_take W (unat payload_size)) (\<lambda>data_slice.
     pbind (rd_take W (pad_size (ucast payload_size))) (\<lambda>padding.
     pret \<lparr>aac_data = data_slice\<rparr>))))"

definition SUB_HEADER_SIZE :: u16 where "SUB_HEADER_SIZE = 4"

definition bcmedia_adpcm :: "'z wire_scheme \<Rightarrow> BcMediaAdpcm parser" where
  "bcmedia_adpcm W =
     pbind (verify (rd_u16 W) (\<lambda>n. n \<ge> SUB_HEADER_SIZE)) (\<lambda>payload_size.
     pbind (rd_u16 W) (\<lambda>payload_size_b.
     pbind (verify (rd_u16 W) (\<lambda>x. x = MAGIC_HEADER_BCMEDIA_ADPCM_DATA)) (\<lambda>magic.
     pbind (rd_u16 W) (\<lambda>half_block_size.
     pbind (rd_take W (unat (payload_size - SUB_HEADER_SIZE))) (\<lambda>data_slice.
     pbind (rd_take W (pad_size (ucast payload_size))) (\<lambda>padding.
     pret \<lparr>adpcm_data = data_slice\<rparr>))))))"

definition is_iframe_magic :: "u32 \<Rightarrow> bool" where
  "is_iframe_magic x \<longleftrightarrow>
     MAGIC_HEADER_BCMEDIA_IFRAME \<le> x \<and> x \<le> MAGIC_HEADER_BCMEDIA_IFRAME_LAST"

definition is_pframe_magic :: "u32 \<Rightarrow> bool" where
  "is_pframe_magic x \<longleftrightarrow>
     MAGIC_HEADER_BCMEDIA_PFRAME \<le> x \<and> x \<le> MAGIC_HEADER_BCMEDIA_PFRAME_LAST"

definition bcmedia :: "'z wire_scheme \<Rightarrow> BcMedia parser" where
  "bcmedia W =
     pbind (verify (rd_u32 W) (\<lambda>x. x = MAGIC_HEADER_BCMEDIA_INFO_V1 \<or>
              x = MAGIC_HEADER_BCMEDIA_INFO_V2 \<or> is_iframe_magic x \<or> is_pframe_magic x \<or>
              x = MAGIC_HEADER_BCMEDIA_AAC \<or> x = MAGIC_HEADER_BCMEDIA_ADPCM)) (\<lambda>magic.
     if magic = MAGIC_HEADER_BCMEDIA_INFO_V1 then pbind (bcmedia_info_v1 W) (\<lambda>p. pret (InfoV1 p))
     else if magic = MAGIC_HEADER_BCMEDIA_INFO_V2 then pbind (bcmedia_info_v2 W) (\<lambda>p. pret (InfoV2 p))
     else if is_iframe_magic magic then pbind (bcmedia_iframe W) (\<lambda>p. pret (Iframe p))
     else if is_pframe_magic magic then pbind (bcmedia_pframe W) (\<lambda>p. pret (Pframe p))
     else if magic = MAGIC_HEADER_BCMEDIA_AAC then pbind (bcmedia_aac W) (\<lambda>p. pret (Aac p))
     else if magic = MAGIC_HEADER_BCMEDIA_ADPCM then pbind (bcmedia_adpcm W) (\<lambda>p. pret (Adpcm p))
     else pfail NFailure)"

definition bcmedia_deserialize :: "'z wire_scheme \<Rightarrow> bytes \<Rightarrow> (bc_error + BcMedia) \<times> bytes" where
  "bcmedia_deserialize W buf = deserialize_with (bcmedia W) buf"

section \<open>Codec\<close>

record BcMediaCodex =
  strict :: bool
  amount_skipped :: usize

definition BcMediaCodex_new :: "bool \<Rightarrow> BcMediaCodex" where
  "BcMediaCodex_new s = \<lparr>strict = s, amount_skipped = 0\<rparr>"

definition BcMediaCodex_encode ::
  "'z wire_scheme \<Rightarrow> BcMediaCodex \<Rightarrow> BcMedia \<Rightarrow> bytes \<Rightarrow> bytes option" where
  "BcMediaCodex_encode W c item dst = map_option (\<lambda>buf. dst @ buf) (bcmedia_serialize W item)"

function BcMediaCodex_decode ::
  "'z wire_scheme \<Rightarrow> BcMediaCodex \<Rightarrow> bytes \<Rightarrow> (bc_error + BcMedia option) \<times> BcMediaCodex \<times> bytes" where
  "BcMediaCodex_decode W c src =
     (case bcmedia_deserialize W src of
        (Inr bc, src') \<Rightarrow> (Ok (Some bc), c\<lparr>amount_skipped := 0\<rparr>, src')
      | (Inl (NomIncomplete _), src') \<Rightarrow> (Ok None, c\<lparr>amount_skipped := 0\<rparr>, src')
      | (Inl e, src') \<Rightarrow>
          if strict c then (Err e, c, src')
          else if src = [] then (Ok None, c, src')
          else BcMediaCodex_decode W (c\<lparr>amount_skipped := amount_skipped c + length src\<rparr>) [])"
  by pat_completeness auto
termination
  by (relation "measure (\<lambda>(W, c, src). length src)") auto

declare BcMediaCodex_decode.simps [simp del]

definition BcMediaCodex_decode_eof ::
  "'z wire_scheme \<Rightarrow> BcMediaCodex \<Rightarrow> bytes \<Rightarrow> (bc_error + BcMedia option) \<times> BcMediaCodex \<times> bytes" where
  "BcMediaCodex_decode_eof W c buf = BcMediaCodex_decode W c buf"

section \<open>Correctness\<close>

lemma pad_size_alt: "pad_size n = (8 - unat n mod 8) mod 8"
proof -
  have "unat n mod 8 < 8" by simp
  then show ?thesis
    by (cases "unat n mod 8") (simp_all add: pad_size_def PAD_SIZE_def)
qed

lemma pad_size_of_nat: "n < 4294967296 \<Longrightarrow> pad_size (of_nat n) = (8 - n mod 8) mod 8"
  by (simp add: pad_size_alt)

lemma vid_string_parse:
  "length (vid_string t) = 4" "utf8_valid (vid_string t)"
  "bytes_string (vid_string t) = (case t of H264 \<Rightarrow> ''H264'' | H265 \<Rightarrow> ''H265'')"
proof -
  show "length (vid_string t) = 4" by (cases t) (simp_all add: vid_string_def)
  show "utf8_valid (vid_string t)" by (cases t) (simp_all add: vid_string_def string_bytes_def)
  show "bytes_string (vid_string t) = (case t of H264 \<Rightarrow> ''H264'' | H265 \<Rightarrow> ''H265'')"
    by (cases t) (simp_all add: vid_string_def)
qed

text \<open>The packets whose length fields can hold their data.\<close>

definition wf_media :: "BcMedia \<Rightarrow> bool" where
  "wf_media m = (case m of
     Iframe p \<Rightarrow> length (if_data p) < 4294967296
   | Pframe p \<Rightarrow> length (pf_data p) < 4294967296
   | Aac p \<Rightarrow> length (aac_data p) < 65536
   | Adpcm p \<Rightarrow> False
   | _ \<Rightarrow> True)"

context wire_lib
begin

lemma incremental_bcmedia: "incremental (bcmedia W)"
  unfolding bcmedia_def bcmedia_info_v1_def bcmedia_info_v2_def bcmedia_iframe_def bcmedia_pframe_def
    bcmedia_aac_def bcmedia_adpcm_def video_type_p_def take4_def
  by (intro stream_intros reader_intros)

lemma video_type_parse:
  "video_type_p W (vid_string t @ rest) = Ok (rest, case t of H264 \<Rightarrow> ''H264'' | H265 \<Rightarrow> ''H265'')"
  by (cases t) (simp_all add: video_type_p_def verify_def take4_def map_res_def pbind_def
      vid_string_parse from_utf8_def)

lemma info_v1_parse: "bcmedia W (ser_info_v1 W p @ rest) = Ok (rest, InfoV1 p)"
proof -
  have z: "wr_u8 W 0 @ wr_u8 W 0 @ rest = wr_u16 W 0 @ rest"
    by (simp add: writers to_le16_def)
  show ?thesis
    by (simp add: ser_info_v1_def bcmedia_def bcmedia_info_v1_def pbind_def z)
qed

lemma info_v2_parse: "bcmedia W (ser_info_v2 W p @ rest) = Ok (rest, InfoV2 p)"
proof -
  have z: "wr_u8 W 0 @ wr_u8 W 0 @ rest = wr_u16 W 0 @ rest"
    by (simp add: writers to_le16_def)
  show ?thesis
    by (simp add: ser_info_v2_def bcmedia_def bcmedia_info_v2_def pbind_def z media_magics)
qed

lemma media_dispatch:
  "bcmedia W (wr_u32 W MAGIC_HEADER_BCMEDIA_IFRAME @ r) = pbind (bcmedia_iframe W) (\<lambda>p. pret (Iframe p)) r"
  "bcmedia W (wr_u32 W MAGIC_HEADER_BCMEDIA_PFRAME @ r) = pbind (bcmedia_pframe W) (\<lambda>p. pret (Pframe p)) r"
  "bcmedia W (wr_u32 W MAGIC_HEADER_BCMEDIA_AAC @ r) = pbind (bcmedia_aac W) (\<lambda>p. pret (Aac p)) r"
  "bcmedia W (wr_u32 W MAGIC_HEADER_BCMEDIA_ADPCM @ r) = pbind (bcmedia_adpcm W) (\<lambda>p. pret (Adpcm p)) r"
  by (simp_all add: bcmedia_def is_iframe_magic_def is_pframe_magic_def media_magics)

lemma iframe_parse:
  assumes "length (if_data p) < 4294967296"
  shows "bcmedia W (ser_iframe W p @ padded (if_data p) @ rest) = Ok (rest, Iframe p)"
proof -
  have vt: "video_type_of (case t of H264 \<Rightarrow> ''H264'' | H265 \<Rightarrow> ''H265'') = Some t" for t
    by (cases t) (simp_all add: video_type_of_def)
  show ?thesis
    using assms
    by (cases "if_time p")
      (simp_all add: ser_iframe_def media_dispatch bcmedia_iframe_def video_type_parse padded_def
        cond_p_def vt pbind_def write_u32 [symmetric])
qed

lemma pframe_parse:
  assumes "length (pf_data p) < 4294967296"
  shows "bcmedia W (ser_pframe W p @ padded (pf_data p) @ rest) = Ok (rest, Pframe p)"
proof -
  have vt: "video_type_of (case t of H264 \<Rightarrow> ''H264'' | H265 \<Rightarrow> ''H265'') = Some t" for t
    by (cases t) (simp_all add: video_type_of_def)
  show ?thesis
    using assms
    by (simp add: ser_pframe_def media_dispatch bcmedia_pframe_def video_type_parse padded_def
        vt pbind_def)
qed

lemma aac_parse:
  assumes "length (aac_data p) < 65536"
  shows "bcmedia W (ser_aac W p @ padded (aac_data p) @ rest) = Ok (rest, Aac p)"
proof -
  have "ucast (of_nat (length (aac_data p)) :: u16) = (of_nat (length (aac_data p)) :: u32)"
    using assms by (metis of_nat_unat unat_of_nat_u16)
  then show ?thesis
    using assms by (simp add: ser_aac_def media_dispatch bcmedia_aac_def padded_def pbind_def)
qed

lemma bcmedia_nonempty: "bcmedia_serialize W m = Some bs \<Longrightarrow> bs \<noteq> []"
  by (cases m) (auto simp: ser_info_v1_def ser_info_v2_def ser_iframe_def ser_pframe_def ser_aac_def
      ser_adpcm_def case_prod_beta Let_def split: if_splits)

lemma bcmedia_parse_serialize:
  assumes "wf_media m"
  shows "\<exists>bs. bcmedia_serialize W m = Some bs \<and> bcmedia W (bs @ rest) = Ok (rest, m)"
  using assms
  by (cases m)
    (simp_all add: wf_media_def info_v1_parse info_v2_parse iframe_parse pframe_parse aac_parse)

lemma pad_shift:
  fixes n :: nat
  defines "s \<equiv> (8 - n mod 8) mod 8" and "p \<equiv> (8 - (n + 4) mod 8) mod 8"
  shows "if n mod 8 \<in> {1, 2, 3, 4} then s = p + 4 else p = s + 4"
proof -
  define r where "r = n mod 8"
  have eq: "(n + 4) mod 8 = (r + 4) mod 8" by (simp add: r_def mod_add_left_eq)
  have "r < 8" by (simp add: r_def)
  then have "r = 0 \<or> r = 1 \<or> r = 2 \<or> r = 3 \<or> r = 4 \<or> r = 5 \<or> r = 6 \<or> r = 7" by arith
  then show ?thesis
    unfolding s_def p_def r_def [symmetric] eq by (elim disjE) simp_all
qed

lemma adpcm_parse:
  assumes "4 \<le> length d" and "length d < 65532" and "4 \<le> length rest"
  shows "\<exists>bs. bcmedia_serialize W (Adpcm \<lparr>adpcm_data = d\<rparr>) = Some bs \<and>
    bcmedia W (bs @ rest) = Ok (if length d mod 8 \<in> {1, 2, 3, 4} then replicate 4 0 @ rest
      else drop 4 rest, Adpcm \<lparr>adpcm_data = d\<rparr>)"
proof -
  let ?n = "length d"
  let ?s = "(8 - ?n mod 8) mod 8" and ?p = "(8 - (?n + 4) mod 8) mod 8"
  have u: "unat (of_nat (?n + 4) :: u16) = ?n + 4" using assms(2) by (intro unat_of_nat_u16) simp
  have ge: "SUB_HEADER_SIZE \<le> (of_nat (?n + 4) :: u16)"
    using u by (simp add: SUB_HEADER_SIZE_def word_le_nat_alt)
  have sub: "(of_nat (?n + 4) :: u16) - SUB_HEADER_SIZE = of_nat ?n" by (simp add: SUB_HEADER_SIZE_def)
  have bs: "unat (of_nat ?n :: u16) = ?n" using assms(2) by (intro unat_of_nat_u16) simp
  have pd: "pad_size (ucast (of_nat (?n + 4) :: u16)) = ?p"
    using u by (simp add: pad_size_alt del: of_nat_add)
  have ps: "pad_size (of_nat ?n) = ?s" using assms(2) by (simp add: pad_size_of_nat)
  define left where "left = (if ?n mod 8 \<in> {1, 2, 3, 4} then replicate 4 0 @ rest else drop 4 rest)"
  have "\<exists>used. replicate ?s 0 @ rest = used @ left \<and> length used = ?p"
  proof (cases "?n mod 8 \<in> {1, 2, 3, 4}")
    case True
    then have "?s = ?p + 4" using pad_shift [of ?n] by presburger
    with True show ?thesis
      by (intro exI [of _ "replicate ?p 0"]) (simp only: left_def replicate_add if_True append_assoc length_replicate)
  next
    case False
    then have "?p = ?s + 4" using pad_shift [of ?n] by presburger
    with False assms(3) show ?thesis
      by (intro exI [of _ "replicate ?s 0 @ take 4 rest"])
        (simp only: left_def if_False append_assoc append_take_drop_id length_append length_replicate
          length_take min.absorb2)
  qed
  then obtain used where used: "replicate ?s 0 @ rest = used @ left" "length used = ?p" by blast
  then have tail: "rd_take W ?p (replicate ?s 0 @ rest) = Ok (left, used)" by simp
  have "4 \<le> ?n" using assms(1) .
  then show ?thesis
    unfolding left_def [symmetric] using ge
    by (simp add: ser_adpcm_def Let_def padded_def ps media_dispatch bcmedia_adpcm_def sub bs pd
        pbind_def tail del: of_nat_add)
qed

end

section \<open>Properties\<close>

lemma media_decode_complete:
  assumes "wire_lib W" and "bcmedia W src = Ok (rest, m)"
  shows "BcMediaCodex_decode W c src = (Ok (Some m), c\<lparr>amount_skipped := 0\<rparr>, rest)"
  using deserialize_with_ok [OF wire_lib.incremental_bcmedia [OF assms(1)] assms(2)]
  by (subst BcMediaCodex_decode.simps) (simp add: bcmedia_deserialize_def)

text \<open>
  C29. Round trip of the media codec for stream info, video and AAC packets: what the encoder
  writes, the decoder reads back, whatever follows it, including the padding rule and the optional
  POSIX time of an I-frame.
\<close>

theorem bcmedia_codec_roundtrip:
  assumes "wire_lib W" and "wf_media m"
  shows "\<exists>bs. BcMediaCodex_encode W c m dst = Some (dst @ bs) \<and>
    BcMediaCodex_decode W d (bs @ rest) = (Ok (Some m), d\<lparr>amount_skipped := 0\<rparr>, rest)"
  using wire_lib.bcmedia_parse_serialize [OF assms, of rest] media_decode_complete [OF assms(1)]
  by (auto simp: BcMediaCodex_encode_def)

theorem bcmedia_codec_roundtrip_witness:
  "\<exists>bs. BcMediaCodex_encode std_wire (BcMediaCodex_new True)
      (Iframe \<lparr>if_video_type = H265, if_microseconds = 40000, if_time = Some 1700000000,
               if_data = [0, 0, 0, 1, 0x40]\<rparr>) [9] = Some ([9] @ bs) \<and>
    BcMediaCodex_decode std_wire (BcMediaCodex_new True) (bs @ [1]) =
      (Ok (Some (Iframe \<lparr>if_video_type = H265, if_microseconds = 40000, if_time = Some 1700000000,
               if_data = [0, 0, 0, 1, 0x40]\<rparr>)), (BcMediaCodex_new True)\<lparr>amount_skipped := 0\<rparr>, [1])"
  by (rule bcmedia_codec_roundtrip [OF std.wire_lib_axioms]) (simp add: wf_media_def)

text \<open>
  Resynchronisation. Bytes that cannot start a packet end a strict decoder with the error and
  the buffer untouched; a lenient decoder discards the whole buffer, asks for more and never fails.
\<close>

theorem bcmedia_resync:
  assumes "wire_lib W" and "bcmedia W src = Err e" and "\<forall>n. e \<noteq> NIncomplete n"
  shows "BcMediaCodex_decode W c src =
    (if strict c then (Err NomError, c, src) else (Ok None, c\<lparr>amount_skipped := 0\<rparr>, []))"
proof -
  have e: "error_from_nom e = NomError" using assms(3) by (cases e) auto
  have mt: "bcmedia W [] = Err (NIncomplete 4)"
    by (simp add: bcmedia_def verify_def pbind_def wire_lib.read_u32 [OF assms(1)])
  then have nil: "BcMediaCodex_decode W c' [] = (Ok None, c'\<lparr>amount_skipped := 0\<rparr>, [])" for c'
    by (subst BcMediaCodex_decode.simps) (simp add: bcmedia_deserialize_def deserialize_with_err)
  have "src \<noteq> []" using assms(2,3) mt by auto
  then show ?thesis
    using assms(2) e nil
    by (subst BcMediaCodex_decode.simps) (simp add: bcmedia_deserialize_def deserialize_with_err)
qed

theorem bcmedia_resync_witness:
  "BcMediaCodex_decode std_wire (BcMediaCodex_new False) [1, 2, 3, 4, 5] =
     (Ok None, (BcMediaCodex_new False)\<lparr>amount_skipped := 0\<rparr>, [])"
proof -
  have "bcmedia std_wire [1, 2, 3, 4, 5] = Err NError"
    by (simp add: bcmedia_def verify_def pbind_def std_wire_def is_iframe_magic_def
        is_pframe_magic_def media_magics)
  from bcmedia_resync [OF std.wire_lib_axioms this, of "BcMediaCodex_new False"] show ?thesis
    by (simp add: BcMediaCodex_new_def)
qed

text \<open>
  ADPCM packets keep their data but shift the framing. For every block the encoder accepts the
  decoder returns the block, yet leaves either four stray zero bytes in front of the next packet or
  has eaten its first four bytes, depending on the block length.
\<close>

theorem adpcm_frame_shift:
  assumes "wire_lib W" and "4 \<le> length d" and "length d < 65532" and "4 \<le> length rest"
  shows "\<exists>bs. BcMediaCodex_encode W c (Adpcm \<lparr>adpcm_data = d\<rparr>) [] = Some bs \<and>
    BcMediaCodex_decode W c (bs @ rest) = (Ok (Some (Adpcm \<lparr>adpcm_data = d\<rparr>)),
      c\<lparr>amount_skipped := 0\<rparr>,
      if length d mod 8 \<in> {1, 2, 3, 4} then replicate 4 0 @ rest else drop 4 rest)"
proof -
  obtain bs where ser: "bcmedia_serialize W (Adpcm \<lparr>adpcm_data = d\<rparr>) = Some bs"
    and parse: "bcmedia W (bs @ rest) = Ok (if length d mod 8 \<in> {1, 2, 3, 4} then replicate 4 0 @ rest
      else drop 4 rest, Adpcm \<lparr>adpcm_data = d\<rparr>)"
    using wire_lib.adpcm_parse [OF assms] by blast
  show ?thesis
  proof (intro exI conjI)
    show "BcMediaCodex_encode W c (Adpcm \<lparr>adpcm_data = d\<rparr>) [] = Some bs"
      unfolding BcMediaCodex_encode_def ser by simp
  qed (rule media_decode_complete [OF assms(1) parse])
qed

theorem adpcm_frame_shift_witness:
  "\<exists>bs. BcMediaCodex_encode std_wire (BcMediaCodex_new True) (Adpcm \<lparr>adpcm_data = [1, 2, 3, 4]\<rparr>) [] = Some bs \<and>
    BcMediaCodex_decode std_wire (BcMediaCodex_new True) (bs @ [5, 6, 7, 8]) =
      (Ok (Some (Adpcm \<lparr>adpcm_data = [1, 2, 3, 4]\<rparr>)), BcMediaCodex_new True,
       replicate 4 0 @ [5, 6, 7, 8])"
  using adpcm_frame_shift [OF std.wire_lib_axioms, of "[1, 2, 3, 4]" "[5, 6, 7, 8]" "BcMediaCodex_new True"]
  by (simp add: BcMediaCodex_new_def)

text \<open>
  The AAC duration is exact: for every packet whose ADTS header is accepted the 32-bit
  computation does not overflow.
\<close>

theorem aac_duration_exact:
  assumes "aac_duration a = Some us"
  shows "\<exists>f. aac_sample_frequency (drop_bit 2 (aac_data a ! 2 AND 0x3c)) = Some f \<and>
    unat us = (unat (aac_data a ! 6 AND 0x03) + 1) * 1024 * 1000000 div unat f"
proof -
  let ?b = "aac_data a ! 6 AND 0x03"
  obtain f where f: "aac_sample_frequency (drop_bit 2 (aac_data a ! 2 AND 0x3c)) = Some f"
    and us: "us = ucast (?b + 1) * 1024 * 1000000 div f"
    using assms by (auto simp: aac_duration_def Let_def split: if_splits option.splits)
  have "?b \<le> 3" by (rule word_and_le1)
  then have b: "unat ?b \<le> 3" by (simp add: word_le_nat_alt)
  then have fr: "unat (ucast (?b + 1) :: u32) = unat ?b + 1"
    using unat_add_lem [of ?b 1] by simp
  have m1: "unat (ucast (?b + 1) * 1024 :: u32) = (unat ?b + 1) * 1024"
    using unat_mult_lem [of "ucast (?b + 1) :: u32" 1024] fr b by simp
  have "unat (ucast (?b + 1) * 1024 * 1000000 :: u32) = (unat ?b + 1) * 1024 * 1000000"
    using unat_mult_lem [of "ucast (?b + 1) * 1024 :: u32" 1000000] m1 b by simp
  then show ?thesis using f by (simp add: us unat_div)
qed

theorem aac_duration_exact_witness:
  "\<exists>f. aac_sample_frequency (drop_bit 2 ((0x4c :: byte) AND 0x3c)) = Some f \<and>
    unat (21333 :: u32) = (unat ((0xfc :: byte) AND 0x03) + 1) * 1024 * 1000000 div unat f"
  using aac_duration_exact [of "\<lparr>aac_data = [0xff, 0xf1, 0x4c, 0x40, 0, 0x1f, 0xfc, 0]\<rparr>" 21333]
  by (simp add: aac_duration_def aac_sample_frequency_def)

text \<open>
  The ADPCM duration is right for blocks of up to 2147 sample bytes and wrong for every longer
  one the parser can return: there the 32-bit product of samples and microseconds wraps.
\<close>

theorem adpcm_duration_range:
  assumes "4 \<le> length (adpcm_data a)" and "length (adpcm_data a) < 65536"
  shows "(\<exists>us. adpcm_duration a = Some us \<and> unat us = (length (adpcm_data a) - 4) * 250) \<longleftrightarrow>
    length (adpcm_data a) \<le> 2151"
proof -
  let ?n = "length (adpcm_data a) - 4"
  let ?us = "block_size a * 2 * 1000000 div 8000"
  have bs: "unat (block_size a) = ?n"
    using assms by (simp add: block_size_def unat_sub word_le_nat_alt)
  have small: "?n < 65536" using assms(2) by simp
  have m1: "unat (block_size a * 2) = ?n * 2"
    using unat_mult_lem [of "block_size a" 2] bs small by simp
  have us: "unat ?us = unat (block_size a * 2 * 1000000) div 8000" by (simp add: unat_div)
  show ?thesis
  proof (cases "?n \<le> 2147")
    case True
    then have "unat (block_size a * 2 * 1000000) = ?n * 2 * 1000000"
      using unat_mult_lem [of "block_size a * 2" 1000000] m1 by simp
    with True us show ?thesis using assms(1) by (auto simp: adpcm_duration_def Let_def)
  next
    case False
    have "unat ?us \<le> 536870"
      using unat_lt_u32 [of "block_size a * 2 * 1000000"] us by simp
    with False show ?thesis using assms(1) by (auto simp: adpcm_duration_def Let_def)
  qed
qed

theorem adpcm_duration_range_witness:
  "\<not> (\<exists>us. adpcm_duration \<lparr>adpcm_data = replicate 2152 0\<rparr> = Some us \<and> unat us = 537000)"
  using adpcm_duration_range [of "\<lparr>adpcm_data = replicate 2152 0\<rparr>"] by simp

end
