(* ===== verification/Nal.thy ===== *)
theory Nal
  imports Prelude
begin

text \<open>
  NAL units (\<open>src/rtsp/codec/nal.rs\<close>): splitting an Annex-B byte stream at its start codes, the
  whitelist of units that are forwarded, and the codec heuristic.
\<close>

datatype VideoCodec = CH264 | CH265

section \<open>Annex-B splitting\<close>

definition three_byte :: "bytes \<Rightarrow> nat \<Rightarrow> bool" where
  "three_byte s i \<longleftrightarrow> s ! i = 0 \<and> s ! (i + 1) = 0 \<and> s ! (i + 2) = 1"

definition four_byte :: "bytes \<Rightarrow> nat \<Rightarrow> bool" where
  "four_byte s i \<longleftrightarrow> i + 3 < length s \<and> s ! i = 0 \<and> s ! (i + 1) = 0 \<and> s ! (i + 2) = 0 \<and>
     s ! (i + 3) = 1"

text \<open>\<open>nals.push(&stream[start..i])\<close> when a unit is open and not empty.\<close>

definition close_nal :: "bytes \<Rightarrow> nat option \<Rightarrow> nat \<Rightarrow> bytes list" where
  "close_nal s nal_start i = (case nal_start of
     None \<Rightarrow> []
   | Some start \<Rightarrow> if i > start then [take (i - start) (drop start s)] else [])"

function split_loop :: "bytes \<Rightarrow> nat \<Rightarrow> nat option \<Rightarrow> bytes list" where
  "split_loop s i nal_start =
     (if i + 2 < length s then
        if four_byte s i then close_nal s nal_start i @ split_loop s (i + 4) (Some (i + 4))
        else if three_byte s i then close_nal s nal_start i @ split_loop s (i + 3) (Some (i + 3))
        else split_loop s (i + 1) nal_start
      else (case nal_start of
              None \<Rightarrow> []
            | Some start \<Rightarrow> if start < length s then [drop start s] else []))"
  by pat_completeness auto
termination
  by (relation "measure (\<lambda>(s, i, n). length s - i)") auto

declare split_loop.simps [simp del]

definition split_annex_b :: "bytes \<Rightarrow> bytes list" where
  "split_annex_b stream = split_loop stream 0 None"

section \<open>NAL types\<close>

definition h264_from_header_byte :: "byte \<Rightarrow> byte" where
  "h264_from_header_byte b = b AND 0x1f"

definition h265_from_header_byte :: "byte \<Rightarrow> byte" where
  "h265_from_header_byte b = drop_bit 1 b AND 0x3f"

definition is_decodable_nal :: "bytes \<Rightarrow> VideoCodec \<Rightarrow> bool" where
  "is_decodable_nal nal codec =
     (if nal = [] then False
      else case codec of
        CH264 \<Rightarrow> (let ty = h264_from_header_byte (nal ! 0) in 1 \<le> ty \<and> ty \<le> 13)
      | CH265 \<Rightarrow>
          if length nal < 2 then False
          else
            (let ty = h265_from_header_byte (nal ! 0);
                 type_ok = (ty \<le> 9 \<or> 16 \<le> ty \<and> ty \<le> 21 \<or> 32 \<le> ty \<and> ty \<le> 40)
             in if \<not> type_ok then False
                else push_bit 5 (nal ! 0 AND 0x01) OR drop_bit 3 (nal ! 1) = 0))"

definition detect_codec :: "bytes \<Rightarrow> VideoCodec option" where
  "detect_codec nal =
     (if nal = [] then None
      else
        (let byte0 = nal ! 0
         in if byte0 AND 0x80 \<noteq> 0 then None
            else
              (let h264_type = h264_from_header_byte byte0;
                   h265_type = h265_from_header_byte byte0
               in if (h264_type = 7 \<or> h264_type = 8) \<and> h265_type < 32 then Some CH264
                  else if 32 \<le> h265_type \<and> h265_type \<le> 40 \<and> length nal \<ge> 2 \<and> nal ! 1 AND 0x07 \<ge> 1
                  then Some CH265
                  else if h264_type = 5 \<and> \<not> (19 \<le> h265_type \<and> h265_type \<le> 21) then Some CH264
                  else if 19 \<le> h265_type \<and> h265_type \<le> 21 \<and> length nal \<ge> 2 \<and>
                          nal ! 1 AND 0x07 \<ge> 1
                  then Some CH265
                  else Some CH264)))"

section \<open>Splitting undoes joining\<close>

text \<open>
  An Annex-B stream puts a start code in front of every unit. A NAL unit as the standards define it
  has no start code inside (emulation prevention) and does not end in a zero byte (trailing bits).
\<close>

definition join_annex_b :: "bytes list \<Rightarrow> bytes" where
  "join_annex_b nals = concat (map (\<lambda>nal. [0, 0, 0, 1] @ nal) nals)"

definition wf_nal :: "bytes \<Rightarrow> bool" where
  "wf_nal nal \<longleftrightarrow> nal \<noteq> [] \<and> last nal \<noteq> 0 \<and> (\<forall>i. i + 2 < length nal \<longrightarrow> \<not> three_byte nal i)"

lemma wf_nal_code [code]:
  "wf_nal nal \<longleftrightarrow> nal \<noteq> [] \<and> last nal \<noteq> 0 \<and>
     (\<forall>i\<in>set [0..<length nal - 2]. \<not> three_byte nal i)"
  by (auto simp: wf_nal_def)

text \<open>No start code is seen at a position inside a unit, whatever follows it.\<close>

lemma no_code_inside:
  assumes "wf_nal nal" "j < length nal" and rest: "rest = [] \<or> (\<exists>t. rest = [0, 0, 0, 1] @ t)"
    and len: "length pre + j + 2 < length (pre @ nal @ rest)"
  shows "\<not> three_byte (pre @ nal @ rest) (length pre + j)"
    and "\<not> four_byte (pre @ nal @ rest) (length pre + j)"
proof -
  let ?s = "nal @ rest"
  have nth: "(pre @ nal @ rest) ! (length pre + k) = ?s ! k" for k
    by (simp add: nth_append)
  have last: "nal ! (length nal - 1) \<noteq> 0" and ne: "nal \<noteq> []"
    and inner: "\<And>i. i + 2 < length nal \<Longrightarrow> \<not> three_byte nal i"
    using assms(1) by (auto simp: wf_nal_def last_conv_nth)
  consider "j + 2 < length nal" | "j = length nal - 1" | "j + 2 = length nal"
    using assms(2) by linarith
  note pos = this
  have three: "\<not> (?s ! j = 0 \<and> ?s ! (j + 1) = 0 \<and> ?s ! (j + 2) = 1)"
    using pos
  proof cases
    case 1
    then show ?thesis using inner [OF 1] by (simp add: nth_append three_byte_def)
  next
    case 2
    then show ?thesis using last ne by (simp add: nth_append)
  next
    case 3
    then have "j + 1 = length nal - 1" by simp
    then show ?thesis using last ne by (auto simp: nth_append)
  qed
  have four: "\<not> (?s ! j = 0 \<and> ?s ! (j + 1) = 0 \<and> ?s ! (j + 2) = 0 \<and> ?s ! (j + 3) = 1)"
    using pos
  proof cases
    case 1
    show ?thesis
    proof (cases "j + 3 < length nal")
      case True
      then show ?thesis using inner [of "j + 1"] by (simp add: nth_append three_byte_def eval_nat_numeral)
    next
      case False
      then have "j + 2 = length nal - 1" using 1 by simp
      then show ?thesis using last 1 by (auto simp: nth_append)
    qed
  next
    case 2
    then show ?thesis using last ne by (simp add: nth_append)
  next
    case 3
    then have "j + 1 = length nal - 1" by simp
    then show ?thesis using last ne by (auto simp: nth_append)
  qed
  show "\<not> three_byte (pre @ nal @ rest) (length pre + j)"
    using three by (simp only: three_byte_def nth add.assoc simp_thms)
  show "\<not> four_byte (pre @ nal @ rest) (length pre + j)"
    using four by (simp only: four_byte_def nth add.assoc simp_thms)
qed

lemma split_skip:
  assumes "wf_nal nal" "rest = [] \<or> (\<exists>t. rest = [0, 0, 0, 1] @ t)" "j \<le> length nal"
  shows "split_loop (pre @ nal @ rest) (length pre + j) (Some st) =
    split_loop (pre @ nal @ rest) (length pre + length nal) (Some st)"
  using assms(3)
proof (induction j rule: inc_induct)
  case (step j)
  let ?s = "pre @ nal @ rest"
  show ?case
  proof (cases "length pre + j + 2 < length ?s")
    case True
    then show ?thesis
      using no_code_inside [OF assms(1) _ assms(2) True] step
      by (subst split_loop.simps) (simp del: append_assoc length_append)
  next
    case False
    then show ?thesis
      by (subst (1 2) split_loop.simps) (use step in auto)
  qed
qed simp

lemma split_join:
  assumes "\<forall>nal\<in>set nals. wf_nal nal" "wf_nal nal"
  shows "split_loop (pre @ nal @ join_annex_b nals) (length pre) (Some (length pre)) = nal # nals"
  using assms
proof (induction nals arbitrary: pre nal)
  case Nil
  then show ?case
    using split_skip [of nal "[]" 0 pre "length pre"]
    by (simp add: join_annex_b_def)
      (subst split_loop.simps, simp add: wf_nal_def)
next
  case (Cons n nals)
  let ?rest = "join_annex_b (n # nals)"
  let ?s = "pre @ nal @ ?rest" and ?i = "length pre + length nal"
  have rest: "?rest = [0, 0, 0, 1] @ n @ join_annex_b nals"
    by (simp add: join_annex_b_def)
  have four: "four_byte ?s ?i"
    unfolding four_byte_def rest by (simp add: nth_append)
  have s': "?s = (pre @ nal @ [0, 0, 0, 1]) @ n @ join_annex_b nals"
    by (simp add: rest)
  have "split_loop ?s (length pre) (Some (length pre)) = split_loop ?s ?i (Some (length pre))"
    using split_skip [of nal ?rest 0 pre "length pre"] Cons.prems rest by simp
  also have "\<dots> = nal # split_loop ?s (?i + 4) (Some (?i + 4))"
    using four Cons.prems(2)
    by (subst split_loop.simps) (auto simp: four_byte_def close_nal_def wf_nal_def)
  also have "split_loop ?s (?i + 4) (Some (?i + 4)) = n # nals"
    using Cons.IH [of n "pre @ nal @ [0, 0, 0, 1]"] Cons.prems s' by (simp add: eval_nat_numeral)
  finally show ?case .
qed

text \<open>
  Splitting undoes joining: for well-formed units, whatever their number and contents,
  \<open>split_annex_b\<close> of the Annex-B stream gives back exactly the list of units.
\<close>

theorem split_annex_b_join:
  assumes "\<forall>nal\<in>set nals. wf_nal nal"
  shows "split_annex_b (join_annex_b nals) = nals"
proof (cases nals)
  case Nil
  then show ?thesis by (simp add: split_annex_b_def join_annex_b_def split_loop.simps)
next
  case (Cons n ns)
  have s: "join_annex_b nals = [0, 0, 0, 1] @ n @ join_annex_b ns"
    by (simp add: join_annex_b_def Cons)
  have "split_annex_b (join_annex_b nals) = split_loop (join_annex_b nals) 4 (Some 4)"
    unfolding split_annex_b_def
    by (subst split_loop.simps) (simp add: s four_byte_def close_nal_def)
  then show ?thesis
    using split_join [of ns n "[0, 0, 0, 1]"] assms s Cons by (simp add: eval_nat_numeral)
qed

theorem split_annex_b_join_witness:
  "split_annex_b (join_annex_b [[0x67, 0, 0, 3, 1], [0x65, 1]]) = [[0x67, 0, 0, 3, 1], [0x65, 1]]"
proof (rule split_annex_b_join)
  show "\<forall>nal\<in>set [[0x67, 0, 0, 3, 1], [0x65, 1]]. wf_nal nal"
    by code_simp
qed

end
