(* ===== verification/Rtp.thy ===== *)
theory Rtp
  imports Nal
begin

text \<open>
  RTP output (\<open>src/rtsp/rtp.rs\<close>, \<open>codec/h264.rs\<close>, \<open>codec/h265.rs\<close>, \<open>codec/aac.rs\<close>
  and \<open>server/packetizer.rs\<close>): sequence counters, single-NAL and fragmentation-unit packets, AAC-hbr
  payloads, and the dispatch of one access unit. The \<open>rtp-types\<close> crate is a parameter.
\<close>

section \<open>Frames\<close>

text \<open>The access units a stream provider hands to the RTP side.\<close>

datatype AudioPayload =
    PAac (au_data: bytes) (au_sample_rate: u32) (au_channels: u8)
  | PG711Ulaw (samples: bytes)

datatype Frame =
    FVideo VideoCodec "bytes list" u32 bool bool
  | FAudio AudioPayload u32

section \<open>Packets and counters\<close>

record rtp_lib =
  rtp_build :: "u8 \<Rightarrow> u16 \<Rightarrow> u32 \<Rightarrow> u32 \<Rightarrow> bool \<Rightarrow> bytes \<Rightarrow> bytes option"

definition build_packet ::
  "'z rtp_lib_scheme \<Rightarrow> u8 \<Rightarrow> u16 \<Rightarrow> u32 \<Rightarrow> u32 \<Rightarrow> bool \<Rightarrow> bytes \<Rightarrow> bytes" where
  "build_packet R payload_type sequence_number timestamp ssrc_id marker p =
     (case rtp_build R payload_type sequence_number timestamp ssrc_id marker p of
        None \<Rightarrow> [] | Some buf \<Rightarrow> buf)"

record RtpCounters =
  ssrc :: u32
  seq :: u16

definition next_seq :: "RtpCounters \<Rightarrow> u16 \<times> RtpCounters" where
  "next_seq c = (seq c, c\<lparr>seq := seq c + 1\<rparr>)"

definition H264_PAYLOAD_TYPE :: u8 where "H264_PAYLOAD_TYPE = 96"
definition H265_PAYLOAD_TYPE :: u8 where "H265_PAYLOAD_TYPE = 96"
definition AAC_PAYLOAD_TYPE :: u8 where "AAC_PAYLOAD_TYPE = 97"
definition G711_PAYLOAD_TYPE :: u8 where "G711_PAYLOAD_TYPE = 0"
definition DEFAULT_MTU :: usize where "DEFAULT_MTU = 1400"
definition FU_A_TYPE :: u8 where "FU_A_TYPE = 28"
definition FU_TYPE :: u8 where "FU_TYPE = 49"

definition packetize_single ::
  "'z rtp_lib_scheme \<Rightarrow> u8 \<Rightarrow> bytes \<Rightarrow> RtpCounters \<Rightarrow> u32 \<Rightarrow> bool \<Rightarrow> bytes \<times> RtpCounters" where
  "packetize_single R pt nal c ts marker =
     (let (s, c') = next_seq c in (build_packet R pt s ts (ssrc c) marker nal, c'))"

definition h264_packetize_single ::
  "'z rtp_lib_scheme \<Rightarrow> bytes \<Rightarrow> RtpCounters \<Rightarrow> u32 \<Rightarrow> bool \<Rightarrow> bytes \<times> RtpCounters" where
  "h264_packetize_single R = packetize_single R H264_PAYLOAD_TYPE"

definition h265_packetize_single ::
  "'z rtp_lib_scheme \<Rightarrow> bytes \<Rightarrow> RtpCounters \<Rightarrow> u32 \<Rightarrow> bool \<Rightarrow> bytes \<times> RtpCounters" where
  "h265_packetize_single R = packetize_single R H265_PAYLOAD_TYPE"

text \<open>
  The fragmentation loop both fragmenters have (\<open>while offset < total\<close>), with the bytes in front of
  a fragment as a function of \<open>is_first\<close> and \<open>is_last\<close>. The callers make sure that a fragment can
  hold at least one byte, so the loop advances.
\<close>

function fu_loop ::
  "'z rtp_lib_scheme \<Rightarrow> u8 \<Rightarrow> u32 \<Rightarrow> bool \<Rightarrow> (bool \<Rightarrow> bool \<Rightarrow> bytes) \<Rightarrow> bytes \<Rightarrow> nat \<Rightarrow> nat \<Rightarrow>
   RtpCounters \<Rightarrow> bytes list \<times> RtpCounters" where
  "fu_loop R pt ts marker_on_last header body_bytes max_fragment_payload offset c =
     (let total = length body_bytes
      in if offset < total \<and> 0 < max_fragment_payload then
           (let stop = min (offset + max_fragment_payload) total;
                is_first = (offset = 0);
                is_last = (stop = total);
                p = header is_first is_last @ take (stop - offset) (drop offset body_bytes);
                (s, c') = next_seq c;
                marker = (is_last \<and> marker_on_last);
                (rest, c'') = fu_loop R pt ts marker_on_last header body_bytes
                                max_fragment_payload stop c'
            in (build_packet R pt s ts (ssrc c) marker p # rest, c''))
         else ([], c))"
  by pat_completeness auto
termination
  by (relation "measure (\<lambda>(R, pt, ts, m, h, b, mx, offset, c). length b - offset)") auto

declare fu_loop.simps [simp del]

text \<open>\<open>None\<close>: the assertion on the NAL length fails.\<close>

definition packetize_fu_a ::
  "'z rtp_lib_scheme \<Rightarrow> bytes \<Rightarrow> RtpCounters \<Rightarrow> u32 \<Rightarrow> bool \<Rightarrow> usize \<Rightarrow>
   (bytes list \<times> RtpCounters) option" where
  "packetize_fu_a R nal c ts marker_on_last mtu =
     (if length nal < 2 then None
      else if mtu \<le> 14 then Some ([], c)
      else
        (let nal_header = nal ! 0;
             nri = nal_header AND 0x60;
             nal_type = nal_header AND 0x1f;
             header = (\<lambda>is_first is_last.
               [nri OR FU_A_TYPE,
                nal_type OR (if is_first then 0x80 else 0) OR (if is_last then 0x40 else 0)])
         in Some (fu_loop R H264_PAYLOAD_TYPE ts marker_on_last header (drop 1 nal)
                    (mtu - 12 - 2) 0 c)))"

definition packetize_fu ::
  "'z rtp_lib_scheme \<Rightarrow> bytes \<Rightarrow> RtpCounters \<Rightarrow> u32 \<Rightarrow> bool \<Rightarrow> usize \<Rightarrow>
   (bytes list \<times> RtpCounters) option" where
  "packetize_fu R nal c ts marker_on_last mtu =
     (if length nal < 2 then None
      else if mtu \<le> 15 then Some ([], c)
      else
        (let orig_type = drop_bit 1 (nal ! 0) AND 0x3f;
             byte0 = (nal ! 0 AND 0x81) OR push_bit 1 FU_TYPE;
             byte1 = nal ! 1;
             header = (\<lambda>is_first is_last.
               [byte0, byte1,
                orig_type OR (if is_first then 0x80 else 0) OR (if is_last then 0x40 else 0)])
         in Some (fu_loop R H265_PAYLOAD_TYPE ts marker_on_last header (drop 2 nal)
                    (mtu - 12 - 2 - 1) 0 c)))"

section \<open>AAC\<close>

definition build_au_hbr_payload :: "bytes \<Rightarrow> bytes" where
  "build_au_hbr_payload au =
     [0x00, 0x10] @ to_be16 (push_bit 3 (of_nat (length au))) @ au"

definition sample_rates :: "u32 list" where
  "sample_rates = [96000, 88200, 64000, 48000, 44100, 32000, 24000, 22050, 16000, 12000, 11025,
                   8000, 7350]"

definition sample_rate_index :: "u32 \<Rightarrow> u8 option" where
  "sample_rate_index hz =
     (if hz = 96000 then Some 0 else if hz = 88200 then Some 1 else if hz = 64000 then Some 2
      else if hz = 48000 then Some 3 else if hz = 44100 then Some 4 else if hz = 32000 then Some 5
      else if hz = 24000 then Some 6 else if hz = 22050 then Some 7 else if hz = 16000 then Some 8
      else if hz = 12000 then Some 9 else if hz = 11025 then Some 10 else if hz = 8000 then Some 11
      else if hz = 7350 then Some 12 else None)"

text \<open>\<open>format!("{:02X}")\<close> of a byte.\<close>

definition hex2 :: "u8 \<Rightarrow> string" where
  "hex2 b = [''0123456789ABCDEF'' ! unat (drop_bit 4 b), ''0123456789ABCDEF'' ! unat (b AND 0x0f)]"

definition build_audio_specific_config_hex :: "u8 \<Rightarrow> u32 \<Rightarrow> u8 \<Rightarrow> string option" where
  "build_audio_specific_config_hex aot sample_rate channels =
     (if aot < 1 \<or> aot > 29 then None
      else case sample_rate_index sample_rate of
        None \<Rightarrow> None
      | Some sr_idx \<Rightarrow>
          if channels = 0 \<or> channels > 7 then None
          else let bits = push_bit 11 (ucast aot AND 0x1f) OR push_bit 7 (ucast sr_idx AND 0x0f) OR
                          push_bit 3 (ucast channels AND 0x0f) :: u32
               in Some (hex2 (ucast (drop_bit 8 bits)) @ hex2 (ucast bits)))"

record AdtsHeader =
  adts_aot :: u8
  adts_sample_rate :: u32
  adts_channels :: u8
  adts_frame_length :: usize
  aac_frames :: u8

definition ADTS_HEADER_LEN :: usize where "ADTS_HEADER_LEN = 7"

definition parse_adts :: "bytes \<Rightarrow> AdtsHeader option" where
  "parse_adts buf =
     (if length buf < 7 then None
      else if buf ! 0 \<noteq> 0xff \<or> buf ! 1 AND 0xf0 \<noteq> 0xf0 then None
      else
        (let profile = drop_bit 6 (buf ! 2) AND 0x03;
             sr_idx = drop_bit 2 (buf ! 2) AND 0x0f;
             channels = push_bit 2 (buf ! 2 AND 0x01) OR (drop_bit 6 (buf ! 3) AND 0x03);
             frame_length = unat (push_bit 11 (ucast (buf ! 3) AND 0x03) OR
                                  push_bit 3 (ucast (buf ! 4)) OR
                                  (drop_bit 5 (ucast (buf ! 5)) AND 0x07) :: u64)
         in if frame_length < ADTS_HEADER_LEN then None
            else if unat sr_idx \<ge> length sample_rates then None
            else Some \<lparr>adts_aot = profile + 1, adts_sample_rate = sample_rates ! unat sr_idx,
                       adts_channels = channels, adts_frame_length = frame_length,
                       aac_frames = (buf ! 6 AND 0x03) + 1\<rparr>))"

section \<open>Dispatch\<close>

definition dispatch_nal ::
  "'z rtp_lib_scheme \<Rightarrow> VideoCodec \<Rightarrow> bytes \<Rightarrow> u32 \<Rightarrow> bool \<Rightarrow> RtpCounters \<Rightarrow>
   (bytes list \<times> RtpCounters) option" where
  "dispatch_nal R codec nal ts marker c = (case codec of
     CH264 \<Rightarrow>
       (if length nal + 12 \<le> DEFAULT_MTU
        then let (p, c') = h264_packetize_single R nal c ts marker in Some ([p], c')
        else packetize_fu_a R nal c ts marker DEFAULT_MTU)
   | CH265 \<Rightarrow>
       (if length nal + 12 \<le> DEFAULT_MTU
        then let (p, c') = h265_packetize_single R nal c ts marker in Some ([p], c')
        else packetize_fu R nal c ts marker DEFAULT_MTU))"

text \<open>The loop over the NAL units; the marker goes on the last one.\<close>

fun dispatch_nals ::
  "'z rtp_lib_scheme \<Rightarrow> VideoCodec \<Rightarrow> bytes list \<Rightarrow> u32 \<Rightarrow> bool \<Rightarrow> RtpCounters \<Rightarrow>
   (bytes list \<times> RtpCounters) option" where
  "dispatch_nals R codec [] ts au_end c = Some ([], c)"
| "dispatch_nals R codec (nal # nals) ts au_end c =
     (case dispatch_nal R codec nal ts (au_end \<and> nals = []) c of
        None \<Rightarrow> None
      | Some (ps, c') \<Rightarrow>
          (case dispatch_nals R codec nals ts au_end c' of
             None \<Rightarrow> None
           | Some (qs, c'') \<Rightarrow> Some (ps @ qs, c'')))"

definition dispatch_audio ::
  "'z rtp_lib_scheme \<Rightarrow> AudioPayload \<Rightarrow> u32 \<Rightarrow> RtpCounters \<Rightarrow> bytes list \<times> RtpCounters" where
  "dispatch_audio R p pts c = (case p of
     PAac au _ _ \<Rightarrow>
       (let b = build_au_hbr_payload au; (s, c') = next_seq c
        in ([build_packet R AAC_PAYLOAD_TYPE s pts (ssrc c) True b], c'))
   | PG711Ulaw smps \<Rightarrow>
       (let (s, c') = next_seq c
        in ([build_packet R G711_PAYLOAD_TYPE s pts (ssrc c) True smps], c')))"

fun dispatch ::
  "'z rtp_lib_scheme \<Rightarrow> Frame \<Rightarrow> RtpCounters \<Rightarrow> (bytes list \<times> RtpCounters) option" where
  "dispatch R (FVideo codec nals pts keyframe au_end) c = dispatch_nals R codec nals pts au_end c"
| "dispatch R (FAudio p pts) c = Some (dispatch_audio R p pts c)"

section \<open>The receiver's side\<close>

text \<open>
  The fixed RTP header of RFC 3550 and the fragmentation units of RFC 6184 (H.264) and RFC 7798
  (H.265), read the way a receiver reads them: the specification the packetisers are checked
  against.
\<close>

definition rtp_header :: "u8 \<Rightarrow> u16 \<Rightarrow> u32 \<Rightarrow> u32 \<Rightarrow> bool \<Rightarrow> bytes" where
  "rtp_header pt s ts sid marker =
     [0x80, pt OR (if marker then 0x80 else 0)] @ to_be16 s @ to_be32 ts @ to_be32 sid"

definition rtp_payload :: "bytes \<Rightarrow> bytes" where "rtp_payload p = drop 12 p"
definition rtp_marker :: "bytes \<Rightarrow> bool" where "rtp_marker p = bit (p ! 1) 7"
definition rtp_seq :: "bytes \<Rightarrow> u16" where "rtp_seq p = from_le (rev (take 2 (drop 2 p)))"

fun depay_h264 :: "bytes \<Rightarrow> bytes list \<Rightarrow> bytes list" where
  "depay_h264 cur [] = []"
| "depay_h264 cur (p # ps) =
     (if p ! 0 AND 0x1f = 28 then
        (let fh = p ! 1;
             buf = (if bit fh 7 then ((p ! 0 AND 0xe0) OR (fh AND 0x1f)) # drop 2 p
                    else cur @ drop 2 p)
         in if bit fh 6 then buf # depay_h264 [] ps else depay_h264 buf ps)
      else p # depay_h264 [] ps)"

fun depay_h265 :: "bytes \<Rightarrow> bytes list \<Rightarrow> bytes list" where
  "depay_h265 cur [] = []"
| "depay_h265 cur (p # ps) =
     (if drop_bit 1 (p ! 0) AND 0x3f = 49 then
        (let fh = p ! 2;
             buf = (if bit fh 7
                    then [(p ! 0 AND 0x81) OR push_bit 1 (fh AND 0x3f), p ! 1] @ drop 3 p
                    else cur @ drop 3 p)
         in if bit fh 6 then buf # depay_h265 [] ps else depay_h265 buf ps)
      else p # depay_h265 [] ps)"

section \<open>What the packetisers emit\<close>

lemma fu_a_bits:
  fixes x :: byte
  defines "ind \<equiv> (x AND 0x60) OR FU_A_TYPE"
    and "fh \<equiv> \<lambda>f l. (x AND 0x1f) OR (if f then 0x80 else 0) OR (if l then 0x40 else 0)"
  shows "ind AND 0x1f = 28" "bit (fh f l) 7 = f" "bit (fh f l) 6 = l"
    "(ind AND 0xe0) OR (fh f l AND 0x1f) = x AND 0x7f"
proof -
  show "ind AND 0x1f = 28" by (rule byte_eqI) (simp_all add: ind_def FU_A_TYPE_def byte_bits)
  show "bit (fh f l) 7 = f" "bit (fh f l) 6 = l"
    by (simp_all add: fh_def byte_bits)
  show "(ind AND 0xe0) OR (fh f l AND 0x1f) = x AND 0x7f"
    by (rule byte_eqI) (simp_all add: ind_def fh_def FU_A_TYPE_def byte_bits)
qed

lemma fu_bits:
  fixes x :: byte
  defines "b0 \<equiv> (x AND 0x81) OR push_bit 1 FU_TYPE"
    and "fh \<equiv> \<lambda>f l. (drop_bit 1 x AND 0x3f) OR (if f then 0x80 else 0) OR (if l then 0x40 else 0)"
  shows "drop_bit 1 b0 AND 0x3f = 49" "bit (fh f l) 7 = f" "bit (fh f l) 6 = l"
    "(b0 AND 0x81) OR push_bit 1 (fh f l AND 0x3f) = x"
proof -
  show "drop_bit 1 b0 AND 0x3f = 49" by (rule byte_eqI) (simp_all add: b0_def FU_TYPE_def byte_bits)
  show "bit (fh f l) 7 = f" "bit (fh f l) 6 = l"
    by (simp_all add: fh_def byte_bits)
  show "(b0 AND 0x81) OR push_bit 1 (fh f l AND 0x3f) = x"
    unfolding b0_def fh_def FU_TYPE_def
    by (rule byte_eqI; simp only: byte_bits) (simp_all add: numeral_eq_Suc)
qed

primrec frags :: "(bool \<Rightarrow> bool \<Rightarrow> bytes) \<Rightarrow> bool \<Rightarrow> bytes list \<Rightarrow> bytes list" where
  "frags h first [] = []"
| "frags h first (c # cs) = (h first (cs = []) @ c) # frags h False cs"

fun stamp ::
  "'z rtp_lib_scheme \<Rightarrow> u8 \<Rightarrow> u32 \<Rightarrow> u32 \<Rightarrow> bool \<Rightarrow> u16 \<Rightarrow> bytes list \<Rightarrow> bytes list" where
  "stamp R pt ts sid mk s [] = []"
| "stamp R pt ts sid mk s (p # ps) =
     build_packet R pt s ts sid (ps = [] \<and> mk) p # stamp R pt ts sid mk (s + 1) ps"

lemma length_frags [simp]: "length (frags h f cs) = length cs"
  by (induction cs arbitrary: f) auto

lemma frags_eq_Nil [simp]: "frags h f cs = [] \<longleftrightarrow> cs = []"
  by (cases cs) auto

lemma fu_loop_frags:
  assumes "0 < mx"
  shows "fu_loop R pt ts mk h b mx off c =
    (stamp R pt ts (ssrc c) mk (seq c) (frags h (off = 0) (chunks mx (drop off b))),
     c\<lparr>seq := seq c + of_nat (length (chunks mx (drop off b)))\<rparr>)"
  using assms
proof (induction R pt ts mk h b mx off c rule: fu_loop.induct)
  case (1 R pt ts mk h b mx off c)
  show ?case
  proof (cases "off < length b")
    case True
    define stop where "stop = min (off + mx) (length b)"
    have ne: "drop off b \<noteq> []" using True by simp
    have ch: "chunks mx (drop off b) = take (stop - off) (drop off b) # chunks mx (drop stop b)"
      by (subst chunks_unfold [OF 1(2) ne]) (simp add: stop_def min_def add.commute)
    have le: "stop \<le> length b" by (simp add: stop_def)
    have nil': "chunks mx (drop stop b) = [] \<longleftrightarrow> stop = length b"
      using 1(2) le by auto
    have nz: "stop \<noteq> 0" using True 1(2) by (auto simp: stop_def)
    have ih: "fu_loop R pt ts mk h b mx stop (c\<lparr>seq := seq c + 1\<rparr>) =
      (stamp R pt ts (ssrc c) mk (seq c + 1) (frags h False (chunks mx (drop stop b))),
       c\<lparr>seq := seq c + 1 + of_nat (length (chunks mx (drop stop b)))\<rparr>)"
      using 1(1) [OF refl _ stop_def refl refl refl refl next_seq_def [symmetric] refl] True 1(2) nz
      by simp
    show ?thesis
      using True 1(2) ih
      by (subst fu_loop.simps)
        (simp add: ch nil' next_seq_def Let_def add.assoc flip: stop_def)
  next
    case False
    then show ?thesis by (subst fu_loop.simps) simp
  qed
qed

section \<open>One NAL unit, one access unit\<close>

definition fu_a_header :: "byte \<Rightarrow> bool \<Rightarrow> bool \<Rightarrow> bytes" where
  "fu_a_header x f l =
     [(x AND 0x60) OR FU_A_TYPE, (x AND 0x1f) OR (if f then 0x80 else 0) OR (if l then 0x40 else 0)]"

definition fu_header :: "byte \<Rightarrow> byte \<Rightarrow> bool \<Rightarrow> bool \<Rightarrow> bytes" where
  "fu_header x y f l =
     [(x AND 0x81) OR push_bit 1 FU_TYPE, y,
      (drop_bit 1 x AND 0x3f) OR (if f then 0x80 else 0) OR (if l then 0x40 else 0)]"

definition nal_payloads :: "VideoCodec \<Rightarrow> bytes \<Rightarrow> bytes list" where
  "nal_payloads codec nal =
     (if length nal + 12 \<le> DEFAULT_MTU then [nal]
      else case codec of
        CH264 \<Rightarrow> frags (fu_a_header (nal ! 0)) True (chunks 1386 (drop 1 nal))
      | CH265 \<Rightarrow> frags (fu_header (nal ! 0) (nal ! 1)) True (chunks 1385 (drop 2 nal)))"

lemma nal_payloads_not_Nil [simp]: "nal_payloads codec nal \<noteq> []"
  by (auto simp: nal_payloads_def DEFAULT_MTU_def split: VideoCodec.splits)

lemma dispatch_nal_spec:
  "dispatch_nal R codec nal ts mk c =
     Some (stamp R 96 ts (ssrc c) mk (seq c) (nal_payloads codec nal),
           c\<lparr>seq := seq c + of_nat (length (nal_payloads codec nal))\<rparr>)"
  by (cases codec)
    (simp_all add: dispatch_nal_def nal_payloads_def h264_packetize_single_def DEFAULT_MTU_def
      h265_packetize_single_def packetize_single_def next_seq_def packetize_fu_a_def
      packetize_fu_def fu_loop_frags Let_def H264_PAYLOAD_TYPE_def H265_PAYLOAD_TYPE_def
      fu_a_header_def [abs_def] fu_header_def [abs_def])

lemma stamp_append:
  "qs \<noteq> [] \<Longrightarrow> stamp R pt ts sid mk s (ps @ qs) =
     stamp R pt ts sid False s ps @ stamp R pt ts sid mk (s + of_nat (length ps)) qs"
  by (induction ps arbitrary: s) (auto simp: add.assoc)

lemma dispatch_nals_spec:
  "dispatch_nals R codec nals ts e c =
     (let ps = concat (map (nal_payloads codec) nals)
      in Some (stamp R 96 ts (ssrc c) e (seq c) ps, c\<lparr>seq := seq c + of_nat (length ps)\<rparr>))"
proof (induction nals arbitrary: c)
  case (Cons nal nals)
  have "nals = [] \<or> concat (map (nal_payloads codec) nals) \<noteq> []"
    by (cases nals) auto
  then show ?case
    by (elim disjE) (auto simp: dispatch_nal_spec Cons Let_def stamp_append add.assoc)
qed simp

lemma frags_bound:
  assumes "\<And>f l. length (h f l) = k" "\<forall>x\<in>set cs. length x \<le> n" "p \<in> set (frags h f cs)"
  shows "length p \<le> k + n"
  using assms(2,3) by (induction cs arbitrary: f) (auto simp: assms(1))

lemma nal_payloads_bound:
  assumes "p \<in> set (nal_payloads codec nal)"
  shows "length p + 12 \<le> DEFAULT_MTU"
proof (cases "length nal + 12 \<le> DEFAULT_MTU")
  case False
  have "length p \<le> 2 + 1386" if "codec = CH264"
    using assms False that chunks_bounds
    by (intro frags_bound [where h = "fu_a_header (nal ! 0)" and cs = "chunks 1386 (drop 1 nal)"])
      (fastforce simp: nal_payloads_def fu_a_header_def)+
  moreover have "length p \<le> 3 + 1385" if "codec = CH265"
    using assms False that chunks_bounds
    by (intro frags_bound [where h = "fu_header (nal ! 0) (nal ! 1)"
          and cs = "chunks 1385 (drop 2 nal)"])
      (fastforce simp: nal_payloads_def fu_header_def)+
  ultimately show ?thesis by (cases codec) (simp_all add: DEFAULT_MTU_def)
qed (use assms in \<open>simp add: nal_payloads_def\<close>)

section \<open>Reassembly\<close>

lemma fu_a_headerE:
  obtains a b where "fu_a_header x f l = [a, b]" "a AND 0x1f = 28" "bit b 7 = f" "bit b 6 = l"
    "(a AND 0xe0) OR (b AND 0x1f) = x AND 0x7f"
  by (rule that [OF fu_a_header_def fu_a_bits])

lemma fu_headerE:
  obtains a b where "fu_header x y f l = [a, y, b]" "drop_bit 1 a AND 0x3f = 49" "bit b 7 = f"
    "bit b 6 = l" "(a AND 0x81) OR push_bit 1 (b AND 0x3f) = x"
  by (rule that [OF fu_header_def fu_bits])

lemma depay_h264_step:
  "depay_h264 cur ((fu_a_header x f l @ c) # ps) =
     (let buf = (if f then (x AND 0x7f) # c else cur @ c)
      in if l then buf # depay_h264 [] ps else depay_h264 buf ps)"
  by (rule fu_a_headerE [of x f l]) simp

lemma depay_h265_step:
  "depay_h265 cur ((fu_header x y f l @ c) # ps) =
     (let buf = (if f then x # y # c else cur @ c)
      in if l then buf # depay_h265 [] ps else depay_h265 buf ps)"
  by (rule fu_headerE [of x y f l]) simp

lemma depay_frags_cont:
  assumes "cs \<noteq> []"
  shows "depay_h264 cur (frags (fu_a_header x) False cs @ qs) = (cur @ concat cs) # depay_h264 [] qs"
    "depay_h265 cur (frags (fu_header x y) False cs @ qs) = (cur @ concat cs) # depay_h265 [] qs"
  using assms
  by (induction cs arbitrary: cur)
    (simp_all add: depay_h264_step depay_h265_step Let_def del: depay_h264.simps depay_h265.simps)

lemma depay_frags:
  assumes "cs \<noteq> []"
  shows "depay_h264 cur (frags (fu_a_header x) True cs @ qs) =
      ((x AND 0x7f) # concat cs) # depay_h264 [] qs"
    "depay_h265 cur (frags (fu_header x y) True cs @ qs) =
      (x # y # concat cs) # depay_h265 [] qs"
  using assms
  by (cases cs; cases "tl cs = []";
    simp add: depay_h264_step depay_h265_step depay_frags_cont Let_def
      del: depay_h264.simps depay_h265.simps)+

text \<open>What a receiver makes of one unit: itself, less the forbidden-zero bit of a fragmented H.264 one.\<close>

definition received_nal :: "VideoCodec \<Rightarrow> bytes \<Rightarrow> bytes" where
  "received_nal codec nal =
     (if codec = CH264 \<and> DEFAULT_MTU < length nal + 12 then (nal ! 0 AND 0x7f) # drop 1 nal else nal)"

definition depay :: "VideoCodec \<Rightarrow> bytes list \<Rightarrow> bytes list" where
  "depay codec = (case codec of CH264 \<Rightarrow> depay_h264 [] | CH265 \<Rightarrow> depay_h265 [])"

lemma byte_mask_eq: 
  fixes b :: byte
  shows "b AND 0x7f = b \<longleftrightarrow> \<not> bit b 7"
proof
  assume "b AND 0x7f = b"
  then have "bit b 7 = bit (b AND 0x7f) 7" by simp
  then show "\<not> bit b 7" by (simp add: byte_bits)
next
  assume "\<not> bit b 7"
  then show "b AND 0x7f = b" by (intro byte_eqI) (simp_all add: byte_bits)
qed

lemma decodable_type:
  assumes "is_decodable_nal nal codec"
  shows "nal \<noteq> []" "codec = CH264 \<Longrightarrow> nal ! 0 AND 0x1f \<noteq> 28"
    "codec = CH265 \<Longrightarrow> drop_bit 1 (nal ! 0) AND 0x3f \<noteq> 49"
  using assms
  by (auto simp: is_decodable_nal_def h264_from_header_byte_def h265_from_header_byte_def Let_def
      split: if_splits)

lemma depay_nal:
  assumes "is_decodable_nal nal codec"
  shows "depay codec (nal_payloads codec nal @ qs) = received_nal codec nal # depay codec qs"
proof (cases codec)
  case CH264
  then show ?thesis
    using decodable_type [OF assms]
    by (auto simp: depay_def nal_payloads_def received_nal_def DEFAULT_MTU_def depay_frags
        concat_chunks)
next
  case CH265
  have "nal = nal ! 0 # nal ! 1 # drop 2 nal" if "length nal > 2"
    using that by (cases nal; cases "tl nal") auto
  then show ?thesis
    using decodable_type [OF assms] CH265
    by (auto simp: depay_def nal_payloads_def received_nal_def DEFAULT_MTU_def depay_frags
        concat_chunks)
qed

lemma depay_nals:
  "\<forall>nal\<in>set nals. is_decodable_nal nal codec \<Longrightarrow>
   depay codec (concat (map (nal_payloads codec) nals)) = map (received_nal codec) nals"
proof (induction nals)
  case Nil
  then show ?case by (cases codec) (simp_all add: depay_def)
qed (simp add: depay_nal)

section \<open>What the packets carry on the wire\<close>

text \<open>
  The contract of the \<open>rtp-types\<close> builder for the way \<open>build_packet\<close> calls it (version 2, no
  padding, no extension, no contributing sources): a 7-bit payload type and a payload that fits a
  datagram give the fixed header of RFC 3550 followed by the payload.
\<close>

locale rtp_codec =
  fixes R :: "'z rtp_lib_scheme"
  assumes build_layout: "pt < 128 \<Longrightarrow> length p \<le> 65000 \<Longrightarrow>
    rtp_build R pt s ts sid m p = Some (rtp_header pt s ts sid m @ p)"
begin

lemma build_packet_fields:
  fixes s :: u16 and ts sid :: u32 and m :: bool
  assumes "pt < 128" "length p \<le> 65000"
  defines "q \<equiv> build_packet R pt s ts sid m p"
  shows "rtp_payload q = p" "rtp_marker q = m" "rtp_seq q = s" "length q = 12 + length p"
proof -
  have "\<not> bit pt 7"
    using assms(1) by (simp add: bit_iff_odd div_word_less)
  then have m: "bit (pt OR (if m then 0x80 else 0)) 7 = m"
    by (simp add: byte_bits)
  have s: "from_le [ucast s, ucast (drop_bit 8 s)] = s"
    using from_to_le16 [of s] by (simp add: to_le16_def)
  show "rtp_payload q = p" "rtp_marker q = m" "rtp_seq q = s" "length q = 12 + length p"
    using m s assms(1,2)
    by (simp_all add: q_def build_packet_def build_layout rtp_header_def rtp_payload_def
        rtp_marker_def rtp_seq_def to_be16_def to_be32_def to_le16_def to_le32_def)
qed

lemma stamp_fields:
  assumes "pt < 128" "\<forall>p\<in>set ps. length p \<le> 65000"
  shows "map rtp_payload (stamp R pt ts sid mk s ps) = ps"
    and "map rtp_marker (stamp R pt ts sid mk s ps) =
      (if ps = [] then [] else replicate (length ps - 1) False @ [mk])"
    and "map rtp_seq (stamp R pt ts sid mk s ps) = map (\<lambda>i. s + of_nat i) [0..<length ps]"
    and "map length (stamp R pt ts sid mk s ps) = map (\<lambda>p. 12 + length p) ps"
proof -
  have up: "[0..<Suc n] = 0 # map Suc [0..<n]" for n
    by (simp add: map_Suc_upt upt_conv_Cons)
  show "map rtp_payload (stamp R pt ts sid mk s ps) = ps"
    and "map rtp_marker (stamp R pt ts sid mk s ps) =
      (if ps = [] then [] else replicate (length ps - 1) False @ [mk])"
    and "map rtp_seq (stamp R pt ts sid mk s ps) = map (\<lambda>i. s + of_nat i) [0..<length ps]"
    and "map length (stamp R pt ts sid mk s ps) = map (\<lambda>p. 12 + length p) ps"
    using assms
    by (induction ps arbitrary: s)
      (auto simp: build_packet_fields up add.assoc gr0_conv_Suc length_greater_0_conv [symmetric]
        simp del: upt_Suc length_greater_0_conv)
qed

end

definition std_rtp :: rtp_lib where
  "std_rtp = \<lparr>rtp_build = (\<lambda>pt s ts sid m p. if 128 \<le> pt then None
     else Some (rtp_header pt s ts sid m @ p))\<rparr>"

interpretation std_rtp: rtp_codec std_rtp
  by unfold_locales (simp add: std_rtp_def)

section \<open>ADTS\<close>

lemma sample_rate_index_table:
  assumes "i < length sample_rates"
  shows "sample_rate_index (sample_rates ! i) = Some (of_nat i)"
proof -
  have "map sample_rate_index sample_rates =
    map Some [0, 1, 2, 3, 4, 5, 6, 7, 8, 9, 10, 11, 12]"
    by (simp add: sample_rates_def sample_rate_index_def)
  moreover have "[0, 1, 2, 3, 4, 5, 6, 7, 8, 9, 10, 11, 12] = map (of_nat :: nat \<Rightarrow> u8) [0..<13]"
    by (simp add: upt_rec)
  ultimately have "map sample_rate_index sample_rates = map (Some \<circ> of_nat) [0..<13]"
    by simp
  then have "map sample_rate_index sample_rates ! i = map (Some \<circ> of_nat) [0..<13] ! i"
    by simp
  moreover have "length sample_rates = 13" by (simp add: sample_rates_def)
  ultimately show ?thesis using assms by simp
qed

lemma adts_length_bound:
  fixes x y z :: u8
  shows "unat (push_bit 11 (ucast x AND 0x03) OR push_bit 3 (ucast y) OR
    (drop_bit 5 (ucast z) AND 0x07) :: u64) \<le> 8191"
proof -
  let ?a = "push_bit 11 (ucast x AND 0x03) :: u64" and ?b = "push_bit 3 (ucast y) :: u64"
    and ?c = "drop_bit 5 (ucast z) AND 0x07 :: u64"
  have "?a AND 8191 = ?a" "?c AND 8191 = ?c" by (simp_all add: push_bit_and and.assoc)
  moreover have "?b AND mask 13 = ?b"
    by (rule bit_word_eqI) (auto simp: bit_simps dest: bit_imp_le_length)
  then have "?b AND 8191 = ?b" by (simp add: mask_numeral)
  ultimately have "(?a OR ?b OR ?c) AND 8191 = ?a OR ?b OR ?c"
    by (simp only: bit.conj_disj_distrib2)
  then have "?a OR ?b OR ?c \<le> 8191" by (metis word_and_le1)
  then show ?thesis by (simp add: word_le_nat_alt)
qed

lemma parse_adtsE:
  assumes "parse_adts buf = Some h"
  obtains a b c d e x i where "adts_aot h = (a AND 0x03) + 1" "aac_frames h = (b AND 0x03) + 1"
    "adts_channels h = push_bit 2 (c AND 0x01) OR (d AND 0x03)" "ADTS_HEADER_LEN \<le> adts_frame_length h"
    "adts_frame_length h = unat (push_bit 11 (ucast (e :: u8) AND 0x03) OR push_bit 3 (ucast (x :: u8)) OR
      (drop_bit 5 (ucast (buf ! 5)) AND 0x07) :: u64)"
    "i < length sample_rates" "adts_sample_rate h = sample_rates ! i"
  using assms that [of "drop_bit 6 (buf ! 2)" "buf ! 6" "buf ! 2" "drop_bit 6 (buf ! 3)" "buf ! 3" "buf ! 4"
      "unat (drop_bit 2 (buf ! 2) AND 0x0f)"]
  unfolding parse_adts_def Let_def
  by (simp split: if_split_asm add: not_le not_less del: One_nat_def) force

section \<open>Properties\<close>

text \<open>The packets of a video access unit, whatever its units are.\<close>

lemma dispatch_video_packets:
  assumes "rtp_codec R"
  obtains pkts where
    "dispatch R (FVideo codec nals pts key au_end) c =
       Some (pkts, c\<lparr>seq := seq c + of_nat (length pkts)\<rparr>)"
    "map rtp_payload pkts = concat (map (nal_payloads codec) nals)"
    "map rtp_seq pkts = map (\<lambda>i. seq c + of_nat i) [0..<length pkts]"
    "map rtp_marker pkts =
       (if nals = [] then [] else replicate (length pkts - 1) False @ [au_end])"
    "\<forall>p\<in>set pkts. length p \<le> DEFAULT_MTU"
proof -
  define ps where "ps = concat (map (nal_payloads codec) nals)"
  define pkts where "pkts = stamp R 96 pts (ssrc c) au_end (seq c) ps"
  have bound: "\<forall>p\<in>set ps. length p + 12 \<le> DEFAULT_MTU"
    by (auto simp: ps_def nal_payloads_bound)
  have small: "\<forall>p\<in>set ps. length p \<le> 65000"
    using bound by (fastforce simp: DEFAULT_MTU_def)
  have nil: "ps = [] \<longleftrightarrow> nals = []"
    by (auto simp: ps_def)
  note fields = rtp_codec.stamp_fields [OF assms _ small, of 96 pts "ssrc c" au_end "seq c"]
  have pay: "map rtp_payload pkts = ps" using fields(1) by (simp add: pkts_def)
  then have len: "length pkts = length ps" by (metis length_map)
  have "length p \<le> DEFAULT_MTU" if "p \<in> set pkts" for p
  proof -
    have "length p \<in> set (map length pkts)" using that by simp
    then have "length p \<in> (\<lambda>p. 12 + length p) ` set ps" using fields(4) by (simp add: pkts_def)
    then show ?thesis using bound by auto
  qed
  moreover have "dispatch R (FVideo codec nals pts key au_end) c =
      Some (pkts, c\<lparr>seq := seq c + of_nat (length pkts)\<rparr>)"
    by (simp add: dispatch_nals_spec Let_def len pkts_def [symmetric] ps_def [symmetric])
  moreover have "map rtp_seq pkts = map (\<lambda>i. seq c + of_nat i) [0..<length pkts]"
    using fields(3) by (simp add: pkts_def [symmetric] len)
  moreover have "map rtp_marker pkts =
      (if nals = [] then [] else replicate (length pkts - 1) False @ [au_end])"
    using fields(2) by (simp add: pkts_def [symmetric] len nil)
  ultimately show thesis using that pay by (simp add: ps_def)
qed

text \<open>
  C9. Video output is faithful. For an access unit whose NAL units pass the whitelist (the H.264
  ones with a clear forbidden-zero bit), \<open>dispatch\<close> returns packets from which a receiver reassembles exactly
  those units, in order; the sequence numbers are consecutive (modulo \<open>2 ^ 16\<close>) from the counter and
  the counter advances by the number of packets; only the last packet has the marker bit, and only
  at the end of an access unit; no packet exceeds the MTU.
\<close>

theorem rtp_video_faithful:
  assumes "rtp_codec R"
    and "\<forall>nal\<in>set nals. is_decodable_nal nal codec \<and> (codec = CH264 \<longrightarrow> \<not> bit (nal ! 0) 7)"
  shows "\<exists>pkts. dispatch R (FVideo codec nals pts key au_end) c =
      Some (pkts, c\<lparr>seq := seq c + of_nat (length pkts)\<rparr>) \<and>
    depay codec (map rtp_payload pkts) = nals \<and>
    map rtp_seq pkts = map (\<lambda>i. seq c + of_nat i) [0..<length pkts] \<and>
    map rtp_marker pkts =
      (if nals = [] then [] else replicate (length pkts - 1) False @ [au_end]) \<and>
    (\<forall>p\<in>set pkts. length p \<le> DEFAULT_MTU)"
proof -
  have "received_nal codec nal = nal" if "nal \<in> set nals" for nal
  proof -
    have "nal \<noteq> []" "codec = CH264 \<longrightarrow> \<not> bit (nal ! 0) 7"
      using that assms(2) decodable_type(1) by auto
    then show ?thesis
      by (auto simp: received_nal_def byte_mask_eq [THEN iffD2] Cons_nth_drop_Suc)
  qed
  then have "map (received_nal codec) nals = nals"
    by (simp add: map_idI)
  then have "depay codec (concat (map (nal_payloads codec) nals)) = nals"
    using depay_nals [of nals codec] assms(2) by simp
  with dispatch_video_packets [OF assms(1), of codec nals pts key au_end c] show ?thesis
    by metis
qed

theorem rtp_video_faithful_witness:
  "\<exists>pkts. dispatch std_rtp (FVideo CH265 [[0x40, 1, 9], [0x26, 1] @ replicate 1500 7] 90 True True)
        \<lparr>ssrc = 5, seq = 0xffff\<rparr> =
      Some (pkts, \<lparr>ssrc = 5, seq = 0xffff\<rparr>\<lparr>seq := 0xffff + of_nat (length pkts)\<rparr>) \<and>
    depay CH265 (map rtp_payload pkts) = [[0x40, 1, 9], [0x26, 1] @ replicate 1500 7] \<and>
    map rtp_seq pkts = map (\<lambda>i. 0xffff + of_nat i) [0..<length pkts] \<and>
    map rtp_marker pkts = replicate (length pkts - 1) False @ [True] \<and>
    (\<forall>p\<in>set pkts. length p \<le> DEFAULT_MTU)"
  using rtp_video_faithful [OF std_rtp.rtp_codec_axioms,
      of "[[0x40, 1, 9], [0x26, 1] @ replicate 1500 7]" CH265 90 True True "\<lparr>ssrc = 5, seq = 0xffff\<rparr>"]
  by (simp add: is_decodable_nal_def h265_from_header_byte_def)

text \<open>
  Fragmentation clears the forbidden-zero bit. A unit too large for one packet whose F bit is
  set is sent as H.264 fragments none of which has the bit, so the receiver reassembles a unit with a different
  first byte; a unit that fits one packet is sent with the bit as it is.
\<close>

theorem fu_a_clears_f_bit:
  assumes "rtp_codec R" and "is_decodable_nal nal CH264" and "bit (nal ! 0) 7"
  shows "\<exists>pkts c'. dispatch R (FVideo CH264 [nal] pts key au_end) c = Some (pkts, c') \<and>
    depay CH264 (map rtp_payload pkts) =
      [if length nal + 12 \<le> DEFAULT_MTU then nal else (nal ! 0 AND 0x7f) # drop 1 nal] \<and>
    (DEFAULT_MTU < length nal + 12 \<longrightarrow> depay CH264 (map rtp_payload pkts) \<noteq> [nal])"
proof -
  have "nal ! 0 AND 0x7f \<noteq> nal ! 0" using assms(3) by (simp add: byte_mask_eq)
  moreover have "nal \<noteq> []" by (rule decodable_type [OF assms(2)])
  ultimately have ne: "(nal ! 0 AND 0x7f) # drop 1 nal \<noteq> nal" by (cases nal) auto
  show ?thesis
    using depay_nals [of "[nal]" CH264] assms(2) ne
    by (rule_tac dispatch_video_packets [OF assms(1), of CH264 "[nal]" pts key au_end c])
      (auto simp: received_nal_def)
qed

theorem fu_a_clears_f_bit_witness:
  "\<exists>pkts c'. dispatch std_rtp (FVideo CH264 [0xe5 # replicate 1400 7] 0 True True)
        \<lparr>ssrc = 5, seq = 1\<rparr> = Some (pkts, c') \<and>
    depay CH264 (map rtp_payload pkts) = [0x65 # replicate 1400 7] \<and>
    depay CH264 (map rtp_payload pkts) \<noteq> [0xe5 # replicate 1400 7]"
proof -
  have "bit (0xe5 :: byte) 7" by (simp add: bit_numeral_rec numeral_eq_Suc)
  moreover have "(0xe5 :: byte) AND 0x7f = 0x65" by simp
  ultimately show ?thesis
    using fu_a_clears_f_bit [OF std_rtp.rtp_codec_axioms, of "0xe5 # replicate 1400 7" 0 True True
        "\<lparr>ssrc = 5, seq = 1\<rparr>"]
    by (simp add: is_decodable_nal_def h264_from_header_byte_def DEFAULT_MTU_def)
qed

text \<open>AAC-hbr: one 16-bit AU header (13 bits of size) after its length in bits.\<close>

definition depay_aac :: "bytes \<Rightarrow> bytes option" where
  "depay_aac p =
     (if take 2 p \<noteq> [0x00, 0x10] then None
      else let size = unat (drop_bit 3 (from_le (rev (take 2 (drop 2 p))) :: u16)); au = drop 4 p
           in if size = length au then Some au else None)"

text \<open>
  AAC output is faithful. An access unit that fits the 13-bit size field (every ADTS frame
  does) is sent as one packet, marker set, from which the receiver reads back exactly the unit.
\<close>

theorem rtp_aac_faithful:
  assumes "rtp_codec R" and "length au \<le> 8191"
  shows "\<exists>pkt. dispatch R (FAudio (PAac au rate ch) pts) c = Some ([pkt], c\<lparr>seq := seq c + 1\<rparr>) \<and>
    depay_aac (rtp_payload pkt) = Some au \<and> rtp_marker pkt \<and> rtp_seq pkt = seq c"
proof -
  have "push_bit 3 (of_nat (length au) :: u16) = of_nat (8 * length au)"
    by (simp add: push_bit_eq_mult)
  moreover have "drop_bit 3 (of_nat (8 * length au) :: u16) = of_nat (length au)"
  proof -
    have "unat (of_nat (8 * length au) :: u16) = 8 * length au"
      using assms(2) by (intro unat_of_nat_u16) simp
    then show ?thesis
      using assms(2)
      by (intro word_unat_eq_iff [THEN iffD2])
        (simp only: unat_drop_bit_eq, simp add: drop_bit_eq_div)
  qed
  ultimately have "depay_aac (build_au_hbr_payload au) = Some au"
    using assms(2) by (simp add: depay_aac_def build_au_hbr_payload_def to_be16_def)
  moreover have "length (build_au_hbr_payload au) \<le> 65000"
    using assms(2) by (simp add: build_au_hbr_payload_def)
  ultimately show ?thesis
    using rtp_codec.build_packet_fields [OF assms(1), of AAC_PAYLOAD_TYPE "build_au_hbr_payload au"]
    by (simp add: dispatch_audio_def next_seq_def Let_def AAC_PAYLOAD_TYPE_def)
qed

theorem rtp_aac_faithful_witness:
  "\<exists>pkt. dispatch std_rtp (FAudio (PAac [1, 2, 3] 16000 1) 7) \<lparr>ssrc = 5, seq = 0xffff\<rparr> =
      Some ([pkt], \<lparr>ssrc = 5, seq = 0xffff + 1\<rparr>) \<and>
    depay_aac (rtp_payload pkt) = Some [1, 2, 3] \<and> rtp_marker pkt \<and> rtp_seq pkt = 0xffff"
  using rtp_aac_faithful [OF std_rtp.rtp_codec_axioms, of "[1, 2, 3]" 16000 1 7
      "\<lparr>ssrc = 5, seq = 0xffff\<rparr>"]
  by simp

text \<open>
  An accepted ADTS header is within its bounds: the frame length covers the header and fits
  the 13 bits of the AAC-hbr size field, object type and block count are in 1..4, and the stream
  description can be built from it unless the channel count is left to a program config element.
\<close>

theorem adts_bounds:
  assumes "parse_adts buf = Some h"
  shows "ADTS_HEADER_LEN \<le> adts_frame_length h \<and> adts_frame_length h \<le> 8191 \<and>
    adts_aot h \<in> {1..4} \<and> aac_frames h \<in> {1..4} \<and> adts_channels h \<le> 7 \<and>
    (adts_channels h \<noteq> 0 \<longrightarrow>
       build_audio_specific_config_hex (adts_aot h) (adts_sample_rate h) (adts_channels h) \<noteq> None)"
proof -
  have low2: "(x AND 0x03) + 1 \<in> {1..4}" for x :: u8
  proof -
    have "unat (x AND 0x03) \<le> 3" using word_and_bound [of x 3] by simp
    then have "unat ((x AND 0x03) + 1) = Suc (unat (x AND 0x03))"
      by (subst unat_add_lem [THEN iffD1]) simp_all
    then show ?thesis using word_and_bound [of x 3] by (simp add: word_le_nat_alt)
  qed
  have chan: "push_bit 2 (x AND 0x01) OR (y AND 0x03) \<le> 7" for x y :: u8
  proof -
    have "push_bit 2 (x AND 0x01) OR (y AND 0x03) = (push_bit 2 (x AND 0x01) OR (y AND 0x03)) AND 7"
      by (rule byte_eqI) (simp_all add: byte_bits)
    then show ?thesis by (metis word_and_le1)
  qed
  have aot: "\<not> (a < 1 \<or> 29 < a)" if "a \<in> {1..4}" for a :: u8
    using that by (auto simp: word_less_nat_alt word_le_nat_alt)
  have rate: "sample_rate_index (adts_sample_rate h) \<noteq> None"
    using assms by (rule parse_adtsE) (simp add: sample_rate_index_table)
  have "ADTS_HEADER_LEN \<le> adts_frame_length h \<and> adts_frame_length h \<le> 8191"
    and "adts_aot h \<in> {1..4} \<and> aac_frames h \<in> {1..4}" and "adts_channels h \<le> 7"
    by (rule parse_adtsE [OF assms]; simp only: low2 adts_length_bound chan simp_thms)+
  with rate aot [of "adts_aot h"] show ?thesis
    by (auto simp: build_audio_specific_config_hex_def Let_def not_less)
qed

theorem adts_bounds_witness:
  "\<exists>h. parse_adts [0xff, 0xf1, 0x60, 0x40, 0x02, 0x1f, 0xfc] = Some h \<and>
    ADTS_HEADER_LEN \<le> adts_frame_length h \<and> adts_frame_length h \<le> 8191 \<and>
    adts_aot h \<in> {1..4} \<and> aac_frames h \<in> {1..4} \<and> adts_channels h \<le> 7 \<and>
    (adts_channels h \<noteq> 0 \<longrightarrow>
       build_audio_specific_config_hex (adts_aot h) (adts_sample_rate h) (adts_channels h) \<noteq> None)"
proof -
  have "parse_adts [0xff, 0xf1, 0x60, 0x40, 0x02, 0x1f, 0xfc] =
    Some \<lparr>adts_aot = 2, adts_sample_rate = 16000, adts_channels = 1, adts_frame_length = 16,
          aac_frames = 1\<rparr>"
    by (simp add: parse_adts_def ADTS_HEADER_LEN_def sample_rates_def)
  then show ?thesis using adts_bounds by blast
qed

end
