(* ===== verification/Audio.thy ===== *)
theory Audio
  imports Prelude
begin

text \<open>
  The audio path for cameras without AAC (\<open>src/rtsp/codec/g711.rs\<close>, \<open>src/rtsp/transcode\<close>): IMA ADPCM
  to PCM at 16 kHz, decimation to 8 kHz, and G.711 \<open>\<mu>\<close>-law. Samples are \<open>int\<close>; \<open>i16_range\<close> is the
  range of \<open>i16\<close>, and the theorems show that no intermediate value leaves its machine type.
\<close>

section \<open>Samples\<close>

definition I16_MIN :: int where "I16_MIN = - 32768"
definition I16_MAX :: int where "I16_MAX = 32767"

definition i16_range :: "int set" where "i16_range = {I16_MIN..I16_MAX}"

definition clamp :: "int \<Rightarrow> int \<Rightarrow> int \<Rightarrow> int" where
  "clamp lo hi x = max lo (min hi x)"

lemma i16_bounds: "x \<in> i16_range \<longleftrightarrow> - 32768 \<le> x \<and> x \<le> 32767"
  by (auto simp: i16_range_def I16_MIN_def I16_MAX_def)

lemma clamp_range: "lo \<le> hi \<Longrightarrow> lo \<le> clamp lo hi x \<and> clamp lo hi x \<le> hi"
  by (auto simp: clamp_def)

section \<open>G.711\<close>

definition BIAS :: int where "BIAS = 0x84"
definition CLIP :: int where "CLIP = 32635"
definition G711_CLOCK_HZ :: u32 where "G711_CLOCK_HZ = 8000"
definition G711_SAMPLES_PER_FRAME :: usize where "G711_SAMPLES_PER_FRAME = 160"

fun log2_loop :: "nat \<Rightarrow> u16 \<Rightarrow> nat" where
  "log2_loop exp val = (if 0 < exp \<and> val AND 0x4000 = 0 then log2_loop (exp - 1) (push_bit 1 val) else exp)"

declare log2_loop.simps [simp del]

definition log2_exp :: "u16 \<Rightarrow> nat" where
  "log2_exp biased = log2_loop 7 biased"

definition encode_sample :: "int \<Rightarrow> u8" where
  "encode_sample pcm =
     (let (sign, sample) = (if pcm < 0 then (0x80, - (max pcm (- CLIP))) else (0x00, min pcm CLIP));
          biased = min (sample + BIAS) I16_MAX;
          exponent = log2_exp (word_of_int biased);
          mantissa = word_of_int (drop_bit (exponent + 3) biased AND 0x0f) :: u8;
          ulaw = sign OR push_bit 4 (of_nat exponent) OR mantissa
      in NOT ulaw)"

definition decode_sample :: "u8 \<Rightarrow> int" where
  "decode_sample ulaw =
     (let u = NOT ulaw;
          sign = u AND 0x80;
          exponent = unat (drop_bit 4 u AND 0x07);
          mantissa = u AND 0x0f;
          magnitude = push_bit (exponent + 3) (uint mantissa) + BIAS * push_bit exponent 1 - BIAS;
          s = clamp I16_MIN I16_MAX magnitude
      in if sign \<noteq> 0 then - s else s)"

definition g711_encode :: "int list \<Rightarrow> bytes" where
  "g711_encode pcm = map encode_sample pcm"

definition g711_decode :: "bytes \<Rightarrow> int list" where
  "g711_decode ulaw = map decode_sample ulaw"

section \<open>IMA ADPCM\<close>

definition STEP_TABLE :: "int list" where
  "STEP_TABLE = [
     7, 8, 9, 10, 11, 12, 13, 14, 16, 17, 19, 21, 23, 25, 28, 31, 34, 37, 41, 45, 50, 55, 60, 66,
     73, 80, 88, 97, 107, 118, 130, 143, 157, 173, 190, 209, 230, 253, 279, 307, 337, 371, 408, 449,
     494, 544, 598, 658, 724, 796, 876, 963, 1060, 1166, 1282, 1411, 1552, 1707, 1878, 2066, 2272,
     2499, 2749, 3024, 3327, 3660, 4026, 4428, 4871, 5358, 5894, 6484, 7132, 7845, 8630, 9493,
     10442, 11487, 12635, 13899, 15289, 16818, 18500, 20350, 22385, 24623, 27086, 29794, 32767]"

definition INDEX_TABLE :: "int list" where
  "INDEX_TABLE = [-1, -1, -1, -1, 2, 4, 6, 8, -1, -1, -1, -1, 2, 4, 6, 8]"

record AdpcmDecoder =
  predictor :: int
  step_index :: int

definition AdpcmDecoder_new :: AdpcmDecoder where
  "AdpcmDecoder_new = \<lparr>predictor = 0, step_index = 0\<rparr>"

datatype AdpcmError = TooShort | InvalidStepIndex u8

text \<open>Indexing a table out of its bounds is a panic.\<close>

definition index_of :: "'a list \<Rightarrow> int \<Rightarrow> 'a option" where
  "index_of xs i = (if 0 \<le> i \<and> nat i < length xs then Some (xs ! nat i) else None)"

definition adpcm_diff :: "int \<Rightarrow> u8 \<Rightarrow> int" where
  "adpcm_diff step nibble =
     (let d = drop_bit 3 step;
          d = (if nibble AND 4 \<noteq> 0 then d + step else d);
          d = (if nibble AND 2 \<noteq> 0 then d + drop_bit 1 step else d)
      in if nibble AND 1 \<noteq> 0 then d + drop_bit 2 step else d)"

definition decode_nibble :: "u8 \<Rightarrow> AdpcmDecoder \<Rightarrow> (int \<times> AdpcmDecoder) option" where
  "decode_nibble nibble dec =
     (let nibble = nibble AND 0x0f
      in case (index_of STEP_TABLE (step_index dec), index_of INDEX_TABLE (uint nibble)) of
           (Some step, Some adj) \<Rightarrow>
             (let diff = adpcm_diff step (nibble AND 0x07);
                  p = (if nibble AND 0x08 \<noteq> 0 then predictor dec - diff else predictor dec + diff);
                  p = clamp I16_MIN I16_MAX p
              in Some (p, \<lparr>predictor = p, step_index = clamp 0 88 (step_index dec + adj)\<rparr>))
         | _ \<Rightarrow> None)"

text \<open>The loop over the data bytes, low nibble first; \<open>None\<close> if an index is out of bounds.\<close>

fun decode_data :: "bytes \<Rightarrow> AdpcmDecoder \<Rightarrow> (int list \<times> AdpcmDecoder) option" where
  "decode_data [] dec = Some ([], dec)"
| "decode_data (b # bs) dec =
     (case decode_nibble (b AND 0x0f) dec of
        None \<Rightarrow> None
      | Some (lo, dec1) \<Rightarrow>
          (case decode_nibble (drop_bit 4 b AND 0x0f) dec1 of
             None \<Rightarrow> None
           | Some (hi, dec2) \<Rightarrow>
               (case decode_data bs dec2 of
                  None \<Rightarrow> None
                | Some (out, dec3) \<Rightarrow> Some (lo # hi # out, dec3))))"

definition decode_block ::
  "bytes \<Rightarrow> AdpcmDecoder \<Rightarrow> ((AdpcmError + int list) \<times> AdpcmDecoder) option" where
  "decode_block block dec =
     (if length block < 5 then Some (Err TooShort, dec)
      else
        (let dec = \<lparr>predictor = sint (from_le (take 2 block) :: u16), step_index = uint (block ! 2)\<rparr>
         in if \<not> (0 \<le> step_index dec \<and> step_index dec \<le> 88)
            then Some (Err (InvalidStepIndex (block ! 2)), dec)
            else case decode_data (drop 4 block) dec of
              None \<Rightarrow> None
            | Some (out, dec') \<Rightarrow> Some (Ok (predictor dec # out), dec')))"

section \<open>Decimation\<close>

fun decimate_16_to_8 :: "int list \<Rightarrow> int list" where
  "decimate_16_to_8 (a # b # rest) = drop_bit 1 (a + b + 1) # decimate_16_to_8 rest"
| "decimate_16_to_8 _ = []"

section \<open>The exponent\<close>

lemma and_4000: "(w :: u16) AND 0x4000 = 0 \<longleftrightarrow> \<not> bit w 14"
  using and_exp_eq_0_iff_not_bit [of w 14] by simp

lemma bit_top:
  fixes b :: int
  assumes "0 \<le> b" "b < 2 * 2 ^ k"
  shows "bit b k \<longleftrightarrow> 2 ^ k \<le> b"
proof (cases "2 ^ k \<le> b")
  case True
  then have "b div 2 ^ k = 1" using assms by (intro div_pos_geq [THEN trans]) (auto simp: div_pos_pos_trivial)
  then show ?thesis using True by (simp add: bit_iff_odd)
next
  case False
  then have "b div 2 ^ k = 0" using assms by (simp add: div_pos_pos_trivial)
  then show ?thesis using False by (simp add: bit_iff_odd)
qed

lemma log2_loop_step:
  "k \<le> 14 \<Longrightarrow> log2_loop (Suc n) (push_bit k w) =
     (if bit w (14 - k) then Suc n else log2_loop n (push_bit (Suc k) w))"
  by (subst log2_loop.simps) (simp only: and_4000 bit_push_bit_iff push_bit_push_bit, simp)

lemma log2_exp_bits:
  "log2_exp w = (if bit w 14 then 7 else if bit w 13 then 6 else if bit w 12 then 5
     else if bit w 11 then 4 else if bit w 10 then 3 else if bit w 9 then 2 else if bit w 8 then 1 else 0)"
proof -
  have "log2_exp w = log2_loop (Suc (Suc (Suc (Suc (Suc (Suc (Suc 0))))))) (push_bit 0 w)"
    by (simp add: log2_exp_def eval_nat_numeral)
  also have "\<dots> = (if bit w 14 then 7 else if bit w 13 then 6 else if bit w 12 then 5
     else if bit w 11 then 4 else if bit w 10 then 3 else if bit w 9 then 2 else if bit w 8 then 1 else 0)"
    by (simp only: log2_loop_step le0 Suc_le_eq zero_less_numeral Suc_less_eq less_numeral_extra)
      (simp add: log2_loop_step log2_loop.simps [of 0] del: push_bit_Suc)
  finally show ?thesis .
qed

lemma log2_exp_spec:
  assumes "132 \<le> b" "b \<le> 32767"
  defines "e \<equiv> log2_exp (word_of_int b)"
  shows "e \<le> 7" "2 ^ (e + 7) \<le> b" "b < 2 ^ (e + 8)"
proof -
  have bits: "bit (word_of_int b :: u16) k \<longleftrightarrow> bit b k" if "k < 16" for k
    using that by (simp add: bit_word_of_int_iff)
  have top: "bit b k \<longleftrightarrow> 2 ^ k \<le> b" if "b < 2 * 2 ^ k" for k
    using bit_top [of b k] assms(1) that by simp
  show "e \<le> 7" "2 ^ (e + 7) \<le> b" "b < 2 ^ (e + 8)"
    using assms(1,2) top [of 14] top [of 13] top [of 12] top [of 11] top [of 10] top [of 9] top [of 8]
    by (auto simp: e_def log2_exp_bits bits)
qed

lemma ulaw_fields:
  assumes "e < 8" "m < 16" "s = 0 \<or> s = 0x80"
  defines "u \<equiv> s OR push_bit 4 (of_nat e) OR of_nat m :: u8"
  shows "u AND 0x80 = s" "unat (drop_bit 4 u AND 0x07) = e" "unat (u AND 0x0f) = m"
proof -
  have "\<forall>e\<in>set [0..<8]. \<forall>m\<in>set [0..<16]. \<forall>s\<in>set [0, 0x80].
    (s OR push_bit 4 (of_nat e) OR of_nat m :: u8) AND 0x80 = s \<and>
    unat (drop_bit 4 (s OR push_bit 4 (of_nat e) OR of_nat m :: u8) AND 0x07) = e \<and>
    unat ((s OR push_bit 4 (of_nat e) OR of_nat m :: u8) AND 0x0f) = m"
    by code_simp
  moreover have "e \<in> set [0..<8]" "m \<in> set [0..<16]" "s \<in> set [0, 0x80]" using assms by auto
  ultimately show "u AND 0x80 = s" "unat (drop_bit 4 u AND 0x07) = e" "unat (u AND 0x0f) = m"
    unfolding u_def by blast+
qed

section \<open>One sample\<close>

text \<open>The code of a magnitude: exponent and mantissa of the biased value.\<close>

lemma encode_fields:
  assumes "x \<in> i16_range"
  defines "c \<equiv> clamp (- CLIP) CLIP x"
  obtains e m where "e < 8" "m < 16" "encode_sample x = NOT ((if x < 0 then 0x80 else 0) OR push_bit 4 (of_nat e) OR of_nat m)"
    "int (16 + m) * 2 ^ (e + 3) \<le> \<bar>c\<bar> + 132" "\<bar>c\<bar> + 132 < int (17 + m) * 2 ^ (e + 3)" "\<bar>c\<bar> \<le> 32635"
proof -
  define b where "b = \<bar>c\<bar> + 132"
  define e where "e = log2_exp (word_of_int b)"
  define m where "m = nat (b div 2 ^ (e + 3) - 16)"
  have c: "\<bar>c\<bar> \<le> 32635" by (auto simp: c_def clamp_def CLIP_def)
  have b: "132 \<le> b" "b \<le> 32767" using c by (simp_all add: b_def)
  note e = log2_exp_spec [OF b, folded e_def]
  define q where "q = b div 2 ^ (e + 3)"
  have mod: "q * 2 ^ (e + 3) + b mod 2 ^ (e + 3) = b" "0 \<le> b mod 2 ^ (e + 3)" "b mod 2 ^ (e + 3) < 2 ^ (e + 3)"
    by (simp_all only: q_def div_mult_mod_eq pos_mod_sign pos_mod_bound zero_less_power zero_less_numeral)
  have q: "16 \<le> q" "q < 32"
  proof -
    have pw: "(2 :: int) ^ (e + 7) = 16 * 2 ^ (e + 3)" "(2 :: int) ^ (e + 8) = 32 * 2 ^ (e + 3)"
      by (simp_all add: power_add)
    have d: "(q + 1) * 2 ^ (e + 3) = q * 2 ^ (e + 3) + 2 ^ (e + 3)" by (simp add: distrib_right)
    have "16 * 2 ^ (e + 3) < (q + 1) * 2 ^ (e + 3)" using e(2) mod unfolding pw d by linarith
    then have "16 < q + 1" by (rule mult_right_less_imp_less) simp
    then show "16 \<le> q" by simp
    have "q * 2 ^ (e + 3) < 32 * 2 ^ (e + 3)" using e(3) mod unfolding pw by linarith
    then show "q < 32" by (rule mult_right_less_imp_less) simp
  qed
  have m: "int m = q - 16" "m < 16" using q by (auto simp: m_def q_def)
  have "q AND 15 = q mod 16" using take_bit_eq_mask [of 4 q] by (simp add: take_bit_eq_mod mask_eq_exp_minus_1)
  also have "\<dots> = int m" using q m by presburger
  finally have mant: "(word_of_int (drop_bit (e + 3) b AND 0x0f) :: u8) = of_nat m"
    by (simp add: drop_bit_eq_div q_def)
  have samp: "min (\<bar>c\<bar> + BIAS) I16_MAX = b"
    using b by (simp add: b_def BIAS_def I16_MAX_def)
  have enc: "encode_sample x = NOT ((if x < 0 then 0x80 else 0) OR push_bit 4 (of_nat e) OR of_nat m)"
  proof (cases "x < 0")
    case True
    then have "- max x (- CLIP) = \<bar>c\<bar>" by (auto simp: c_def clamp_def CLIP_def)
    then show ?thesis using True mant by (simp add: encode_sample_def samp Let_def flip: e_def)
  next
    case False
    then have "min x CLIP = \<bar>c\<bar>" by (auto simp: c_def clamp_def CLIP_def)
    then show ?thesis using False mant by (simp add: encode_sample_def samp Let_def flip: e_def)
  qed
  have "int (16 + m) = q" "int (17 + m) = q + 1" using m by simp_all
  then have "int (16 + m) * 2 ^ (e + 3) \<le> b" "b < int (17 + m) * 2 ^ (e + 3)"
    using mod by (simp_all only: distrib_right mult_1)
  then show thesis
    using that [of e m] enc e(1) m(2) c by (simp add: b_def)
qed

lemma magnitude_bounds:
  assumes "e < 8" "m < 16"
  shows "0 \<le> int (8 * (16 + m) + 4) * 2 ^ e - 132" "int (8 * (16 + m) + 4) * 2 ^ e - 132 \<le> 32124"
proof -
  have "2 ^ e \<le> (2 :: int) ^ 7" using assms(1) by (intro power_increasing) auto
  then have pe: "1 \<le> (2 :: int) ^ e" "2 ^ e \<le> (128 :: int)" by simp_all
  have "int (8 * (16 + m) + 4) * 2 ^ e \<le> 252 * 128"
    using assms(2) pe by (intro mult_mono) auto
  moreover have "132 * 1 \<le> int (8 * (16 + m) + 4) * 2 ^ e"
    using pe by (intro mult_mono) auto
  ultimately show "0 \<le> int (8 * (16 + m) + 4) * 2 ^ e - 132" "int (8 * (16 + m) + 4) * 2 ^ e - 132 \<le> 32124"
    by simp_all
qed

lemma decode_fields:
  assumes "u AND 0x80 = s" "unat (drop_bit 4 u AND 0x07) = e" "unat (u AND 0x0f) = m" "e < 8" "m < 16"
  shows "decode_sample (NOT u) = (if s = 0 then 1 else - 1) * (int (8 * (16 + m) + 4) * 2 ^ e - 132)"
proof -
  have u: "uint (u AND 0x0f) = int m" using assms(3) by (metis uint_nat)
  have mag: "push_bit (e + 3) (int m) + BIAS * push_bit e 1 - BIAS = int (8 * (16 + m) + 4) * 2 ^ e - 132"
    by (simp add: push_bit_eq_mult BIAS_def power_add algebra_simps)
  have "clamp I16_MIN I16_MAX (int (8 * (16 + m) + 4) * 2 ^ e - 132) = int (8 * (16 + m) + 4) * 2 ^ e - 132"
    using magnitude_bounds [OF assms(4,5)] by (simp add: clamp_def I16_MIN_def I16_MAX_def)
  then show ?thesis
    unfolding decode_sample_def Let_def bit.double_compl assms(1,2) u mag by simp
qed

text \<open>
  \<open>\<mu>\<close>-law keeps the signal. For every 16-bit sample, decoding its code gives the clipped sample up
  to a relative error of 1/32 (of the biased magnitude), with its sign and within the range of \<open>i16\<close>.
\<close>

theorem ulaw_error_bound:
  assumes "x \<in> i16_range"
  defines "c \<equiv> clamp (- CLIP) CLIP x" and "y \<equiv> decode_sample (encode_sample x)"
  shows "32 * \<bar>y - c\<bar> \<le> \<bar>c\<bar> + 132 \<and> (x < 0 \<longrightarrow> y \<le> 0) \<and> (0 \<le> x \<longrightarrow> 0 \<le> y) \<and> y \<in> i16_range"
proof -
  obtain e m where em: "e < 8" "m < 16"
    and enc: "encode_sample x = NOT ((if x < 0 then 0x80 else 0) OR push_bit 4 (of_nat e) OR of_nat m)"
    and lo: "int (16 + m) * 2 ^ (e + 3) \<le> \<bar>c\<bar> + 132" and hi: "\<bar>c\<bar> + 132 < int (17 + m) * 2 ^ (e + 3)"
    and cl: "\<bar>c\<bar> \<le> 32635"
    using encode_fields [OF assms(1)] unfolding c_def by blast
  define g where "g = (2 :: int) ^ e"
  have g: "1 \<le> g" by (simp add: g_def)
  define mag where "mag = int (8 * (16 + m) + 4) * g - 132"
  have y: "y = (if x < 0 then - mag else mag)"
    using decode_fields [OF ulaw_fields [OF em] em, of "if x < 0 then 0x80 else 0"]
    by (auto simp: y_def enc mag_def g_def)
  have p3: "(2 :: int) ^ (e + 3) = 8 * g" by (simp add: g_def power_add)
  have "16 * (8 * g) \<le> int (16 + m) * (8 * g)" using g by (intro mult_right_mono) auto
  then have gl: "128 * g \<le> \<bar>c\<bar> + 132" using lo unfolding p3 by linarith
  have "\<bar>mag - \<bar>c\<bar>\<bar> \<le> 4 * g"
    using lo hi by (simp add: p3 mag_def algebra_simps abs_le_iff)
  moreover have "\<bar>y - c\<bar> = \<bar>mag - \<bar>c\<bar>\<bar>"
  proof (cases "x < 0")
    case True
    then have "\<bar>c\<bar> = - c" by (auto simp: c_def clamp_def CLIP_def)
    then show ?thesis using True by (simp add: y)
  next
    case False
    then have "\<bar>c\<bar> = c" by (auto simp: c_def clamp_def CLIP_def)
    then show ?thesis using False by (simp add: y)
  qed
  ultimately have "32 * \<bar>y - c\<bar> \<le> 128 * g" by simp
  with gl have "32 * \<bar>y - c\<bar> \<le> \<bar>c\<bar> + 132" by (rule order_trans [rotated])
  moreover have "0 \<le> mag" "mag \<le> 32124" using magnitude_bounds [OF em] by (simp_all add: mag_def g_def)
  ultimately show ?thesis by (simp add: i16_bounds y)
qed

theorem ulaw_error_bound_witness:
  "32 * \<bar>decode_sample (encode_sample (- 32768)) - clamp (- CLIP) CLIP (- 32768)\<bar> \<le>
     \<bar>clamp (- CLIP) CLIP (- 32768)\<bar> + 132 \<and> decode_sample (encode_sample (- 32768)) \<le> 0"
  using ulaw_error_bound [of "- 32768"] by (simp add: i16_bounds)

lemma code_unique:
  assumes "e < 8" "m < 16" "e' < 8" "m' < 16"
    and "int (16 + m') * 2 ^ (e' + 3) \<le> int (8 * (16 + m) + 4) * 2 ^ e - 132 + 132"
    and "int (8 * (16 + m) + 4) * 2 ^ e - 132 + 132 < int (17 + m') * 2 ^ (e' + 3)"
  shows "e' = e \<and> m' = m"
proof -
  have "\<forall>e\<in>set [0..<8]. \<forall>e'\<in>set [0..<8]. e' \<noteq> e \<longrightarrow>
    \<not> (16 * 2 ^ (e' + 3) \<le> (252 :: int) * 2 ^ e \<and> 132 * (2 :: int) ^ e < 32 * 2 ^ (e' + 3))"
    by code_simp
  moreover have "16 * 2 ^ (e' + 3) \<le> (252 :: int) * 2 ^ e"
  proof -
    have "16 * 2 ^ (e' + 3) \<le> int (16 + m') * 2 ^ (e' + 3)" by (intro mult_right_mono) auto
    also have "\<dots> \<le> int (8 * (16 + m) + 4) * 2 ^ e" using assms(5) by simp
    also have "\<dots> \<le> 252 * 2 ^ e" using assms(2) by (intro mult_right_mono) auto
    finally show ?thesis .
  qed
  moreover have "132 * (2 :: int) ^ e < 32 * 2 ^ (e' + 3)"
  proof -
    have "132 * (2 :: int) ^ e \<le> int (8 * (16 + m) + 4) * 2 ^ e" by (intro mult_right_mono) auto
    also have "\<dots> < int (17 + m') * 2 ^ (e' + 3)" using assms(6) by simp
    also have "\<dots> \<le> 32 * 2 ^ (e' + 3)" using assms(4) by (intro mult_right_mono) auto
    finally show ?thesis .
  qed
  ultimately have e: "e' = e" using assms(1,3) by (metis atLeastLessThan_iff le0 set_upt)
  have "int (8 * (16 + m')) * 2 ^ e \<le> int (8 * (16 + m) + 4) * 2 ^ e"
    "int (8 * (16 + m) + 4) * 2 ^ e < int (8 * (17 + m')) * 2 ^ e"
    using assms(5,6) by (simp_all add: e power_add algebra_simps)
  then have "int (8 * (16 + m')) \<le> int (8 * (16 + m) + 4)" "int (8 * (16 + m) + 4) < int (8 * (17 + m'))"
    by (simp_all only: mult_le_cancel_right_pos mult_less_cancel_right_pos zero_less_power zero_less_numeral)
  then show ?thesis using e by simp
qed

text \<open>
  \<open>\<mu>\<close>-law codes are stable: encoding a decoded code gives the code back, for all 256 codes but
  negative zero, which becomes positive zero.
\<close>

theorem ulaw_stable:
  "encode_sample (decode_sample u) = (if u = 0x7f then 0xff else u)"
proof -
  define v where "v = NOT u"
  define e where "e = unat (drop_bit 4 v AND 0x07)"
  define m where "m = unat (v AND 0x0f)"
  have em: "e < 8" "m < 16"
    using word_and_bound [of "drop_bit 4 v" 7] word_and_bound [of v 15] by (simp_all add: e_def m_def)
  have v: "v = (v AND 0x80) OR push_bit 4 (of_nat e) OR of_nat m"
    by (rule byte_eqI) (simp_all add: e_def m_def byte_bits)
  have s: "v AND 0x80 = 0 \<or> v AND 0x80 = 0x80"
    using and_exp_eq_0_iff_not_bit [of v 7] by (auto intro!: byte_eqI simp: byte_bits)
  define mag where "mag = int (8 * (16 + m) + 4) * 2 ^ e - 132"
  have mb: "0 \<le> mag" "mag \<le> 32124" using magnitude_bounds [OF em] by (simp_all add: mag_def)
  have dec: "decode_sample u = (if v AND 0x80 = 0 then mag else - mag)"
    using decode_fields [of v "v AND 0x80" e m] em by (simp add: e_def m_def mag_def v_def)
  show ?thesis
  proof (cases "mag = 0")
    case True
    have "e = 0 \<and> m = 0"
    proof (rule ccontr)
      assume "\<not> (e = 0 \<and> m = 0)"
      then have "132 * 2 \<le> int (8 * (16 + m) + 4) * 2 ^ e \<or> 140 * 1 \<le> int (8 * (16 + m) + 4) * (2 :: int) ^ e"
      proof (cases "e = 0")
        case False
        then have "2 ^ 1 \<le> (2 :: int) ^ e" by (intro power_increasing) auto
        then show ?thesis by (intro disjI1 mult_mono) auto
      qed auto
      then show False using True by (auto simp: mag_def)
    qed
    then have "v = 0 \<or> v = 0x80" using v s by auto
    moreover have "encode_sample 0 = 0xff" by code_simp
    moreover have "u = NOT v" by (simp add: v_def)
    ultimately show ?thesis using dec True by auto
  next
    case False
    have "encode_sample (if s = 0 then mag else - mag) = NOT (s OR push_bit 4 (of_nat e) OR of_nat m)"
      if "s = 0 \<or> s = 0x80" for s :: u8
    proof -
      let ?x = "if s = 0 then mag else - mag"
      have r: "?x \<in> i16_range" and c: "\<bar>clamp (- CLIP) CLIP ?x\<bar> = mag"
        using mb by (auto simp: i16_bounds clamp_def CLIP_def)
      obtain e' m' where em': "e' < 8" "m' < 16"
        and enc: "encode_sample ?x = NOT ((if ?x < 0 then 0x80 else 0) OR push_bit 4 (of_nat e') OR of_nat m')"
        and b: "int (16 + m') * 2 ^ (e' + 3) \<le> mag + 132" "mag + 132 < int (17 + m') * 2 ^ (e' + 3)"
        using encode_fields [OF r] unfolding c by metis
      have "e' = e \<and> m' = m" by (rule code_unique [OF em em' b [unfolded mag_def]]) 
      moreover have "(if ?x < 0 then 0x80 else 0) = s" using that mb False by auto
      ultimately show ?thesis using enc by simp
    qed
    from this [of "v AND 0x80"] have "encode_sample (decode_sample u) = NOT v"
      using s v dec by auto
    moreover have "u \<noteq> 0x7f"
    proof
      assume "u = 0x7f"
      then have "e = 0" "m = 0" by (simp_all add: v_def e_def m_def)
      then show False using False by (simp add: mag_def)
    qed
    ultimately show ?thesis by (simp add: v_def)
  qed
qed

section \<open>Blocks\<close>

definition dec_ok :: "AdpcmDecoder \<Rightarrow> bool" where
  "dec_ok d \<longleftrightarrow> predictor d \<in> i16_range \<and> 0 \<le> step_index d \<and> step_index d \<le> 88"

lemma tables: "length STEP_TABLE = 89" "length INDEX_TABLE = 16"
  by (simp_all add: STEP_TABLE_def INDEX_TABLE_def)

lemma decode_nibble_ok:
  assumes "dec_ok d"
  shows "\<exists>s d'. decode_nibble n d = Some (s, d') \<and> s \<in> i16_range \<and> dec_ok d'"
proof -
  have "index_of STEP_TABLE (step_index d) \<noteq> None" "index_of INDEX_TABLE (uint (n AND 0x0f)) \<noteq> None"
    using assms word_and_bound [of n 15] by (auto simp: index_of_def tables dec_ok_def)
  then show ?thesis
    using clamp_range [of I16_MIN I16_MAX] clamp_range [of 0 88]
    by (auto simp: decode_nibble_def dec_ok_def i16_range_def Let_def I16_MIN_def I16_MAX_def)
qed

lemma decode_data_ok:
  "dec_ok d \<Longrightarrow> \<exists>out d'. decode_data bs d = Some (out, d') \<and> length out = 2 * length bs \<and>
     set out \<subseteq> i16_range \<and> dec_ok d'"
proof (induction bs arbitrary: d)
  case (Cons b bs)
  obtain lo d1 where 1: "decode_nibble (b AND 0x0f) d = Some (lo, d1)" "lo \<in> i16_range" "dec_ok d1"
    using decode_nibble_ok [OF Cons.prems] by blast
  obtain hi d2 where 2: "decode_nibble (drop_bit 4 b AND 0x0f) d1 = Some (hi, d2)" "hi \<in> i16_range" "dec_ok d2"
    using decode_nibble_ok [OF 1(3)] by blast
  obtain out d3 where "decode_data bs d2 = Some (out, d3)" "length out = 2 * length bs"
    "set out \<subseteq> i16_range" "dec_ok d3"
    using Cons.IH [OF 2(3)] by blast
  with 1 2 show ?case by simp
qed simp

lemma decimate_spec:
  "length (decimate_16_to_8 xs) = length xs div 2"
  "set xs \<subseteq> i16_range \<Longrightarrow> set (decimate_16_to_8 xs) \<subseteq> i16_range"
  by (induction xs rule: decimate_16_to_8.induct) (auto simp: i16_bounds drop_bit_eq_div)

lemma decode_block_ok:
  assumes "5 \<le> length block" "block ! 2 \<le> 88"
  shows "\<exists>pcm d'. decode_block block d = Some (Ok pcm, d') \<and> set pcm \<subseteq> i16_range \<and>
    length pcm = 1 + 2 * (length block - 4)"
proof -
  let ?d = "\<lparr>predictor = sint (from_le (take 2 block) :: u16), step_index = uint (block ! 2)\<rparr>"
  have p: "predictor ?d \<in> i16_range"
    using sint_ge [of "from_le (take 2 block) :: u16"] sint_lt [of "from_le (take 2 block) :: u16"]
    by (simp add: i16_bounds)
  have le: "uint (block ! 2) \<le> 88" using assms(2) by (simp add: word_le_def)
  then have "dec_ok ?d" using p by (simp add: dec_ok_def)
  from decode_data_ok [OF this, of "drop 4 block"] obtain out d' where
    "decode_data (drop 4 block) ?d = Some (out, d')" "length out = 2 * (length block - 4)"
    "set out \<subseteq> i16_range" by auto
  then show ?thesis using assms(1) p le by (simp add: decode_block_def Let_def)
qed

lemma decode_block_err:
  "length block < 5 \<Longrightarrow> decode_block block d = Some (Err TooShort, d)"
  "5 \<le> length block \<Longrightarrow> 88 < block ! 2 \<Longrightarrow> \<exists>d'. decode_block block d = Some (Err (InvalidStepIndex (block ! 2)), d')"
  by (simp_all add: decode_block_def Let_def word_less_def not_le)

lemma decode_block_not_None: "decode_block block d \<noteq> None"
  using decode_block_ok [of block d] decode_block_err [of block d]
  by (cases "length block < 5"; cases "block ! 2 \<le> 88") (auto simp: not_less not_le)

text \<open>
  ADPCM decoding never panics and never overflows. From any decoder state a block is either
  refused (shorter than five bytes, or a step index above 88) or decoded to one sample plus two per
  data byte, all in the range of \<open>i16\<close>; decimated and \<open>\<mu>\<close>-law coded that is one byte per data byte.
\<close>

theorem adpcm_transcode_total:
  "\<exists>r d'. decode_block block d = Some (r, d') \<and>
    (case r of
       Inl TooShort \<Rightarrow> length block < 5
     | Inl (InvalidStepIndex i) \<Rightarrow> 5 \<le> length block \<and> i = block ! 2 \<and> 88 < i
     | Inr pcm \<Rightarrow> 5 \<le> length block \<and> block ! 2 \<le> 88 \<and> set pcm \<subseteq> i16_range \<and>
         length pcm = 1 + 2 * (length block - 4) \<and>
         set (decimate_16_to_8 pcm) \<subseteq> i16_range \<and>
         length (g711_encode (decimate_16_to_8 pcm)) = length block - 4)"
proof (cases "length block < 5")
  case False
  then have len: "5 \<le> length block" by simp
  show ?thesis
  proof (cases "block ! 2 \<le> 88")
    case True
    with decode_block_ok [OF len True, of d] len show ?thesis
      using decimate_spec by (fastforce simp: g711_encode_def)
  next
    case False
    with decode_block_err(2) [OF len, of d] len show ?thesis by (auto simp: not_le)
  qed
qed (simp add: decode_block_err)

text \<open>
  Decimation averages: each output sample lies between the two input samples it stands for, and a trailing odd
  sample is dropped.
\<close>

theorem decimate_between:
  assumes "i < length xs div 2"
  shows "min (xs ! (2 * i)) (xs ! (2 * i + 1)) \<le> decimate_16_to_8 xs ! i \<and>
    decimate_16_to_8 xs ! i \<le> max (xs ! (2 * i)) (xs ! (2 * i + 1))"
  using assms
proof (induction xs arbitrary: i rule: decimate_16_to_8.induct)
  case (1 a b rest)
  then show ?case by (cases i) (auto simp: drop_bit_eq_div)
qed auto

theorem decimate_between_witness:
  "min ([5, 9, 7 :: int] ! 0) ([5, 9, 7] ! 1) \<le> decimate_16_to_8 [5, 9, 7] ! 0"
  using decimate_between [of 0 "[5, 9, 7]"] by simp

end
