(* ===== verification/Translate.thy ===== *)
theory Translate
  imports Bcmedia Rtp Audio
begin

text \<open>
  From camera packets to RTSP frames (\<open>src/stream_translate.rs\<close>) and the last-frame buffer
  (\<open>src/rtsp/buffer.rs\<close>). \<open>translate\<close> is a pure function of a packet, the translator's state and the
  bridging gate; it returns the side effects in order. Durations are in microseconds.
\<close>

section \<open>Data\<close>

datatype AudioCodec = CAac | CG711Ulaw

record VideoParams =
  vp_codec :: VideoCodec
  vp_payload_type :: u8
  vp_sps :: bytes
  vp_pps :: bytes
  vp_vps :: "bytes option"
  profile_level_id :: bytes

record AudioParams =
  ap_codec :: AudioCodec
  ap_payload_type :: u8
  ap_sample_rate :: u32
  ap_channels :: u8
  asc_hex :: "string option"

record VideoBurst =
  vb_codec :: VideoCodec
  parameter_sets :: "bytes list"
  iframe_nals :: "bytes list"
  pframe_nals :: "bytes list list"
  captured_at :: nat
  captured_pts_90khz :: u32

record StreamTranslatorState =
  detected_codec :: "VideoCodec option"
  aac_pts_next :: u32
  g711_pts_next :: u32
  aac_aot :: "u8 option"
  last_video_pts_90khz :: "u32 option"
  sdp_audio_emitted :: bool

definition StreamTranslatorState_default :: StreamTranslatorState where
  "StreamTranslatorState_default = \<lparr>detected_codec = None, aac_pts_next = 0, g711_pts_next = 0,
     aac_aot = None, last_video_pts_90khz = None, sdp_audio_emitted = False\<rparr>"

datatype Emit =
    EVideo Frame nat
  | EAudio Frame nat
  | ESdpVideo VideoParams
  | ESdpAudio AudioParams
  | EReplaceVideoBurst VideoBurst
  | EAppendPframe "bytes list"
  | EAudioSeen AudioCodec

section \<open>Helpers\<close>

definition micros_to_90khz :: "u32 \<Rightarrow> u32" where
  "micros_to_90khz micros = ucast ((ucast micros :: u64) * 9 div 100)"

definition is_parameter_set_nal :: "VideoCodec \<Rightarrow> bytes \<Rightarrow> bool" where
  "is_parameter_set_nal codec nal =
     (if nal = [] then False
      else case codec of
        CH264 \<Rightarrow> h264_from_header_byte (nal ! 0) \<in> {7, 8}
      | CH265 \<Rightarrow> h265_from_header_byte (nal ! 0) \<in> {32, 33, 34})"

definition is_slice_nal :: "VideoCodec \<Rightarrow> bytes \<Rightarrow> bool" where
  "is_slice_nal codec nal =
     (if nal = [] then False
      else case codec of
        CH264 \<Rightarrow> (let ty = h264_from_header_byte (nal ! 0) in 1 \<le> ty \<and> ty \<le> 5)
      | CH265 \<Rightarrow> (let ty = h265_from_header_byte (nal ! 0) in ty \<le> 9 \<or> 16 \<le> ty \<and> ty \<le> 21))"

record iframe_parts =
  p_sets :: "bytes list"
  p_iframe :: "bytes list"
  p_sps :: "bytes option"
  p_pps :: "bytes option"
  p_vps :: "bytes option"

text \<open>One round of the loop over the units.\<close>

definition extract_step :: "VideoCodec \<Rightarrow> bytes \<Rightarrow> iframe_parts \<Rightarrow> iframe_parts" where
  "extract_step codec nal r =
     (if nal = [] then r
      else case codec of
        CH264 \<Rightarrow>
          (let ty = h264_from_header_byte (nal ! 0)
           in if ty = 7 then r\<lparr>p_sps := Some nal, p_sets := p_sets r @ [nal]\<rparr>
              else if ty = 8 then r\<lparr>p_pps := Some nal, p_sets := p_sets r @ [nal]\<rparr>
              else if ty = 5 then r\<lparr>p_iframe := p_iframe r @ [nal]\<rparr>
              else r)
      | CH265 \<Rightarrow>
          (let ty = h265_from_header_byte (nal ! 0)
           in if ty = 32 then r\<lparr>p_vps := Some nal, p_sets := p_sets r @ [nal]\<rparr>
              else if ty = 33 then r\<lparr>p_sps := Some nal, p_sets := p_sets r @ [nal]\<rparr>
              else if ty = 34 then r\<lparr>p_pps := Some nal, p_sets := p_sets r @ [nal]\<rparr>
              else if ty \<in> {19, 20, 21, 16} then r\<lparr>p_iframe := p_iframe r @ [nal]\<rparr>
              else r))"

definition extract_iframe_parts :: "VideoCodec \<Rightarrow> bytes list \<Rightarrow> iframe_parts" where
  "extract_iframe_parts codec nals =
     fold (extract_step codec) nals
       \<lparr>p_sets = [], p_iframe = [], p_sps = None, p_pps = None, p_vps = None\<rparr>"

definition aac_samples_per_au :: "u8 \<Rightarrow> u32 option" where
  "aac_samples_per_au aot = (if aot = 2 then Some 1024 else if aot = 5 \<or> aot = 29 then Some 2048 else None)"

definition PACER_ANOMALY_CAP_TICKS :: u32 where "PACER_ANOMALY_CAP_TICKS = 90000 * 5"

definition video_frame_duration :: "u32 \<Rightarrow> StreamTranslatorState \<Rightarrow> nat \<times> StreamTranslatorState" where
  "video_frame_duration pts st =
     (let dur = (case last_video_pts_90khz st of
            Some prev \<Rightarrow>
              (let delta = pts - prev;
                   ticks = (if delta > PACER_ANOMALY_CAP_TICKS then 0 else delta)
               in unat ticks * 1000000 div 90000)
          | None \<Rightarrow> 0)
      in (dur, st\<lparr>last_video_pts_90khz := Some pts\<rparr>))"

definition paced_audio_duration :: "u32 \<Rightarrow> u32 \<Rightarrow> nat" where
  "paced_audio_duration smps sample_rate =
     (if sample_rate = 0 then 0 else min (unat smps * 1000000) (2 ^ 64 - 1) div unat sample_rate)"

text \<open>\<open>iter().partition\<close> and \<open>append\<close>: the units that are not slices, then the slices.\<close>

definition reorder_nals :: "VideoCodec \<Rightarrow> bytes list \<Rightarrow> bytes list" where
  "reorder_nals codec nals =
     filter (\<lambda>n. \<not> is_slice_nal codec n) nals @ filter (is_slice_nal codec) nals"

fun first_codec :: "bytes list \<Rightarrow> VideoCodec option" where
  "first_codec [] = None"
| "first_codec (nal # nals) = (case detect_codec nal of Some c \<Rightarrow> Some c | None \<Rightarrow> first_codec nals)"

definition sdp_video :: "VideoCodec \<Rightarrow> iframe_parts \<Rightarrow> Emit list" where
  "sdp_video codec parts = (case (p_sps parts, p_pps parts) of
     (Some sps, Some pps) \<Rightarrow>
       [ESdpVideo \<lparr>vp_codec = codec, vp_payload_type = 96, vp_sps = sps, vp_pps = pps,
          vp_vps = p_vps parts,
          profile_level_id = (if length sps \<ge> 4 then [sps ! 1, sps ! 2, sps ! 3] else [0, 0, 0])\<rparr>]
   | _ \<Rightarrow> [])"

section \<open>Video\<close>

definition translate_iframe ::
  "BcMediaIframe \<Rightarrow> nat \<Rightarrow> StreamTranslatorState \<Rightarrow> (Emit list \<times> u32 option) \<times> StreamTranslatorState" where
  "translate_iframe iframe now st =
     (let nals = split_annex_b (if_data iframe)
      in if nals = [] then (([], None), st)
         else
           (let st = (if detected_codec st = None then st\<lparr>detected_codec := first_codec nals\<rparr> else st)
            in case detected_codec st of
                 None \<Rightarrow> (([], None), st)
               | Some codec \<Rightarrow>
                   (let nals = filter (\<lambda>n. is_decodable_nal n codec) nals
                    in if nals = [] then (([], None), st)
                       else
                         (let reordered = reorder_nals codec nals;
                              parts = extract_iframe_parts codec reordered;
                              pts = micros_to_90khz (if_microseconds iframe);
                              emits = sdp_video codec parts @
                                [EReplaceVideoBurst \<lparr>vb_codec = codec, parameter_sets = p_sets parts,
                                   iframe_nals = p_iframe parts, pframe_nals = [], captured_at = now,
                                   captured_pts_90khz = pts\<rparr>];
                              out = filter (\<lambda>n. \<not> is_parameter_set_nal codec n) reordered
                          in if out = [] then ((emits, None), st)
                             else
                               (let (pace, st) = video_frame_duration pts st
                                in ((emits @ [EVideo (FVideo codec out pts True True) pace], Some pts), st))))))"

definition translate_pframe ::
  "BcMediaPframe \<Rightarrow> StreamTranslatorState \<Rightarrow> (Emit list \<times> u32 option) \<times> StreamTranslatorState" where
  "translate_pframe pframe st =
     (case detected_codec st of
        None \<Rightarrow> (([], None), st)
      | Some codec \<Rightarrow>
          (let nals = filter (\<lambda>n. is_decodable_nal n codec) (split_annex_b (pf_data pframe))
           in if nals = [] then (([], None), st)
              else
                (let reordered = reorder_nals codec nals;
                     pts = micros_to_90khz (pf_microseconds pframe);
                     (pace, st) = video_frame_duration pts st
                 in (([EAppendPframe reordered, EVideo (FVideo codec reordered pts False True) pace],
                      Some pts), st))))"

section \<open>Audio\<close>

definition translate_aac ::
  "BcMediaAac \<Rightarrow> bool \<Rightarrow> StreamTranslatorState \<Rightarrow> Emit list \<times> StreamTranslatorState" where
  "translate_aac aac bridging st =
     (case parse_adts (aac_data aac) of
        None \<Rightarrow> ([], st)
      | Some header \<Rightarrow>
          if adts_channels header = 0 then ([], st\<lparr>aac_aot := Some (adts_aot header)\<rparr>)
          else
            (let (emits, st) =
               (if sdp_audio_emitted st then ([], st)
                else case build_audio_specific_config_hex (adts_aot header) (adts_sample_rate header)
                        (adts_channels header) of
                  Some asc \<Rightarrow>
                    ([ESdpAudio \<lparr>ap_codec = CAac, ap_payload_type = AAC_PAYLOAD_TYPE,
                       ap_sample_rate = adts_sample_rate header, ap_channels = adts_channels header,
                       asc_hex = Some asc\<rparr>], st\<lparr>sdp_audio_emitted := True\<rparr>)
                | None \<Rightarrow> ([], st))
             in if length (aac_data aac) < ADTS_HEADER_LEN \<or> adts_frame_length header < ADTS_HEADER_LEN
                then (emits, st)
                else
                  (let p = drop ADTS_HEADER_LEN (aac_data aac);
                       au_bytes_len = min (adts_frame_length header - ADTS_HEADER_LEN) (length p)
                   in if au_bytes_len = 0 then (emits, st)
                      else case aac_samples_per_au (adts_aot header) of
                        None \<Rightarrow> (emits, st\<lparr>aac_aot := Some (adts_aot header)\<rparr>)
                      | Some samples_per_au \<Rightarrow>
                          (let st = st\<lparr>aac_aot := Some (adts_aot header)\<rparr>;
                               pts_step = of_nat (min (unat samples_per_au * unat (aac_frames header))
                                                      0xffffffff);
                               pts = aac_pts_next st;
                               st = st\<lparr>aac_pts_next := aac_pts_next st + pts_step\<rparr>
                           in if bridging then (emits, st)
                              else
                                (emits @
                                 [EAudio (FAudio (PAac (take au_bytes_len p) (adts_sample_rate header)
                                            (adts_channels header)) pts)
                                    (paced_audio_duration pts_step (adts_sample_rate header)),
                                  EAudioSeen CAac], st)))))"

text \<open>\<open>None\<close>: the decoder panics.\<close>

definition translate_adpcm ::
  "BcMediaAdpcm \<Rightarrow> bool \<Rightarrow> StreamTranslatorState \<Rightarrow> (Emit list \<times> StreamTranslatorState) option" where
  "translate_adpcm adpcm bridging st =
     (case decode_block (adpcm_data adpcm) AdpcmDecoder_new of
        None \<Rightarrow> None
      | Some (Inl _, _) \<Rightarrow> Some ([], st)
      | Some (Inr pcm_16k, _) \<Rightarrow>
          if pcm_16k = [] then Some ([], st)
          else
            (let pcm_8k = decimate_16_to_8 pcm_16k
             in if pcm_8k = [] then Some ([], st)
                else
                  (let ulaw = g711_encode pcm_8k;
                       (emits, st) =
                         (if sdp_audio_emitted st then ([], st)
                          else ([ESdpAudio \<lparr>ap_codec = CG711Ulaw, ap_payload_type = G711_PAYLOAD_TYPE,
                                   ap_sample_rate = 8000, ap_channels = 1, asc_hex = None\<rparr>],
                                st\<lparr>sdp_audio_emitted := True\<rparr>));
                       sample_count = of_nat (length ulaw);
                       pts = g711_pts_next st;
                       st = st\<lparr>g711_pts_next := g711_pts_next st + sample_count\<rparr>
                   in if bridging then Some (emits, st)
                      else Some (emits @
                             [EAudio (FAudio (PG711Ulaw ulaw) pts) (paced_audio_duration sample_count 8000),
                              EAudioSeen CG711Ulaw], st))))"

definition translate ::
  "BcMedia \<Rightarrow> nat \<Rightarrow> bool \<Rightarrow> StreamTranslatorState \<Rightarrow>
   ((Emit list \<times> u32 option) \<times> StreamTranslatorState) option" where
  "translate packet now bridging st = (case packet of
     Iframe i \<Rightarrow> Some (translate_iframe i now st)
   | Pframe p \<Rightarrow> Some (translate_pframe p st)
   | Aac a \<Rightarrow> (let (es, st) = translate_aac a bridging st in Some ((es, None), st))
   | Adpcm a \<Rightarrow> (case translate_adpcm a bridging st of
        None \<Rightarrow> None | Some (es, st) \<Rightarrow> Some ((es, None), st))
   | _ \<Rightarrow> Some (([], None), st))"

section \<open>The last-frame buffer\<close>

definition MAX_PFRAME_BYTES :: usize where "MAX_PFRAME_BYTES = 8 * 1024 * 1024"

record LastFrameBuffer =
  lf_video :: "VideoBurst option"
  lf_jpeg :: "bytes option"

definition LastFrameBuffer_new :: LastFrameBuffer where
  "LastFrameBuffer_new = \<lparr>lf_video = None, lf_jpeg = None\<rparr>"

definition replace_video :: "VideoBurst \<Rightarrow> LastFrameBuffer \<Rightarrow> LastFrameBuffer" where
  "replace_video burst b = b\<lparr>lf_video := Some burst\<rparr>"

definition frame_bytes :: "bytes list \<Rightarrow> nat" where
  "frame_bytes f = sum_list (map length f)"

fun evict :: "nat \<Rightarrow> bytes list list \<Rightarrow> bytes list list" where
  "evict tot [] = []"
| "evict tot (f # fs) =
     (if MAX_PFRAME_BYTES < tot then evict (tot - frame_bytes f) fs else f # fs)"

definition append_pframe :: "bytes list \<Rightarrow> LastFrameBuffer \<Rightarrow> LastFrameBuffer" where
  "append_pframe nals b = (case lf_video b of
     None \<Rightarrow> b
   | Some burst \<Rightarrow>
       (let new_bytes = frame_bytes nals;
            fs = pframe_nals burst @ [nals];
            tot = sum_list (map frame_bytes fs);
            fs = (if MAX_PFRAME_BYTES < tot + new_bytes then evict tot fs else fs)
        in b\<lparr>lf_video := Some (burst\<lparr>pframe_nals := fs\<rparr>)\<rparr>))"

definition set_jpeg :: "bytes \<Rightarrow> LastFrameBuffer \<Rightarrow> LastFrameBuffer" where
  "set_jpeg j b = b\<lparr>lf_jpeg := Some j\<rparr>"

section \<open>Which units leave\<close>

lemma set_reorder [simp]: "set (reorder_nals codec nals) = set nals"
  by (auto simp: reorder_nals_def)

lemma reorder_Nil [simp]: "reorder_nals codec nals = [] \<longleftrightarrow> nals = []"
  by (metis set_empty set_reorder)

lemma slice_not_parameter_set:
  "is_slice_nal codec n \<Longrightarrow> \<not> is_parameter_set_nal codec n"
  by (cases codec) (auto simp: is_slice_nal_def is_parameter_set_nal_def Let_def split: if_splits)

text \<open>The units of a key frame that are sent: decodable, no parameter sets, slices last.\<close>

definition sent_nals :: "VideoCodec \<Rightarrow> bytes list \<Rightarrow> bytes list" where
  "sent_nals codec nals =
     filter (\<lambda>n. \<not> is_parameter_set_nal codec n)
       (reorder_nals codec (filter (\<lambda>n. is_decodable_nal n codec) nals))"

lemma sent_nals_split:
  "sent_nals codec nals =
     filter (\<lambda>n. is_decodable_nal n codec \<and> \<not> is_parameter_set_nal codec n \<and> \<not> is_slice_nal codec n) nals @
     filter (\<lambda>n. is_decodable_nal n codec \<and> is_slice_nal codec n) nals"
  by (auto simp: sent_nals_def reorder_nals_def conj_ac slice_not_parameter_set intro!: filter_cong)

lemma sent_nals_decodable: "n \<in> set (sent_nals codec nals) \<Longrightarrow> is_decodable_nal n codec"
  by (auto simp: sent_nals_def)

lemma last_sent:
  assumes "\<exists>n\<in>set nals. is_decodable_nal n codec \<and> is_slice_nal codec n"
  shows "sent_nals codec nals \<noteq> []" "is_slice_nal codec (last (sent_nals codec nals))"
proof -
  let ?f = "filter (\<lambda>n. is_decodable_nal n codec \<and> is_slice_nal codec n) nals"
  have ne: "?f \<noteq> []" using assms by (auto simp: filter_empty_conv)
  then show "sent_nals codec nals \<noteq> []" by (simp add: sent_nals_split)
  have "last ?f \<in> set ?f" using ne by (rule last_in_set)
  then show "is_slice_nal codec (last (sent_nals codec nals))" using ne by (simp add: sent_nals_split)
qed

text \<open>What a key frame becomes, on every branch.\<close>

lemma translate_iframe_spec:
  assumes "split_annex_b (if_data i) = nals"
    and "codec = (case detected_codec st of Some c \<Rightarrow> Some c | None \<Rightarrow> first_codec nals)"
  shows "\<exists>es st'. translate_iframe i now st = ((es, if nals \<noteq> [] \<and> codec \<noteq> None \<and> sent_nals (the codec) nals \<noteq> []
        then Some (micros_to_90khz (if_microseconds i)) else None), st') \<and>
      (\<forall>f d. EVideo f d \<in> set es \<longleftrightarrow> codec \<noteq> None \<and> sent_nals (the codec) nals \<noteq> [] \<and>
         f = FVideo (the codec) (sent_nals (the codec) nals) (micros_to_90khz (if_microseconds i)) True True \<and>
         d = fst (video_frame_duration (micros_to_90khz (if_microseconds i)) st)) \<and>
      detected_codec st' = (if nals = [] then detected_codec st else codec)"
  using assms
  by (cases codec) (auto simp: translate_iframe_def Let_def sent_nals_def sdp_video_def case_prod_unfold
      video_frame_duration_def [of _ "_\<lparr>detected_codec := _\<rparr>"] video_frame_duration_def [of _ st] split: option.splits if_split_asm)

section \<open>Properties\<close>

definition is_audio_emit :: "Emit \<Rightarrow> bool" where
  "is_audio_emit e = (case e of EAudio _ _ \<Rightarrow> True | EAudioSeen _ \<Rightarrow> True | _ \<Rightarrow> False)"

lemma aac_gate:
  "translate_aac a True st = (filter (\<lambda>e. \<not> is_audio_emit e) (fst (translate_aac a False st)),
     snd (translate_aac a False st))"
proof (cases "parse_adts (aac_data a)")
  case (Some h)
  note aac = translate_aac_def [of a, unfolded Some option.case Let_def]
  show ?thesis
    by (cases "adts_channels h = 0"; cases "sdp_audio_emitted st";
        cases "build_audio_specific_config_hex (adts_aot h) (adts_sample_rate h) (adts_channels h)";
        cases "aac_samples_per_au (adts_aot h)") (simp_all add: aac is_audio_emit_def min_def)
qed (simp add: translate_aac_def)

lemma adpcm_gate:
  "\<exists>es st'. translate_adpcm a False st = Some (es, st') \<and>
     translate_adpcm a True st = Some (filter (\<lambda>e. \<not> is_audio_emit e) es, st')"
proof -
  obtain r d where r: "decode_block (adpcm_data a) AdpcmDecoder_new = Some (r, d)"
    using decode_block_not_None [of "adpcm_data a" AdpcmDecoder_new] by auto
  show ?thesis
  proof (cases r)
    case (Inl e)
    then show ?thesis by (simp add: translate_adpcm_def r)
  next
    case (Inr pcm)
    note adpcm = translate_adpcm_def [of a, unfolded r, simplified Inr, simplified]
    show ?thesis
    proof (cases "pcm = [] \<or> decimate_16_to_8 pcm = []")
      case True
      then show ?thesis by (auto simp: adpcm)
    next
      case False
      then show ?thesis
        by (cases "sdp_audio_emitted st") (simp_all add: adpcm Let_def is_audio_emit_def)
    qed
  qed
qed

lemma sdp_video_no_audio: "e \<in> set (sdp_video codec parts) \<Longrightarrow> \<not> is_audio_emit e"
  by (auto simp: sdp_video_def is_audio_emit_def split: option.splits)

lemma iframe_no_audio: "e \<in> set (fst (fst (translate_iframe i now st))) \<Longrightarrow> \<not> is_audio_emit e"
  by (simp add: translate_iframe_def Let_def case_prod_unfold split: option.splits if_split_asm)
     (auto simp: is_audio_emit_def dest: sdp_video_no_audio)

lemma pframe_no_audio: "e \<in> set (fst (fst (translate_pframe p st))) \<Longrightarrow> \<not> is_audio_emit e"
  by (simp add: translate_pframe_def Let_def case_prod_unfold split: option.splits if_split_asm)
     (auto simp: is_audio_emit_def)

lemma no_audio_emits:
  "filter (\<lambda>e. \<not> is_audio_emit e) (fst (fst (translate_iframe i now st))) = fst (fst (translate_iframe i now st))"
  "filter (\<lambda>e. \<not> is_audio_emit e) (fst (fst (translate_pframe p st))) = fst (fst (translate_pframe p st))"
  by (simp_all add: filter_id_conv iframe_no_audio pframe_no_audio)

text \<open>
  C34. The bridging gate is transparent. Translation never panics, and a packet leaves the
  translator in the same state whether a gap is being bridged or not, with the same video output:
  all that a gap suppresses are the audio frames and the presence marks that follow them, so the
  audio clock keeps running.
\<close>

theorem bridging_gate_transparent:
  "\<exists>es pts st'. translate packet now False st = Some ((es, pts), st') \<and>
     translate packet now True st = Some ((filter (\<lambda>e. \<not> is_audio_emit e) es, pts), st')"
proof (cases packet)
  case (Iframe i)
  then show ?thesis using no_audio_emits(1) [of i now st]
    by (cases "translate_iframe i now st") (auto simp: translate_def)
next
  case (Pframe p)
  then show ?thesis using no_audio_emits(2) [of p st]
    by (cases "translate_pframe p st") (auto simp: translate_def)
next
  case (Aac a)
  then show ?thesis by (auto simp: translate_def aac_gate split: prod.splits)
next
  case (Adpcm a)
  then show ?thesis using adpcm_gate [of a st] by (auto simp: translate_def)
qed (auto simp: translate_def)

section \<open>Timestamps\<close>

lemma unat_micros: "unat (micros_to_90khz m) = unat m * 9 div 100"
proof -
  have m: "unat m < 4294967296" by (rule unat_lt_u32)
  have "unat ((ucast m :: u64) * 9) = unat m * 9"
    using m by (subst unat_mult_lem [THEN iffD1]) simp_all
  then have "unat ((ucast m :: u64) * 9 div 100) = unat m * 9 div 100"
    by (simp add: unat_div)
  then show ?thesis
    using m by (simp add: micros_to_90khz_def unsigned_ucast_eq take_bit_nat_eq_self)
qed

text \<open>
  Video timestamps keep the camera's clock until its 32-bit microsecond counter wraps, every 72
  minutes. While it does not wrap, two frames \<open>d\<close> microseconds apart are \<open>d * 9 / 100\<close> ticks apart,
  up to rounding. When it wraps between them, the timestamp jumps back by more than 384 million
  ticks: as RTP reads it (modulo \<open>2 ^ 32\<close>), the later frame is over an hour in the past.
\<close>

theorem video_pts_wrap:
  assumes "d \<le> 5000000"
  shows "let a = micros_to_90khz m; b = micros_to_90khz (m + of_nat d)
    in (if unat m + d < 2 ^ 32
        then unat a + d * 9 div 100 \<le> unat b \<and> unat b \<le> unat a + d * 9 div 100 + 1
        else unat b \<le> 450000 \<and> 386000000 \<le> unat a \<and> 2 ^ 31 < unat (b - a))"
proof -
  have m: "unat m < 4294967296" by (rule unat_lt_u32)
  have d: "unat (of_nat d :: u32) = d" using assms by (intro unat_of_nat_u32) simp
  show ?thesis
  proof (cases "unat m + d < 2 ^ 32")
    case True
    then have "unat (m + of_nat d) = unat m + d"
      using d by (subst unat_add_lem [THEN iffD1]) simp_all
    then show ?thesis using True by (simp add: unat_micros Let_def) linarith
  next
    case False
    have "unat (m + of_nat d) = unat m + d - 2 ^ 32"
      using False d m assms by (simp add: unat_word_ariths mod_if)
    then have b: "unat (micros_to_90khz (m + of_nat d)) = (unat m + d - 2 ^ 32) * 9 div 100"
      by (simp add: unat_micros)
    have lo: "386000000 \<le> unat (micros_to_90khz m)" "unat (micros_to_90khz m) \<le> 386547056"
      using False m assms by (simp_all add: unat_micros)
    have hi: "unat (micros_to_90khz (m + of_nat d)) \<le> 450000"
      using m assms unfolding b by simp
    have "unat (micros_to_90khz (m + of_nat d) - micros_to_90khz m) =
      unat (micros_to_90khz (m + of_nat d)) + 2 ^ 32 - unat (micros_to_90khz m)"
      using lo hi by (simp add: unat_sub_if')
    then show ?thesis using lo hi False by (simp add: Let_def)
  qed
qed

theorem video_pts_wrap_witness:
  "unat (micros_to_90khz 4294960000) \<ge> 386000000 \<and>
   unat (micros_to_90khz (4294960000 + of_nat 40000)) \<le> 450000 \<and>
   2 ^ 31 < unat (micros_to_90khz (4294960000 + of_nat 40000) - micros_to_90khz 4294960000)"
  using video_pts_wrap [of 40000 4294960000] by (simp add: Let_def)

section \<open>The frames the buffer keeps\<close>

definition pframe_total :: "bytes list list \<Rightarrow> nat" where
  "pframe_total fs = sum_list (map frame_bytes fs)"

lemma pframe_total_simps [simp]:
  "pframe_total [] = 0" "pframe_total (f # fs) = frame_bytes f + pframe_total fs"
  "pframe_total (fs @ gs) = pframe_total fs + pframe_total gs"
  by (simp_all add: pframe_total_def)

text \<open>The reference: the longest suffix of the frames that fits under the cap.\<close>

fun longest_fit :: "bytes list list \<Rightarrow> bytes list list" where
  "longest_fit [] = []"
| "longest_fit (f # fs) = (if pframe_total (f # fs) \<le> MAX_PFRAME_BYTES then f # fs else longest_fit fs)"

lemma evict_longest_fit: "evict (pframe_total fs) fs = longest_fit fs"
  by (induction fs) auto

lemma longest_fit_bound: "pframe_total (longest_fit fs) \<le> MAX_PFRAME_BYTES"
  by (induction fs) auto

lemma longest_fit_id: "pframe_total fs \<le> MAX_PFRAME_BYTES \<Longrightarrow> longest_fit fs = fs"
  by (cases fs) auto

lemma longest_fit_snoc: "longest_fit (longest_fit fs @ [f]) = longest_fit (fs @ [f])"
  by (induction fs) auto

lemma longest_fit_maximal:
  "fs = xs @ ys \<Longrightarrow> pframe_total ys \<le> MAX_PFRAME_BYTES \<Longrightarrow> length ys \<le> length (longest_fit fs)"
proof (induction fs arbitrary: xs)
  case (Cons f fs)
  then show ?case by (cases xs) (auto dest!: longest_fit_id)
qed simp

lemma longest_fit_suffix: "\<exists>xs. fs = xs @ longest_fit fs"
proof (induction fs)
  case (Cons f fs)
  then obtain xs where "fs = xs @ longest_fit fs" by blast
  then have "f # fs = (f # xs) @ longest_fit fs" by simp
  then show ?case by (cases "pframe_total (f # fs) \<le> MAX_PFRAME_BYTES") (auto intro: exI [of _ "[]"] exI [of _ "f # xs"])
qed simp

lemma append_pframe_Some:
  "lf_video b = Some burst \<Longrightarrow>
   append_pframe nals b = b\<lparr>lf_video := Some (burst\<lparr>pframe_nals := longest_fit (pframe_nals burst @ [nals])\<rparr>)\<rparr>"
  using evict_longest_fit [of "pframe_nals burst @ [nals]"] longest_fit_id [of "pframe_nals burst @ [nals]"]
  by (simp add: append_pframe_def Let_def pframe_total_def)

lemma append_pframes:
  assumes "lf_video b = Some burst" "pframe_nals burst = longest_fit fs"
  shows "fold append_pframe gs b = b\<lparr>lf_video := Some (burst\<lparr>pframe_nals := longest_fit (fs @ gs)\<rparr>)\<rparr>"
  using assms
proof (induction gs arbitrary: b burst fs)
  case (Cons g gs)
  let ?burst = "burst\<lparr>pframe_nals := longest_fit (fs @ [g])\<rparr>"
  have "append_pframe g b = b\<lparr>lf_video := Some ?burst\<rparr>"
    using Cons.prems by (simp add: append_pframe_Some longest_fit_snoc)
  then show ?case using Cons.IH [of "b\<lparr>lf_video := Some ?burst\<rparr>" ?burst "fs @ [g]"] by simp
qed simp

text \<open>
  The join burst keeps the longest recent run of frames that fits. After a key frame and any
  P-frames, appended one by one with eviction after each, the buffer holds a suffix of those frames
  whose size is at most 8 MiB, and no longer suffix of them fits: eviction never drops a frame it
  could have kept. The key frame itself is never touched.
\<close>

theorem frame_buffer_longest_suffix:
  assumes "pframe_nals burst = []"
  shows "\<exists>fs. lf_video (fold append_pframe gs (replace_video burst b)) = Some (burst\<lparr>pframe_nals := fs\<rparr>) \<and>
    pframe_total fs \<le> MAX_PFRAME_BYTES \<and> (\<exists>xs. gs = xs @ fs) \<and>
    (\<forall>xs ys. gs = xs @ ys \<longrightarrow> pframe_total ys \<le> MAX_PFRAME_BYTES \<longrightarrow> length ys \<le> length fs)"
proof -
  have "fold append_pframe gs (replace_video burst b) =
      (replace_video burst b)\<lparr>lf_video := Some (burst\<lparr>pframe_nals := longest_fit gs\<rparr>)\<rparr>"
    using append_pframes [of "replace_video burst b" burst "[]" gs] assms by (simp add: replace_video_def)
  then show ?thesis
    using longest_fit_bound [of gs] longest_fit_suffix [of gs] longest_fit_maximal [of gs]
    by (intro exI [of _ "longest_fit gs"]) simp
qed

definition burst0 :: VideoBurst where
  "burst0 = \<lparr>vb_codec = CH264, parameter_sets = [], iframe_nals = [[0x65]], pframe_nals = [], captured_at = 0,
     captured_pts_90khz = 0\<rparr>"

theorem frame_buffer_longest_suffix_witness:
  "\<exists>fs. lf_video (fold append_pframe [replicate 8388608 [1], [[2]], [[3, 4]]] (replace_video burst0 LastFrameBuffer_new)) =
     Some (burst0\<lparr>pframe_nals := fs\<rparr>) \<and> pframe_total fs \<le> MAX_PFRAME_BYTES \<and> 2 \<le> length fs"
proof -
  obtain fs where fs:
    "lf_video (fold append_pframe [replicate 8388608 [1], [[2]], [[3, 4]]] (replace_video burst0 LastFrameBuffer_new)) =
      Some (burst0\<lparr>pframe_nals := fs\<rparr>)" "pframe_total fs \<le> MAX_PFRAME_BYTES"
    and m: "\<And>xs ys. [replicate 8388608 [1], [[2]], [[3, 4]]] = xs @ ys \<Longrightarrow>
      pframe_total ys \<le> MAX_PFRAME_BYTES \<Longrightarrow> length ys \<le> length fs"
    using frame_buffer_longest_suffix
      [of burst0 "[replicate 8388608 [1], [[2]], [[3, 4]]]" LastFrameBuffer_new]
    by (auto simp: burst0_def)
  have "2 \<le> length fs" using m [of "[replicate 8388608 [1]]" "[[[2]], [[3, 4]]]"]
    by (simp add: frame_bytes_def MAX_PFRAME_BYTES_def)
  then show ?thesis using fs by blast
qed

end
