(* ===== verification/Gap_Bridging.thy ===== *)
theory Gap_Bridging
  imports Prelude
begin

text \<open>
  Bridging gaps in a camera's video (\<open>src/gap_bridging.rs\<close>): the decision half of a stream source.
  While the camera is silent, the cached key frame is re-broadcast with a synthesised timestamp on
  the 90 kHz RTP clock. \<open>Instant\<close> and \<open>Duration\<close> are in nanoseconds.
\<close>

section \<open>State and operations\<close>

datatype GapState = Live | Bridging

definition VIDEO_CLOCK_HZ :: nat where "VIDEO_CLOCK_HZ = 90000"

text \<open>\<open>None\<close> as threshold is \<open>Duration::MAX\<close>, which no elapsed time exceeds.\<close>

record BridgingPolicy =
  gap_threshold :: "nat option"
  gap_state :: GapState
  last_upstream_at :: nat
  last_emitted_pts_90khz :: "u32 option"
  last_emit_wallclock_at :: "nat option"

definition BridgingPolicy_new :: "nat option \<Rightarrow> nat \<Rightarrow> BridgingPolicy" where
  "BridgingPolicy_new threshold now = \<lparr>gap_threshold = threshold, gap_state = Live,
     last_upstream_at = now, last_emitted_pts_90khz = None, last_emit_wallclock_at = None\<rparr>"

definition is_bridging :: "BridgingPolicy \<Rightarrow> bool" where
  "is_bridging p \<longleftrightarrow> gap_state p = Bridging"

definition on_upstream_packet :: "nat \<Rightarrow> BridgingPolicy \<Rightarrow> BridgingPolicy" where
  "on_upstream_packet now p = p\<lparr>last_upstream_at := now\<rparr>"

definition on_broadcast :: "u32 \<Rightarrow> nat \<Rightarrow> BridgingPolicy \<Rightarrow> BridgingPolicy" where
  "on_broadcast pts now p = p\<lparr>gap_state := Live, last_emitted_pts_90khz := Some pts,
     last_emit_wallclock_at := Some now\<rparr>"

text \<open>
  The product is taken in \<open>u128\<close> with saturation; nanoseconds of a \<open>Duration\<close> stay below \<open>2 ^ 94\<close>,
  so it is exact. The quotient is then cut to 32 bits.
\<close>

definition pts_delta :: "nat \<Rightarrow> u32" where
  "pts_delta ns = of_nat (min (ns * VIDEO_CLOCK_HZ) (2 ^ 128 - 1) div 1000000000)"

definition advance_replay_pts :: "u32 \<Rightarrow> nat \<Rightarrow> BridgingPolicy \<Rightarrow> u32 \<times> BridgingPolicy" where
  "advance_replay_pts anchor now p =
     (let delta_90khz = (case last_emit_wallclock_at p of
            Some last_at \<Rightarrow> pts_delta (now - last_at) | None \<Rightarrow> 0);
          synth = (case last_emitted_pts_90khz p of Some v \<Rightarrow> v | None \<Rightarrow> anchor) + delta_90khz
      in (synth, p\<lparr>last_emitted_pts_90khz := Some synth, last_emit_wallclock_at := Some now\<rparr>))"

definition on_tick :: "nat \<Rightarrow> u32 option \<Rightarrow> BridgingPolicy \<Rightarrow> u32 option \<times> BridgingPolicy" where
  "on_tick now replay_anchor p =
     (let p = (case gap_threshold p of
            Some th \<Rightarrow> if th < now - last_upstream_at p then p\<lparr>gap_state := Bridging\<rparr> else p
          | None \<Rightarrow> p)
      in if gap_state p \<noteq> Bridging then (None, p)
         else case replay_anchor of
           None \<Rightarrow> (None, p)
         | Some anchor \<Rightarrow> (let (pts, p) = advance_replay_pts anchor now p in (Some pts, p)))"

section \<open>Runs\<close>

text \<open>What can happen to a stream source, and the timestamps it re-broadcasts.\<close>

datatype gap_event = Packet nat | Broadcast u32 nat | Tick nat "u32 option"

fun gap_step :: "gap_event \<Rightarrow> BridgingPolicy \<Rightarrow> u32 option \<times> BridgingPolicy" where
  "gap_step (Packet now) p = (None, on_upstream_packet now p)"
| "gap_step (Broadcast pts now) p = (None, on_broadcast pts now p)"
| "gap_step (Tick now anchor) p = on_tick now anchor p"

fun gap_run :: "gap_event list \<Rightarrow> BridgingPolicy \<Rightarrow> u32 option list \<times> BridgingPolicy" where
  "gap_run [] p = ([], p)"
| "gap_run (e # es) p =
     (let (r, p') = gap_step e p; (rs, p'') = gap_run es p' in (r # rs, p''))"

text \<open>The 90 kHz clock at a time in nanoseconds.\<close>

definition clock90 :: "nat \<Rightarrow> nat" where
  "clock90 ns = ns * 90000 div 1000000000"

lemma pts_delta_exact: "ns < 2 ^ 94 \<Longrightarrow> pts_delta ns = of_nat (clock90 ns)"
  by (simp add: pts_delta_def clock90_def VIDEO_CLOCK_HZ_def min_def)

lemma clock90_add: "clock90 a + clock90 b \<le> clock90 (a + b)" "clock90 (a + b) \<le> clock90 a + clock90 b + 1"
  by (simp_all add: clock90_def)

lemma bridging_tick:
  assumes "is_bridging p" "last_emitted_pts_90khz p = Some v" "last_emit_wallclock_at p = Some t0"
    and "t0 \<le> t" "t < 2 ^ 94"
  shows "on_tick t (Some a) p =
    (Some (v + of_nat (clock90 (t - t0))),
     p\<lparr>last_emitted_pts_90khz := Some (v + of_nat (clock90 (t - t0))), last_emit_wallclock_at := Some t\<rparr>)"
  using assms pts_delta_exact [of "t - t0"]
  by (auto simp: on_tick_def is_bridging_def advance_replay_pts_def Let_def split: option.splits)

section \<open>Properties\<close>

text \<open>
  The synthesised clock keeps the time. Over any number \<open>n\<close> of replays after a frame emitted at
  \<open>t0\<close> with timestamp \<open>v\<close>, every tick re-broadcasts, and the last timestamp is ahead of \<open>v\<close>, modulo
  \<open>2 ^ 32\<close>, by the 90 kHz ticks elapsed since \<open>t0\<close>, short by at most \<open>n\<close> of them.
\<close>

theorem replay_clock_drift:
  assumes "is_bridging p" and "last_emitted_pts_90khz p = Some v" and "last_emit_wallclock_at p = Some t0"
    and "sorted (t0 # ts)" and "\<forall>t\<in>set ts. t < 2 ^ 94"
  shows "\<exists>rs p' d. gap_run (map (\<lambda>t. Tick t (Some a)) ts) p = (rs, p') \<and> None \<notin> set rs \<and>
    last_emitted_pts_90khz p' = Some (v + of_nat d) \<and>
    d \<le> clock90 (last (t0 # ts) - t0) \<and> clock90 (last (t0 # ts) - t0) \<le> d + length ts"
  using assms
proof (induction ts arbitrary: p v t0)
  case Nil
  then show ?case by (auto simp: clock90_def intro: exI [of _ 0])
next
  case (Cons t ts)
  let ?c = "clock90 (t - t0)"
  let ?p = "p\<lparr>last_emitted_pts_90khz := Some (v + of_nat ?c), last_emit_wallclock_at := Some t\<rparr>"
  have tick: "on_tick t (Some a) p = (Some (v + of_nat ?c), ?p)"
    using Cons.prems by (intro bridging_tick) auto
  have "is_bridging ?p" using Cons.prems(1) by (simp add: is_bridging_def)
  from Cons.IH [OF this, of "v + of_nat ?c" t] Cons.prems obtain rs p' d where
    run: "gap_run (map (\<lambda>t. Tick t (Some a)) ts) ?p = (rs, p')" "None \<notin> set rs"
    "last_emitted_pts_90khz p' = Some (v + of_nat ?c + of_nat d)"
    and d: "d \<le> clock90 (last (t # ts) - t)" "clock90 (last (t # ts) - t) \<le> d + length ts"
    by auto
  have "t \<le> last (t # ts)" using Cons.prems(4) by (auto simp: last_in_set)
  then have split: "last (t0 # t # ts) - t0 = (t - t0) + (last (t # ts) - t)"
    using Cons.prems(4) by simp
  show ?case
    using run d clock90_add [of "t - t0" "last (t # ts) - t"]
    by (intro exI [of _ "Some (v + of_nat ?c) # rs"] exI [of _ p'] exI [of _ "?c + d"])
      (simp only: split list.map gap_run.simps gap_step.simps tick prod.case Let_def, simp add: add.assoc)
qed

theorem replay_clock_drift_witness:
  "\<exists>rs p' d. gap_run (map (\<lambda>t. Tick t (Some 0)) [3200000000, 3400000000])
      ((BridgingPolicy_new (Some 2000000000) 0)\<lparr>gap_state := Bridging,
        last_emitted_pts_90khz := Some 0xfffffff0, last_emit_wallclock_at := Some 1000000000\<rparr>) = (rs, p') \<and>
    None \<notin> set rs \<and> last_emitted_pts_90khz p' = Some (0xfffffff0 + of_nat d) \<and>
    d \<le> 216000 \<and> 216000 \<le> d + 2"
  using replay_clock_drift [of "(BridgingPolicy_new (Some 2000000000) 0)\<lparr>gap_state := Bridging,
        last_emitted_pts_90khz := Some 0xfffffff0, last_emit_wallclock_at := Some 1000000000\<rparr>"
      "0xfffffff0" 1000000000 "[3200000000, 3400000000]" 0]
  by (simp add: is_bridging_def clock90_def)

lemma gap_run_inv:
  assumes "\<And>e p. I p \<Longrightarrow> I (snd (gap_step e p))" "I p"
  shows "I (snd (gap_run es p))"
  using assms(2) by (induction es arbitrary: p) (simp_all add: Let_def case_prod_beta assms(1))

lemmas gap_defs = on_upstream_packet_def on_broadcast_def on_tick_def advance_replay_pts_def
  is_bridging_def Let_def

lemma gap_step_threshold: "gap_threshold (snd (gap_step e p)) = gap_threshold p"
  by (cases e) (simp_all add: gap_defs split: option.splits)

lemma gap_step_disabled:
  assumes "gap_threshold p = None \<and> \<not> is_bridging p"
  shows "\<not> is_bridging (snd (gap_step e p))" "fst (gap_step e p) = None"
  using assms by (cases e; simp add: gap_defs)+

lemma gap_step_emitted:
  "last_emitted_pts_90khz p = None \<longleftrightarrow> last_emit_wallclock_at p = None \<Longrightarrow>
   last_emitted_pts_90khz (snd (gap_step e p)) = None \<longleftrightarrow> last_emit_wallclock_at (snd (gap_step e p)) = None"
  by (cases e) (simp_all add: gap_defs split: option.splits)

lemma gap_run_disabled:
  "gap_threshold p = None \<and> \<not> is_bridging p \<Longrightarrow>
   \<not> is_bridging (snd (gap_run es p)) \<and> (\<forall>r\<in>set (fst (gap_run es p)). r = None)"
proof (induction es arbitrary: p)
  case (Cons e es)
  have "gap_threshold (snd (gap_step e p)) = None \<and> \<not> is_bridging (snd (gap_step e p))"
    using Cons.prems gap_step_disabled(1) by (simp add: gap_step_threshold)
  from Cons.IH [OF this] gap_step_disabled(2) [OF Cons.prems] show ?case
    by (simp add: Let_def case_prod_beta)
qed simp

text \<open>
  When a replay happens. In every run from a fresh source a tick re-broadcasts only if the
  threshold is finite and something can be replayed; a broadcast always ends the gap; with bridging disabled no
  tick ever emits; and the first replay of a source that has broadcast nothing has exactly the
  timestamp of the cached key frame.
\<close>

theorem replay_conditions:
  assumes "gap_run es (BridgingPolicy_new th t0) = (rs, p)"
  shows "(\<forall>now a pts p'. on_tick now a p = (Some pts, p') \<longrightarrow> th \<noteq> None \<and> a \<noteq> None \<and> is_bridging p' \<and>
      (last_emitted_pts_90khz p = None \<longrightarrow> a = Some pts) \<and> \<not> is_bridging (on_broadcast pts now p')) \<and>
    (\<forall>now a p'. on_tick now a p = (None, p') \<longrightarrow>
      last_emitted_pts_90khz p' = last_emitted_pts_90khz p \<and>
      last_emit_wallclock_at p' = last_emit_wallclock_at p) \<and>
    (th = None \<longrightarrow> (\<forall>r\<in>set rs. r = None))"
proof -
  have p: "p = snd (gap_run es (BridgingPolicy_new th t0))" and rs: "rs = fst (gap_run es (BridgingPolicy_new th t0))"
    using assms by simp_all
  have th: "gap_threshold p = th"
    unfolding p by (rule gap_run_inv) (simp_all add: gap_step_threshold BridgingPolicy_new_def)
  have off: "th = None \<Longrightarrow> \<not> is_bridging p \<and> (\<forall>r\<in>set rs. r = None)"
    using gap_run_disabled [of "BridgingPolicy_new th t0" es]
    by (simp add: p rs BridgingPolicy_new_def is_bridging_def)
  have both: "last_emitted_pts_90khz p = None \<longleftrightarrow> last_emit_wallclock_at p = None"
    unfolding p by (rule gap_run_inv) (simp_all only: gap_step_emitted, simp add: BridgingPolicy_new_def)
  have "on_tick now a p = (Some pts, p') \<Longrightarrow> th \<noteq> None \<and> a \<noteq> None \<and> is_bridging p' \<and>
      (last_emitted_pts_90khz p = None \<longrightarrow> a = Some pts)" for now a pts p'
    using both off th
    by (auto simp: on_tick_def is_bridging_def advance_replay_pts_def Let_def split: option.splits if_splits)
  moreover have "on_tick now a p = (None, p') \<Longrightarrow>
      last_emitted_pts_90khz p' = last_emitted_pts_90khz p \<and>
      last_emit_wallclock_at p' = last_emit_wallclock_at p" for now a p'
    by (auto simp: on_tick_def Let_def split: option.splits if_splits prod.splits)
  ultimately show ?thesis
    using off by (auto simp: on_broadcast_def is_bridging_def)
qed

theorem replay_conditions_witness:
  "\<exists>p. gap_run [Packet 5, Tick 3000000000 None] (BridgingPolicy_new (Some 2000000000) 0) = ([None, None], p) \<and>
    (\<forall>now a pts p'. on_tick now a p = (Some pts, p') \<longrightarrow> a = Some pts)"
proof -
  let ?p = "\<lparr>gap_threshold = Some 2000000000, gap_state = Bridging, last_upstream_at = 5,
    last_emitted_pts_90khz = None, last_emit_wallclock_at = None\<rparr>"
  have run: "gap_run [Packet 5, Tick 3000000000 None] (BridgingPolicy_new (Some 2000000000) 0) = ([None, None], ?p)"
    by (simp add: BridgingPolicy_new_def on_upstream_packet_def on_tick_def)
  from replay_conditions [OF run] run show ?thesis by auto
qed

end
