(* ===== verification/Stream_Source.thy ===== *)
theory Stream_Source
  imports Translate Gap_Bridging
begin

text \<open>
  A stream source (\<open>src/stream_source.rs\<close>): the driver that feeds camera packets through the
  translator and applies its emissions to the pacer queues, the last-frame buffer, the SDP
  parameters and the audio presence (\<open>src/audio_presence.rs\<close>), the gap-detection tick, and the two
  pacers. A bounded channel is the list of what it holds; the broadcast channel is the log of what
  was sent on it. \<open>Instant\<close> is a number of nanoseconds, the paces of the translator are in
  microseconds.
\<close>

section \<open>State\<close>

datatype AudioPresence = Unknown | Present AudioCodec | Absent

definition observed :: "AudioCodec \<Rightarrow> AudioPresence \<Rightarrow> AudioPresence" where
  "observed codec p = (case p of Present c \<Rightarrow> Present c | _ \<Rightarrow> Present codec)"

record SdpParams =
  server_ip :: string
  session_id :: string
  session_name :: string
  sp_video :: "VideoParams option"
  sp_audio :: "AudioParams option"

record PacedFrame =
  pf_frame :: Frame
  pf_duration :: nat

text \<open>\<open>Option<&mpsc::Sender>\<close>: no pacer, a pacer that has exited, or one with its queue.\<close>

datatype pace_tx = NoPacer | PacerClosed | PacerOpen "PacedFrame list"

definition AUDIO_PACER_QUEUE :: nat where "AUDIO_PACER_QUEUE = 200"

definition VIDEO_PACER_QUEUE :: nat where "VIDEO_PACER_QUEUE = 300"

record StreamSource =
  tx :: "Frame list"
  audio_pace_tx :: pace_tx
  video_pace_tx :: pace_tx
  last_frame :: LastFrameBuffer
  sdp_params :: SdpParams
  audio_presence :: AudioPresence
  translator_state :: StreamTranslatorState
  bridging :: BridgingPolicy

definition StreamSource_start ::
  "string \<Rightarrow> LastFrameBuffer \<Rightarrow> AudioPresence \<Rightarrow> nat option \<Rightarrow> nat \<Rightarrow> StreamSource" where
  "StreamSource_start name buf presence threshold now =
     \<lparr>tx = [], audio_pace_tx = PacerOpen [], video_pace_tx = PacerOpen [], last_frame = buf,
      sdp_params = \<lparr>server_ip = ''0.0.0.0'', session_id = ''0'', session_name = name,
                    sp_video = None, sp_audio = None\<rparr>,
      audio_presence = presence, translator_state = StreamTranslatorState_default,
      bridging = BridgingPolicy_new threshold now\<rparr>"

section \<open>Applying emissions\<close>

text \<open>\<open>try_send\<close>: a full queue drops the new frame, a closed one drops it silently.\<close>

definition try_send :: "nat \<Rightarrow> PacedFrame \<Rightarrow> PacedFrame list \<Rightarrow> PacedFrame list" where
  "try_send cap item q = (if length q < cap then q @ [item] else q)"

definition dispatch_paced_video :: "Frame \<Rightarrow> nat \<Rightarrow> StreamSource \<Rightarrow> StreamSource" where
  "dispatch_paced_video frame duration s = (case video_pace_tx s of
     PacerOpen q \<Rightarrow> s\<lparr>video_pace_tx :=
       PacerOpen (try_send VIDEO_PACER_QUEUE \<lparr>pf_frame = frame, pf_duration = duration\<rparr> q)\<rparr>
   | PacerClosed \<Rightarrow> s
   | NoPacer \<Rightarrow> s\<lparr>tx := tx s @ [frame]\<rparr>)"

definition dispatch_paced_audio :: "Frame \<Rightarrow> nat \<Rightarrow> StreamSource \<Rightarrow> StreamSource" where
  "dispatch_paced_audio frame duration s = (case audio_pace_tx s of
     PacerOpen q \<Rightarrow> s\<lparr>audio_pace_tx :=
       PacerOpen (try_send AUDIO_PACER_QUEUE \<lparr>pf_frame = frame, pf_duration = duration\<rparr> q)\<rparr>
   | PacerClosed \<Rightarrow> s
   | NoPacer \<Rightarrow> s\<lparr>tx := tx s @ [frame]\<rparr>)"

definition apply_emit :: "Emit \<Rightarrow> StreamSource \<Rightarrow> StreamSource" where
  "apply_emit e s = (case e of
     EVideo frame pace \<Rightarrow> dispatch_paced_video frame pace s
   | EAudio frame pace \<Rightarrow> dispatch_paced_audio frame pace s
   | ESdpVideo params \<Rightarrow> s\<lparr>sdp_params := (sdp_params s)\<lparr>sp_video := Some params\<rparr>\<rparr>
   | ESdpAudio params \<Rightarrow>
       (if sp_audio (sdp_params s) = None
        then s\<lparr>sdp_params := (sdp_params s)\<lparr>sp_audio := Some params\<rparr>\<rparr> else s)
   | EReplaceVideoBurst burst \<Rightarrow> s\<lparr>last_frame := replace_video burst (last_frame s)\<rparr>
   | EAppendPframe nals \<Rightarrow> s\<lparr>last_frame := append_pframe nals (last_frame s)\<rparr>
   | EAudioSeen codec \<Rightarrow> s\<lparr>audio_presence := observed codec (audio_presence s)\<rparr>)"

text \<open>\<open>None\<close>: the translator panics.\<close>

definition apply_bcmedia_packet ::
  "BcMedia \<Rightarrow> nat \<Rightarrow> bool \<Rightarrow> StreamSource \<Rightarrow> (u32 option \<times> StreamSource) option" where
  "apply_bcmedia_packet packet now gate s =
     (case translate packet now gate (translator_state s) of
        None \<Rightarrow> None
      | Some ((emits, video_pts), st) \<Rightarrow>
          Some (video_pts, fold apply_emit emits (s\<lparr>translator_state := st\<rparr>)))"

section \<open>The reader loop\<close>

text \<open>
  What \<open>get_data\<close> returns: a packet, an undecodable packet, or the end of the stream. The fixture
  dump writes files only. The clock is read when the packet arrives, in the translator, and after
  the broadcast.
\<close>

datatype stream_result = GotPacket BcMedia | DecodeError | StreamEnd

definition process_stream_result ::
  "stream_result \<Rightarrow> nat \<Rightarrow> nat \<Rightarrow> nat \<Rightarrow> StreamSource \<Rightarrow> (bool \<times> StreamSource) option" where
  "process_stream_result result t1 t2 t3 s = (case result of
     GotPacket packet \<Rightarrow>
       (let s = (case packet of
              Iframe _ \<Rightarrow> s\<lparr>bridging := on_upstream_packet t1 (bridging s)\<rparr>
            | Pframe _ \<Rightarrow> s\<lparr>bridging := on_upstream_packet t1 (bridging s)\<rparr>
            | _ \<Rightarrow> s)
        in case apply_bcmedia_packet packet t2 (is_bridging (bridging s)) s of
             None \<Rightarrow> None
           | Some (Some pts, s) \<Rightarrow> Some (True, s\<lparr>bridging := on_broadcast pts t3 (bridging s)\<rparr>)
           | Some (None, s) \<Rightarrow> Some (True, s))
   | DecodeError \<Rightarrow> Some (True, s)
   | StreamEnd \<Rightarrow> Some (False, s))"

text \<open>The payload a tick would replay: the cached key frame, filtered again.\<close>

definition replay_payload :: "LastFrameBuffer \<Rightarrow> (VideoCodec \<times> bytes list \<times> u32) option" where
  "replay_payload b = (case lf_video b of
     None \<Rightarrow> None
   | Some burst \<Rightarrow>
       (let nals = filter (\<lambda>n. \<not> is_parameter_set_nal (vb_codec burst) n \<and>
              is_decodable_nal n (vb_codec burst)) (iframe_nals burst)
        in if nals = [] then None else Some (vb_codec burst, nals, captured_pts_90khz burst)))"

definition tick_bridging :: "nat \<Rightarrow> StreamSource \<Rightarrow> StreamSource" where
  "tick_bridging now s =
     (let payload = replay_payload (last_frame s);
          (synth_pts, p) = on_tick now (map_option (\<lambda>(_, _, pts). pts) payload) (bridging s);
          s = s\<lparr>bridging := p\<rparr>
      in case (synth_pts, payload) of
           (Some pts, Some (codec, nals, _)) \<Rightarrow> s\<lparr>tx := tx s @ [FVideo codec nals pts True True]\<rparr>
         | _ \<Rightarrow> s)"

section \<open>Pacers\<close>

definition AUDIO_PACER_MAX_LEAD :: nat where "AUDIO_PACER_MAX_LEAD = 2000000"

definition VIDEO_PACER_MAX_LEAD :: nat where "VIDEO_PACER_MAX_LEAD = 3000000"

definition AUDIO_PACER_INITIAL_LATENCY :: nat where "AUDIO_PACER_INITIAL_LATENCY = 500000"

definition VIDEO_PACER_INITIAL_LATENCY :: nat where "VIDEO_PACER_INITIAL_LATENCY = 1500000"

definition next_target :: "nat option \<Rightarrow> nat \<Rightarrow> nat \<Rightarrow> nat \<Rightarrow> bool \<Rightarrow> nat" where
  "next_target cursor now max_lead initial_latency snap_on_past = (case cursor of
     Some t \<Rightarrow> if now + max_lead < t then now else if snap_on_past \<and> t < now then now else t
   | None \<Rightarrow> now + initial_latency)"

text \<open>
  One round of a pacer: the item taken from the queue at \<open>now\<close> goes out at \<open>max now target\<close> or later,
  and the next one is scheduled from the target. Times in microseconds.
\<close>

definition pacer_step :: "nat \<Rightarrow> nat \<Rightarrow> bool \<Rightarrow> nat \<Rightarrow> nat \<Rightarrow> nat option \<Rightarrow> nat \<times> nat option" where
  "pacer_step max_lead initial_latency snap now duration cursor =
     (let target = next_target cursor now max_lead initial_latency snap
      in (target, Some (target + duration)))"

fun media_pacer_task ::
  "nat \<Rightarrow> nat \<Rightarrow> bool \<Rightarrow> (nat \<times> nat) list \<Rightarrow> nat option \<Rightarrow> nat list" where
  "media_pacer_task max_lead initial_latency snap [] cursor = []"
| "media_pacer_task max_lead initial_latency snap ((now, duration) # items) cursor =
     (let (target, cursor) = pacer_step max_lead initial_latency snap now duration cursor
      in target # media_pacer_task max_lead initial_latency snap items cursor)"

definition audio_pacer_task :: "(nat \<times> nat) list \<Rightarrow> nat list" where
  "audio_pacer_task items =
     media_pacer_task AUDIO_PACER_MAX_LEAD AUDIO_PACER_INITIAL_LATENCY True items None"

definition video_pacer_task :: "(nat \<times> nat) list \<Rightarrow> nat list" where
  "video_pacer_task items =
     media_pacer_task VIDEO_PACER_MAX_LEAD VIDEO_PACER_INITIAL_LATENCY False items None"

text \<open>A pacer's \<open>recv\<close> and \<open>send\<close>, as they act on the source.\<close>

definition video_pacer_emit :: "StreamSource \<Rightarrow> StreamSource" where
  "video_pacer_emit s = (case video_pace_tx s of
     PacerOpen (item # q) \<Rightarrow> s\<lparr>video_pace_tx := PacerOpen q, tx := tx s @ [pf_frame item]\<rparr>
   | _ \<Rightarrow> s)"

definition audio_pacer_emit :: "StreamSource \<Rightarrow> StreamSource" where
  "audio_pacer_emit s = (case audio_pace_tx s of
     PacerOpen (item # q) \<Rightarrow> s\<lparr>audio_pace_tx := PacerOpen q, tx := tx s @ [pf_frame item]\<rparr>
   | _ \<Rightarrow> s)"

section \<open>Runs\<close>

text \<open>
  The three tasks of a source interleave. \<open>None\<close>: a panic of the translator; a source whose stream
  ended takes no more packets and no more ticks, while the pacers drain.
\<close>

datatype source_event =
    Got stream_result nat nat nat
  | GapTick nat
  | VideoPacer
  | AudioPacer

fun source_step :: "source_event \<Rightarrow> bool \<times> StreamSource \<Rightarrow> (bool \<times> StreamSource) option" where
  "source_step (Got r t1 t2 t3) (run, s) =
     (if run then process_stream_result r t1 t2 t3 s else Some (run, s))"
| "source_step (GapTick now) (run, s) = Some (run, if run then tick_bridging now s else s)"
| "source_step VideoPacer (run, s) = Some (run, video_pacer_emit s)"
| "source_step AudioPacer (run, s) = Some (run, audio_pacer_emit s)"

fun source_run :: "source_event list \<Rightarrow> bool \<times> StreamSource \<Rightarrow> (bool \<times> StreamSource) option" where
  "source_run [] c = Some c"
| "source_run (e # es) c = (case source_step e c of None \<Rightarrow> None | Some c \<Rightarrow> source_run es c)"

section \<open>Well-formed output\<close>

text \<open>What a session relies on: a video frame has units, all decodable, and a key frame carries no
  parameter sets; an audio frame has data and, for AAC, channels.\<close>

fun wf_frame :: "Frame \<Rightarrow> bool" where
  "wf_frame (FVideo codec nals pts key au_end) \<longleftrightarrow> nals \<noteq> [] \<and>
     (\<forall>n\<in>set nals. is_decodable_nal n codec \<and> (key \<longrightarrow> \<not> is_parameter_set_nal codec n)) \<and> au_end"
| "wf_frame (FAudio (PAac au rate ch) pts) \<longleftrightarrow> au \<noteq> [] \<and> ch \<noteq> 0"
| "wf_frame (FAudio (PG711Ulaw ulaw) pts) \<longleftrightarrow> ulaw \<noteq> []"

fun is_video :: "Frame \<Rightarrow> bool" where
  "is_video (FVideo _ _ _ _ _) \<longleftrightarrow> True"
| "is_video (FAudio _ _) \<longleftrightarrow> False"

text \<open>Longest pace of a video frame: the anomaly cap of the translator.\<close>

definition MAX_PACE :: nat where "MAX_PACE = 5000000"

fun emit_ok :: "Emit \<Rightarrow> bool" where
  "emit_ok (EVideo f d) \<longleftrightarrow> wf_frame f \<and> is_video f \<and> d \<le> MAX_PACE"
| "emit_ok (EAudio f d) \<longleftrightarrow> wf_frame f \<and> \<not> is_video f"
| "emit_ok (EReplaceVideoBurst b) \<longleftrightarrow> pframe_nals b = []"
| "emit_ok _ \<longleftrightarrow> True"

lemma video_pace_bound: "fst (video_frame_duration pts st) \<le> MAX_PACE"
proof (cases "last_video_pts_90khz st")
  case (Some prev)
  have "unat (if PACER_ANOMALY_CAP_TICKS < pts - prev then 0 else pts - prev) \<le> 450000"
    by (auto simp: PACER_ANOMALY_CAP_TICKS_def word_less_nat_alt not_less)
  then show ?thesis by (simp add: video_frame_duration_def Some MAX_PACE_def Let_def)
qed (simp add: video_frame_duration_def)

lemma sdp_video_emit_ok: "e \<in> set (sdp_video codec parts) \<Longrightarrow> emit_ok e"
  by (auto simp: sdp_video_def split: option.splits)

lemma translate_iframe_ok: "e \<in> set (fst (fst (translate_iframe i now st))) \<Longrightarrow> emit_ok e"
  by (simp add: translate_iframe_def Let_def case_prod_unfold split: option.splits if_split_asm)
     (auto simp: video_pace_bound filter_empty_conv dest: sdp_video_emit_ok)

lemma translate_pframe_ok: "e \<in> set (fst (fst (translate_pframe p st))) \<Longrightarrow> emit_ok e"
  by (simp add: translate_pframe_def Let_def case_prod_unfold split: option.splits if_split_asm)
     (auto simp: video_pace_bound)

lemma translate_aac_ok: "e \<in> set (fst (translate_aac a g st)) \<Longrightarrow> emit_ok e"
proof (cases "parse_adts (aac_data a)")
  case (Some h)
  note aac = translate_aac_def [of a, unfolded Some option.case Let_def]
  assume "e \<in> set (fst (translate_aac a g st))"
  then show ?thesis
    by (cases "adts_channels h = 0"; cases "sdp_audio_emitted st";
        cases "build_audio_specific_config_hex (adts_aot h) (adts_sample_rate h) (adts_channels h)";
        cases "aac_samples_per_au (adts_aot h)")
      (simp_all add: aac min_def split: if_split_asm, auto)
qed (simp add: translate_aac_def)

lemma translate_adpcm_ok:
  "\<exists>es st'. translate_adpcm a g st = Some (es, st') \<and> (\<forall>e\<in>set es. emit_ok e)"
proof -
  obtain r d where r: "decode_block (adpcm_data a) AdpcmDecoder_new = Some (r, d)"
    using decode_block_not_None [of "adpcm_data a" AdpcmDecoder_new] by auto
  show ?thesis
  proof (cases r)
    case (Inl e)
    then show ?thesis by (simp add: translate_adpcm_def r)
  next
    case (Inr pcm)
    note adpcm = translate_adpcm_def [of a, unfolded r, simplified Inr, simplified]
    show ?thesis
    proof (cases "pcm = [] \<or> decimate_16_to_8 pcm = []")
      case True
      then show ?thesis by (auto simp: adpcm)
    next
      case False
      then have "g711_encode (decimate_16_to_8 pcm) \<noteq> []" by (simp add: g711_encode_def)
      then show ?thesis using False
        by (cases "sdp_audio_emitted st") (simp_all add: adpcm Let_def)
    qed
  qed
qed

lemma translate_ok:
  "\<exists>es pts st'. translate packet now g st = Some ((es, pts), st') \<and> (\<forall>e\<in>set es. emit_ok e)"
proof (cases packet)
  case (Iframe i)
  then show ?thesis using translate_iframe_ok [of _ i now st]
    by (cases "translate_iframe i now st") (auto simp: translate_def)
next
  case (Pframe p)
  then show ?thesis using translate_pframe_ok [of _ p st]
    by (cases "translate_pframe p st") (auto simp: translate_def)
next
  case (Aac a)
  then show ?thesis using translate_aac_ok [of _ a g st]
    by (cases "translate_aac a g st") (auto simp: translate_def)
next
  case (Adpcm a)
  then show ?thesis using translate_adpcm_ok [of a g st] by (auto simp: translate_def)
qed (auto simp: translate_def)

text \<open>The invariant of a source.\<close>

fun pace_ok :: "nat \<Rightarrow> bool \<Rightarrow> pace_tx \<Rightarrow> bool" where
  "pace_ok cap video (PacerOpen q) \<longleftrightarrow> length q \<le> cap \<and>
     (\<forall>i\<in>set q. wf_frame (pf_frame i) \<and> is_video (pf_frame i) = video \<and> (video \<longrightarrow> pf_duration i \<le> MAX_PACE))"
| "pace_ok cap video _ \<longleftrightarrow> True"

definition buffer_ok :: "LastFrameBuffer \<Rightarrow> bool" where
  "buffer_ok b \<longleftrightarrow> (case lf_video b of None \<Rightarrow> True | Some burst \<Rightarrow> pframe_total (pframe_nals burst) \<le> MAX_PFRAME_BYTES)"

definition source_ok :: "StreamSource \<Rightarrow> bool" where
  "source_ok s \<longleftrightarrow> (\<forall>f\<in>set (tx s). wf_frame f) \<and> pace_ok AUDIO_PACER_QUEUE False (audio_pace_tx s) \<and>
     pace_ok VIDEO_PACER_QUEUE True (video_pace_tx s) \<and> buffer_ok (last_frame s)"

lemma append_pframe_ok: "buffer_ok b \<Longrightarrow> buffer_ok (append_pframe nals b)"
  by (cases "lf_video b") (simp_all add: buffer_ok_def append_pframe_Some longest_fit_bound, simp add: append_pframe_def)

lemma try_send_ok:
  "pace_ok cap v (PacerOpen q) \<Longrightarrow> wf_frame (pf_frame i) \<Longrightarrow> is_video (pf_frame i) = v \<Longrightarrow>
   (v \<Longrightarrow> pf_duration i \<le> MAX_PACE) \<Longrightarrow> pace_ok cap v (PacerOpen (try_send cap i q))"
  by (auto simp: try_send_def)

lemma apply_emit_ok:
  assumes "source_ok s" "emit_ok e"
  shows "source_ok (apply_emit e s)"
proof (cases e)
  case (EVideo f d)
  then show ?thesis using assms
    by (cases "video_pace_tx s")
       (auto simp: apply_emit_def dispatch_paced_video_def source_ok_def try_send_def)
next
  case (EAudio f d)
  then show ?thesis using assms
    by (cases "audio_pace_tx s")
       (auto simp: apply_emit_def dispatch_paced_audio_def source_ok_def try_send_def)
next
  case (EReplaceVideoBurst b)
  then show ?thesis using assms
    by (simp add: apply_emit_def source_ok_def buffer_ok_def replace_video_def)
next
  case (EAppendPframe f)
  then show ?thesis using assms
    by (simp add: apply_emit_def source_ok_def append_pframe_ok)
qed (use assms in \<open>auto simp: apply_emit_def source_ok_def\<close>)

lemma fold_apply_emit_ok:
  "source_ok s \<Longrightarrow> (\<forall>e\<in>set es. emit_ok e) \<Longrightarrow> source_ok (fold apply_emit es s)"
  by (induction es arbitrary: s) (simp_all add: apply_emit_ok)

lemma source_ok_cong [simp]:
  "source_ok (s\<lparr>bridging := p\<rparr>) = source_ok s" "source_ok (s\<lparr>translator_state := st\<rparr>) = source_ok s"
  by (simp_all add: source_ok_def)

lemma apply_bcmedia_packet_ok:
  assumes "source_ok s"
  shows "\<exists>pts s'. apply_bcmedia_packet packet now g s = Some (pts, s') \<and> source_ok s'"
proof -
  obtain es pts st where "translate packet now g (translator_state s) = Some ((es, pts), st)"
    and "\<forall>e\<in>set es. emit_ok e"
    using translate_ok [of packet now g "translator_state s"] by blast
  then show ?thesis using assms by (simp add: apply_bcmedia_packet_def fold_apply_emit_ok)
qed

lemma process_stream_result_ok:
  assumes "source_ok s"
  shows "\<exists>run s'. process_stream_result r t1 t2 t3 s = Some (run, s') \<and> source_ok s'"
proof (cases r)
  case (GotPacket packet)
  let ?s = "case packet of Iframe _ \<Rightarrow> s\<lparr>bridging := on_upstream_packet t1 (bridging s)\<rparr>
      | Pframe _ \<Rightarrow> s\<lparr>bridging := on_upstream_packet t1 (bridging s)\<rparr> | _ \<Rightarrow> s"
  have "source_ok ?s" using assms by (simp split: BcMedia.split)
  then obtain pts s' where "apply_bcmedia_packet packet t2 (is_bridging (bridging ?s)) ?s = Some (pts, s')"
    and "source_ok s'" using apply_bcmedia_packet_ok by blast
  then show ?thesis by (cases pts) (auto simp: process_stream_result_def GotPacket Let_def)
qed (use assms in \<open>auto simp: process_stream_result_def\<close>)

lemma replay_payload_wf: "replay_payload b = Some (codec, nals, pts) \<Longrightarrow> wf_frame (FVideo codec nals p True True)"
  by (auto simp: replay_payload_def Let_def split: option.splits if_split_asm)

lemma tick_bridging_ok: "source_ok s \<Longrightarrow> source_ok (tick_bridging now s)"
  by (auto simp: tick_bridging_def Let_def source_ok_def simp del: wf_frame.simps
      split: prod.split option.split dest: replay_payload_wf)

lemma pacer_emit_ok:
  "source_ok s \<Longrightarrow> source_ok (video_pacer_emit s)" "source_ok s \<Longrightarrow> source_ok (audio_pacer_emit s)"
  by (auto simp: video_pacer_emit_def audio_pacer_emit_def source_ok_def split: pace_tx.split list.split)

lemma source_step_ok:
  "source_ok (snd c) \<Longrightarrow> \<exists>c'. source_step e c = Some c' \<and> source_ok (snd c')"
  using process_stream_result_ok
  by (cases c; cases e) (auto simp: tick_bridging_ok pacer_emit_ok)

lemma source_run_ok:
  "source_ok (snd c) \<Longrightarrow> \<exists>c'. source_run es c = Some c' \<and> source_ok (snd c')"
proof (induction es arbitrary: c)
  case (Cons e es)
  then show ?case using source_step_ok [of c e] by auto
qed simp

text \<open>
  C12. Everything a source puts out is well typed. Whatever the camera sends, in whatever order
  packets, gap ticks and pacers interleave, the translator never panics; every frame on the
  broadcast channel and in the pacer queues is well formed (non-empty, all units decodable, no
  parameter sets in key frames, replays included), the video queue holds only video and at most 300
  frames, the audio queue only audio and at most 200, and the cached P-frames stay within 8 MiB.
\<close>

theorem source_output_well_formed:
  assumes "buffer_ok buf"
  shows "\<exists>run s. source_run es (True, StreamSource_start name buf presence threshold t0) = Some (run, s) \<and> source_ok s"
  using source_run_ok [of "(True, StreamSource_start name buf presence threshold t0)" es] assms
  by (auto simp: StreamSource_start_def source_ok_def)


text \<open>A key frame, then silence: the frame is queued, and replayed from the cache after the gap.\<close>

definition h264_iframe :: BcMedia where
  "h264_iframe = Iframe \<lparr>if_video_type = H264, if_microseconds = 100, if_time = None,
     if_data = [0, 0, 0, 1, 0x67, 1, 2, 3, 0, 0, 0, 1, 0x68, 4, 0, 0, 0, 1, 0x65, 9]\<rparr>"

theorem source_output_well_formed_witness:
  "\<exists>run s. source_run [Got (GotPacket h264_iframe) 0 0 0, GapTick 4000000000, VideoPacer]
      (True, StreamSource_start ''a'' LastFrameBuffer_new Unknown (Some 3000000000) 0) = Some (run, s) \<and> source_ok s"
  by (rule source_output_well_formed) (simp add: buffer_ok_def LastFrameBuffer_new_def)

section \<open>Pacing\<close>

text \<open>
  A pacer takes the next item only after the previous one went out, so at or after its target.
\<close>

fun causal :: "(nat \<times> nat) list \<Rightarrow> nat list \<Rightarrow> bool" where
  "causal ((now, d) # (now', d') # items) (t # ts) \<longleftrightarrow> t \<le> now' \<and> causal ((now', d') # items) ts"
| "causal _ _ \<longleftrightarrow> True"

lemma causal_head: "causal ((now, d) # items) ts = causal ((now', d') # items) ts"
  by (cases items; cases ts) auto

lemma causal_tail: "causal (x # y # items) (t # ts) \<Longrightarrow> t \<le> fst y \<and> causal (y # items) ts"
  by (cases x; cases y) simp

lemma pacer_None:
  "media_pacer_task max_lead lat snap ((now, d) # items) None =
    (now + lat) # media_pacer_task max_lead lat snap items (Some (now + lat + d))"
  by (simp add: media_pacer_task.simps pacer_step_def next_target_def Let_def)

lemma pacer_Some:
  assumes "c \<le> now + max_lead"
  shows "media_pacer_task max_lead lat False ((now, d) # items) (Some c) =
      c # media_pacer_task max_lead lat False items (Some (c + d))"
    and "media_pacer_task max_lead lat True ((now, d) # items) (Some c) =
      max now c # media_pacer_task max_lead lat True items (Some (max now c + d))"
  using assms by (simp_all add: pacer_step_def next_target_def Let_def max_def not_less)

declare media_pacer_task.simps(2) [simp del]

lemma video_pacer_from:
  assumes "causal ((t, d0) # items) (t # media_pacer_task max_lead lat False items (Some (t + d0)))"
    and "\<forall>d\<in>set (d0 # map snd items). d \<le> max_lead"
  shows "\<forall>i<length items. media_pacer_task max_lead lat False items (Some (t + d0)) ! i =
    t + d0 + sum_list (map snd (take i items))"
  using assms
proof (induction items arbitrary: t d0)
  case (Cons x items)
  obtain now d where x: "x = (now, d)" by (cases x)
  have "t + d0 \<le> now + max_lead" using causal_tail [OF Cons.prems(1)] Cons.prems(2) x by auto
  note run = pacer_Some(1) [OF this, of lat d items]
  have "causal ((t + d0, d) # items) ((t + d0) # media_pacer_task max_lead lat False items (Some (t + d0 + d)))"
    using causal_tail [OF Cons.prems(1) [unfolded x run]] causal_head by blast
  then show ?case using Cons.IH Cons.prems(2) x run
    by (auto simp: less_Suc_eq_0_disj)
qed simp

text \<open>
  The video pacer keeps the stream's own time. As long as no single frame lasts more than three
  seconds, frame \<open>i\<close> is due exactly at the first frame's arrival plus 1.5 s plus the durations of
  the frames before it, however late the pacer wakes up and however the camera bursts: the schedule
  does not drift. In particular the lead cap never moves it: the cap limits the gap after one
  frame, not the backlog.
\<close>

theorem video_pacer_no_drift:
  assumes "\<forall>x\<in>set items. snd x \<le> VIDEO_PACER_MAX_LEAD"
    and "causal items (video_pacer_task items)"
  shows "\<forall>i<length items. video_pacer_task items ! i =
    fst (hd items) + VIDEO_PACER_INITIAL_LATENCY + sum_list (map snd (take i items))"
proof (cases items)
  case (Cons x rest)
  obtain now d where x: "x = (now, d)" by (cases x)
  let ?t = "now + VIDEO_PACER_INITIAL_LATENCY"
  have run: "video_pacer_task ((now, d) # rest) = ?t #
      media_pacer_task VIDEO_PACER_MAX_LEAD VIDEO_PACER_INITIAL_LATENCY False rest (Some (?t + d))"
    by (simp add: video_pacer_task_def pacer_None)
  have "causal ((?t, d) # rest) (?t #
      media_pacer_task VIDEO_PACER_MAX_LEAD VIDEO_PACER_INITIAL_LATENCY False rest (Some (?t + d)))"
    using assms(2) unfolding Cons x run by (simp only: causal_head [of now d rest _ ?t d])
  from video_pacer_from [OF this] assms(1) show ?thesis
    by (auto simp: run Cons x less_Suc_eq_0_disj)
qed simp

theorem video_pacer_no_drift_witness:
  "video_pacer_task [(0, 40000), (1500000, 40000), (1590000, 40000)] ! 2 = 0 + 1500000 + (40000 + 40000)"
  using video_pacer_no_drift [of "[(0, 40000), (1500000, 40000), (1590000, 40000)]"]
  by (simp add: VIDEO_PACER_MAX_LEAD_def VIDEO_PACER_INITIAL_LATENCY_def video_pacer_task_def
      media_pacer_task.simps pacer_step_def next_target_def Let_def)

lemma audio_pacer_from:
  assumes "causal ((t, d0) # items) (t # media_pacer_task max_lead lat True items (Some (t + d0)))"
    and "\<forall>d\<in>set (d0 # map snd items). d \<le> max_lead" "Suc i \<le> length items"
  shows "media_pacer_task max_lead lat True items (Some (t + d0)) ! i =
    max (fst (items ! i))
      (if i = 0 then t + d0
       else media_pacer_task max_lead lat True items (Some (t + d0)) ! (i - 1) + snd (items ! (i - 1)))"
  using assms
proof (induction items arbitrary: t d0 i)
  case (Cons x items)
  obtain now d where x: "x = (now, d)" by (cases x)
  let ?u = "max now (t + d0)"
  have "t + d0 \<le> now + max_lead" using causal_tail [OF Cons.prems(1)] Cons.prems(2) x by auto
  note run = pacer_Some(2) [OF this, of lat d items]
  have "causal ((?u, d) # items) (?u # media_pacer_task max_lead lat True items (Some (?u + d)))"
    using causal_tail [OF Cons.prems(1) [unfolded x run]] causal_head by blast
  note IH = Cons.IH [OF this]
  show ?case
  proof (cases i)
    case (Suc j)
    show ?thesis using IH [of j] Cons.prems(2,3) unfolding x run Suc
      by (cases j) (simp_all add: Suc_le_eq)
  qed (simp add: x run)
qed simp

text \<open>
  The audio pacer never bursts. The first packet waits half a second; each later one is due
  exactly at the later of its own arrival and one packet duration after the previous one: packets
  are never closer than their duration, and one that is on time is not delayed further.
\<close>

theorem audio_pacer_spacing:
  assumes "\<forall>x\<in>set items. snd x \<le> AUDIO_PACER_MAX_LEAD"
    and "causal items (audio_pacer_task items)" and "i < length items"
  shows "audio_pacer_task items ! i =
    (if i = 0 then fst (items ! 0) + AUDIO_PACER_INITIAL_LATENCY
     else max (fst (items ! i)) (audio_pacer_task items ! (i - 1) + snd (items ! (i - 1))))"
proof (cases items)
  case (Cons x rest)
  obtain now d where x: "x = (now, d)" by (cases x)
  let ?t = "now + AUDIO_PACER_INITIAL_LATENCY"
  have run: "audio_pacer_task ((now, d) # rest) = ?t #
      media_pacer_task AUDIO_PACER_MAX_LEAD AUDIO_PACER_INITIAL_LATENCY True rest (Some (?t + d))"
    by (simp add: audio_pacer_task_def pacer_None)
  have c: "causal ((?t, d) # rest) (?t #
      media_pacer_task AUDIO_PACER_MAX_LEAD AUDIO_PACER_INITIAL_LATENCY True rest (Some (?t + d)))"
    using assms(2) unfolding Cons x run by (simp only: causal_head [of now d rest _ ?t d])
  show ?thesis
  proof (cases i)
    case (Suc j)
    show ?thesis using audio_pacer_from [OF c, of j] assms(1,3) unfolding Cons x run Suc
      by (cases j) (simp_all add: Suc_le_eq)
  qed (simp add: run Cons x)
qed (use assms(3) in simp)

theorem audio_pacer_spacing_witness:
  "audio_pacer_task [(0, 64000), (500000, 64000), (2000000, 64000)] ! 1 = max 500000 (500000 + 64000)"
  using audio_pacer_spacing [of "[(0, 64000), (500000, 64000), (2000000, 64000)]" 1]
  by (simp add: AUDIO_PACER_MAX_LEAD_def AUDIO_PACER_INITIAL_LATENCY_def audio_pacer_task_def
      media_pacer_task.simps pacer_step_def next_target_def Let_def)

end
