(* ===== verification/Wake_Lock.thy ===== *)
theory Wake_Lock
  imports Prelude
begin

text \<open>
  The wake lock (\<open>src/wake_lock.rs\<close>), the grace period that watches its releases
  (\<open>src/grace_period.rs\<close>) and the watchdog's disconnect predicate (\<open>src/watchdog.rs\<close>).

  Guards are taken and dropped by many tasks at once, and \<open>acquire\<close> and \<open>drop\<close> are not atomic:
  each is a counter update followed, on the 0-to-1 or 1-to-0 edge, by a store under a mutex and a
  \<open>notify_one\<close>. The model interleaves these atomic pieces freely. \<open>notify_one\<close> with a single
  waiter is a stored permit. Time is in nanoseconds since the start of the process.
\<close>

section \<open>The lock\<close>

record WakeLockInner =
  count :: usize
  notify_release :: bool
  notify_acquire :: bool
  last_release_at :: "nat option"

definition WakeLockCounter_new :: WakeLockInner where
  "WakeLockCounter_new = \<lparr>count = 0, notify_release = False, notify_acquire = False,
     last_release_at = None\<rparr>"

text \<open>
  Where a task is with respect to one guard: without it, between the increment and the clearing of
  the timestamp, before the notification, holding it, between the decrement and the stamp, before
  the release notification.
\<close>

datatype task = Absent | AcqClear | AcqNotify | Holding | RelStamp | RelNotify

definition acquire_begin :: "WakeLockInner \<Rightarrow> task \<times> WakeLockInner" where
  "acquire_begin w = (let prev = count w; w' = w\<lparr>count := count w + 1\<rparr>
     in (if prev = 0 then AcqClear else Holding, w'))"

definition drop_begin :: "WakeLockInner \<Rightarrow> task \<times> WakeLockInner" where
  "drop_begin w = (let prev = count w; w' = w\<lparr>count := count w - 1\<rparr>
     in (if prev = 1 then RelStamp else Absent, w'))"

text \<open>The rest of \<open>acquire\<close> and of \<open>drop\<close>, one atomic piece at a time.\<close>

fun task_step :: "nat \<Rightarrow> task \<Rightarrow> WakeLockInner \<Rightarrow> (task \<times> WakeLockInner) option" where
  "task_step now AcqClear w = Some (AcqNotify, w\<lparr>last_release_at := None\<rparr>)"
| "task_step now AcqNotify w = Some (Holding, w\<lparr>notify_acquire := True\<rparr>)"
| "task_step now RelStamp w = Some (RelNotify, w\<lparr>last_release_at := Some now\<rparr>)"
| "task_step now RelNotify w = Some (Absent, w\<lparr>notify_release := True\<rparr>)"
| "task_step now _ w = None"

definition is_idle :: "WakeLockInner \<Rightarrow> bool" where
  "is_idle w \<longleftrightarrow> count w = 0"

text \<open>\<open>idle_since\<close> loads the counter and then reads the timestamp: two states of the lock.\<close>

definition idle_since :: "WakeLockInner \<Rightarrow> WakeLockInner \<Rightarrow> nat option" where
  "idle_since w w' = (if \<not> is_idle w then None else last_release_at w')"

section \<open>The waiters\<close>

text \<open>
  \<open>wait_for_acquire\<close>: the top of its loop (the permit is only looked at in \<open>await\<close>), parked in
  \<open>await\<close>, the second check, returned.
\<close>

datatype wait_pc = WTop | WParked | WRecheck | WDone

fun wait_for_acquire :: "wait_pc \<Rightarrow> WakeLockInner \<Rightarrow> (wait_pc \<times> WakeLockInner) option" where
  "wait_for_acquire WTop w = Some (if \<not> is_idle w then WDone else WParked, w)"
| "wait_for_acquire WParked w =
     (if notify_acquire w then Some (WRecheck, w\<lparr>notify_acquire := False\<rparr>) else None)"
| "wait_for_acquire WRecheck w = Some (if \<not> is_idle w then WDone else WTop, w)"
| "wait_for_acquire WDone w = Some (WTop, w)"

text \<open>\<open>GracePeriod::run\<close>: top of the loop, parked, sleeping until a deadline, returned.\<close>

datatype grace_pc = GTop | GParked | GSleep (deadline: nat) | GDone

fun grace_run :: "nat \<Rightarrow> nat \<Rightarrow> grace_pc \<Rightarrow> WakeLockInner \<Rightarrow> (grace_pc \<times> WakeLockInner) option" where
  "grace_run dur now GTop w = Some (if \<not> is_idle w then GParked else GSleep (now + dur), w)"
| "grace_run dur now GParked w =
     (if notify_release w then Some (GSleep (now + dur), w\<lparr>notify_release := False\<rparr>) else None)"
| "grace_run dur now (GSleep d) w =
     (if now < d then None else Some (if is_idle w then GDone else GTop, w))"
| "grace_run dur now GDone w = Some (GTop, w)"

section \<open>The watchdog's predicate\<close>

definition should_disconnect :: "bool \<Rightarrow> bool \<Rightarrow> nat option \<Rightarrow> nat \<Rightarrow> bool" where
  "should_disconnect idle_disconnect connected idle_for grace \<longleftrightarrow>
     idle_disconnect \<and> connected \<and> (case idle_for of None \<Rightarrow> False | Some idle \<Rightarrow> grace \<le> idle)"

section \<open>Interleavings\<close>

text \<open>
  The whole system: the lock, every task, the camera's run loop in \<open>wait_for_acquire\<close>, its grace
  period, the clock, and (for the statements only) the time of the latest 1-to-0 edge.
\<close>

record wl_sys =
  lock :: WakeLockInner
  tasks :: "nat \<Rightarrow> task"
  waiter :: wait_pc
  grace :: grace_pc
  clock :: nat
  zero_at :: "nat option"

definition wl_init :: wl_sys where
  "wl_init = \<lparr>lock = WakeLockCounter_new, tasks = (\<lambda>_. Absent), waiter = WTop, grace = GTop,
     clock = 0, zero_at = None\<rparr>"

datatype wl_event = EAcquire nat | EDrop nat | ETask nat | EWait | EGrace nat | ETime nat

fun wl_step :: "wl_event \<Rightarrow> wl_sys \<Rightarrow> wl_sys option" where
  "wl_step (EAcquire i) s =
     (if tasks s i \<noteq> Absent then None
      else let (t, w) = acquire_begin (lock s)
           in Some (s\<lparr>lock := w, tasks := (tasks s)(i := t)\<rparr>))"
| "wl_step (EDrop i) s =
     (if tasks s i \<noteq> Holding then None
      else let (t, w) = drop_begin (lock s)
           in Some (s\<lparr>lock := w, tasks := (tasks s)(i := t),
                zero_at := (if t = RelStamp then Some (clock s) else zero_at s)\<rparr>))"
| "wl_step (ETask i) s =
     (case task_step (clock s) (tasks s i) (lock s) of
        None \<Rightarrow> None
      | Some (t, w) \<Rightarrow> Some (s\<lparr>lock := w, tasks := (tasks s)(i := t)\<rparr>))"
| "wl_step EWait s =
     (case wait_for_acquire (waiter s) (lock s) of
        None \<Rightarrow> None | Some (p, w) \<Rightarrow> Some (s\<lparr>lock := w, waiter := p\<rparr>))"
| "wl_step (EGrace dur) s =
     (case grace_run dur (clock s) (grace s) (lock s) of
        None \<Rightarrow> None | Some (p, w) \<Rightarrow> Some (s\<lparr>lock := w, grace := p\<rparr>))"
| "wl_step (ETime d) s = Some (s\<lparr>clock := clock s + d\<rparr>)"

inductive wl_steps :: "wl_sys \<Rightarrow> wl_sys \<Rightarrow> bool" where
  wl_refl: "wl_steps s s"
| wl_next: "wl_steps s s' \<Longrightarrow> wl_step e s' = Some s'' \<Longrightarrow> wl_steps s s''"

fun wl_exec :: "wl_event list \<Rightarrow> wl_sys \<Rightarrow> wl_sys option" where
  "wl_exec [] s = Some s"
| "wl_exec (e # es) s = (case wl_step e s of None \<Rightarrow> None | Some s' \<Rightarrow> wl_exec es s')"

lemma wl_steps_trans: "wl_steps s t \<Longrightarrow> wl_steps t u \<Longrightarrow> wl_steps s u"
  by (rotate_tac 1) (induction rule: wl_steps.induct, auto intro: wl_next)

lemma wl_exec_steps: "wl_exec es s = Some t \<Longrightarrow> wl_steps s t"
proof (induction es arbitrary: s)
  case (Cons e es)
  then obtain s' where "wl_step e s = Some s'" "wl_exec es s' = Some t"
    by (auto split: option.splits)
  then show ?case using Cons.IH wl_steps_trans [OF wl_next [OF wl_refl]] by blast
qed (auto intro: wl_refl)

section \<open>Invariant\<close>

definition holders :: "wl_sys \<Rightarrow> nat set" where
  "holders s = {i. tasks s i = AcqClear \<or> tasks s i = AcqNotify \<or> tasks s i = Holding}"

definition counted :: "wl_sys \<Rightarrow> bool" where
  "counted s \<longleftrightarrow> finite (holders s) \<and> count (lock s) = card (holders s)"

definition past :: "wl_sys \<Rightarrow> bool" where
  "past s \<longleftrightarrow> (\<forall>z. zero_at s = Some z \<longrightarrow> z \<le> clock s) \<and>
     (\<forall>t. last_release_at (lock s) = Some t \<longrightarrow> t \<le> clock s)"

text \<open>Some task is between its decrement and its stamp; is releasing; is acquiring.\<close>

definition stamping :: "(nat \<Rightarrow> task) \<Rightarrow> bool" where
  "stamping f \<longleftrightarrow> (\<exists>i. f i = RelStamp)"

definition releasing :: "(nat \<Rightarrow> task) \<Rightarrow> bool" where
  "releasing f \<longleftrightarrow> (\<exists>i. f i = RelStamp \<or> f i = RelNotify)"

definition acquiring :: "(nat \<Rightarrow> task) \<Rightarrow> bool" where
  "acquiring f \<longleftrightarrow> (\<exists>i. f i = AcqClear \<or> f i = AcqNotify)"

lemma task_upd [simp]:
  "stamping (f(i := RelStamp))" "releasing (f(i := RelStamp))" "releasing (f(i := RelNotify))"
  "acquiring (f(i := AcqClear))" "acquiring (f(i := AcqNotify))"
  by (auto simp: stamping_def releasing_def acquiring_def)

lemma task_upd_other [simp]:
  "x \<noteq> RelStamp \<Longrightarrow> f i \<noteq> RelStamp \<Longrightarrow> stamping (f(i := x)) = stamping f"
  "x \<noteq> RelStamp \<Longrightarrow> f i \<noteq> RelStamp \<Longrightarrow> x \<noteq> RelNotify \<Longrightarrow> f i \<noteq> RelNotify \<Longrightarrow>
     releasing (f(i := x)) = releasing f"
  "x \<noteq> AcqClear \<Longrightarrow> f i \<noteq> AcqClear \<Longrightarrow> x \<noteq> AcqNotify \<Longrightarrow> f i \<noteq> AcqNotify \<Longrightarrow>
     acquiring (f(i := x)) = acquiring f"
  by (auto simp: stamping_def releasing_def acquiring_def)

definition stamped :: "wl_sys \<Rightarrow> bool" where
  "stamped s \<longleftrightarrow> (count (lock s) = 0 \<and> \<not> stamping (tasks s) \<longrightarrow>
     (case zero_at s of
        None \<Rightarrow> last_release_at (lock s) = None
      | Some z \<Rightarrow> \<exists>t. last_release_at (lock s) = Some t \<and> z \<le> t))"

definition never_released :: "wl_sys \<Rightarrow> bool" where
  "never_released s \<longleftrightarrow> (zero_at s = None \<longrightarrow>
     last_release_at (lock s) = None \<and> \<not> releasing (tasks s))"

definition no_lost_acquire :: "wl_sys \<Rightarrow> bool" where
  "no_lost_acquire s \<longleftrightarrow> (waiter s = WParked \<and> 0 < count (lock s) \<longrightarrow>
     notify_acquire (lock s) \<or> acquiring (tasks s))"

definition no_lost_release :: "wl_sys \<Rightarrow> bool" where
  "no_lost_release s \<longleftrightarrow> (grace s = GParked \<and> count (lock s) = 0 \<longrightarrow>
     notify_release (lock s) \<or> releasing (tasks s))"

definition wl_ok :: "wl_sys \<Rightarrow> bool" where
  "wl_ok s \<longleftrightarrow> counted s \<and> past s \<and> stamped s \<and> never_released s \<and> no_lost_acquire s \<and>
     no_lost_release s"

text \<open>One step, taken apart: what it does to the lock and to the task that moves.\<close>

lemma wl_stepE [consumes 1, case_names acquire drop clear notify_acq stamp notify_rel wait grace time]:
  assumes "wl_step e s = Some s'"
  obtains
    i t where "e = EAcquire i" "tasks s i = Absent" "t = (if count (lock s) = 0 then AcqClear else Holding)"
      "s' = s\<lparr>lock := (lock s)\<lparr>count := count (lock s) + 1\<rparr>, tasks := (tasks s)(i := t)\<rparr>"
  | i t where "e = EDrop i" "tasks s i = Holding" "t = (if count (lock s) = 1 then RelStamp else Absent)"
      "s' = s\<lparr>lock := (lock s)\<lparr>count := count (lock s) - 1\<rparr>, tasks := (tasks s)(i := t),
         zero_at := (if t = RelStamp then Some (clock s) else zero_at s)\<rparr>"
  | i where "e = ETask i" "tasks s i = AcqClear"
      "s' = s\<lparr>lock := (lock s)\<lparr>last_release_at := None\<rparr>, tasks := (tasks s)(i := AcqNotify)\<rparr>"
  | i where "e = ETask i" "tasks s i = AcqNotify"
      "s' = s\<lparr>lock := (lock s)\<lparr>notify_acquire := True\<rparr>, tasks := (tasks s)(i := Holding)\<rparr>"
  | i where "e = ETask i" "tasks s i = RelStamp"
      "s' = s\<lparr>lock := (lock s)\<lparr>last_release_at := Some (clock s)\<rparr>, tasks := (tasks s)(i := RelNotify)\<rparr>"
  | i where "e = ETask i" "tasks s i = RelNotify"
      "s' = s\<lparr>lock := (lock s)\<lparr>notify_release := True\<rparr>, tasks := (tasks s)(i := Absent)\<rparr>"
  | p w where "e = EWait" "wait_for_acquire (waiter s) (lock s) = Some (p, w)"
      "s' = s\<lparr>lock := w, waiter := p\<rparr>"
  | dur p w where "e = EGrace dur" "grace_run dur (clock s) (grace s) (lock s) = Some (p, w)"
      "s' = s\<lparr>lock := w, grace := p\<rparr>"
  | d where "e = ETime d" "s' = s\<lparr>clock := clock s + d\<rparr>"
proof (cases e)
  case (ETask i)
  then show ?thesis
    using assms that(3-6) by (cases "tasks s i") auto
qed (use assms that(1,2,7-9) in
  \<open>auto simp: acquire_begin_def drop_begin_def Let_def split: if_split_asm option.split_asm prod.split_asm\<close>)

text \<open>The waiters change nothing of the lock but their permit.\<close>

lemma wait_frame:
  assumes "wait_for_acquire p w = Some (p', w')"
  shows "count w' = count w" "last_release_at w' = last_release_at w"
    "notify_release w' = notify_release w"
    "p' = WParked \<Longrightarrow> count w = 0"
  using assms by (cases p; auto simp: is_idle_def split: if_splits)+

lemma grace_frame:
  assumes "grace_run dur now p w = Some (p', w')"
  shows "count w' = count w" "last_release_at w' = last_release_at w"
    "notify_acquire w' = notify_acquire w"
    "p' = GParked \<Longrightarrow> count w \<noteq> 0"
  using assms by (cases p; auto simp: is_idle_def split: if_splits)+

lemma holders_empty: "counted s \<Longrightarrow> count (lock s) = 0 \<longleftrightarrow> holders s = {}"
  by (auto simp: counted_def)

lemma holder_pos:
  "counted s \<Longrightarrow> tasks s i = AcqClear \<or> tasks s i = AcqNotify \<or> tasks s i = Holding \<Longrightarrow>
   0 < count (lock s)"
  using holders_empty [of s] by (auto simp: holders_def)

lemma counted_step:
  assumes "wl_step e s = Some s'" "counted s"
  shows "counted s'"
  using assms(1)
proof (cases rule: wl_stepE)
  case (acquire i t)
  then have "holders s' = insert i (holders s)" "i \<notin> holders s"
    by (auto simp: holders_def)
  then show ?thesis using acquire assms(2) by (simp add: counted_def)
next
  case (drop i t)
  then have "holders s' = holders s - {i}" "i \<in> holders s"
    by (auto simp: holders_def)
  then show ?thesis using drop assms(2) by (simp add: counted_def)
next
  case (clear i)
  then have "holders s' = holders s" by (auto simp: holders_def)
  then show ?thesis using clear assms(2) by (simp add: counted_def)
next
  case (notify_acq i)
  then have "holders s' = holders s" by (auto simp: holders_def)
  then show ?thesis using notify_acq assms(2) by (simp add: counted_def)
next
  case (stamp i)
  then have "holders s' = holders s" by (auto simp: holders_def)
  then show ?thesis using stamp assms(2) by (simp add: counted_def)
next
  case (notify_rel i)
  then have "holders s' = holders s" by (auto simp: holders_def)
  then show ?thesis using notify_rel assms(2) by (simp add: counted_def)
qed (use assms(2) in \<open>auto simp: counted_def holders_def wait_frame grace_frame\<close>)

lemma past_step:
  assumes "wl_step e s = Some s'" "past s"
  shows "past s'"
  using assms by (cases rule: wl_stepE) (auto simp: past_def wait_frame grace_frame intro: le_trans)

lemma releasingI: "f i = RelStamp \<or> f i = RelNotify \<Longrightarrow> releasing f"
  by (auto simp: releasing_def)

lemma stamped_step:
  assumes "wl_step e s = Some s'" "counted s" "past s" "stamped s" "never_released s"
  shows "stamped s'"
  using assms(1)
proof (cases rule: wl_stepE)
  case (clear i)
  then show ?thesis using holder_pos [OF assms(2), of i] by (simp add: stamped_def)
next
  case (stamp i)
  then show ?thesis using assms(3,5) releasingI [of "tasks s" i]
    by (auto simp: stamped_def past_def never_released_def split: option.splits)
next
  case (drop i t)
  then show ?thesis using holder_pos [OF assms(2), of i] by (auto simp: stamped_def)
qed (use assms(4) in \<open>auto simp: stamped_def wait_frame grace_frame split: option.splits\<close>)

lemma never_released_step:
  assumes "wl_step e s = Some s'" "never_released s"
  shows "never_released s'"
  using assms(1)
proof (cases rule: wl_stepE)
  case (stamp i)
  then show ?thesis using assms(2) releasingI [of "tasks s" i] by (auto simp: never_released_def)
next
  case (notify_rel i)
  then show ?thesis using assms(2) releasingI [of "tasks s" i] by (auto simp: never_released_def)
qed (use assms(2) in \<open>auto simp: never_released_def wait_frame grace_frame\<close>)

lemma no_lost_acquire_step:
  assumes "wl_step e s = Some s'" "no_lost_acquire s"
  shows "no_lost_acquire s'"
  using assms(1)
proof (cases rule: wl_stepE)
  case (wait p w)
  then show ?thesis using wait_frame [OF wait(2)] by (auto simp: no_lost_acquire_def)
qed (use assms(2) in \<open>auto simp: no_lost_acquire_def grace_frame\<close>)

lemma no_lost_release_step:
  assumes "wl_step e s = Some s'" "no_lost_release s" "counted s"
  shows "no_lost_release s'"
  using assms(1)
proof (cases rule: wl_stepE)
  case (grace dur p w)
  then show ?thesis using grace_frame [OF grace(2)] by (auto simp: no_lost_release_def)
next
  case (drop i t)
  then show ?thesis using holder_pos [OF assms(3), of i] assms(2) by (auto simp: no_lost_release_def)
next
  case (clear i)
  then show ?thesis using holder_pos [OF assms(3), of i] by (simp add: no_lost_release_def)
next
  case (notify_acq i)
  then show ?thesis using holder_pos [OF assms(3), of i] by (simp add: no_lost_release_def)
qed (use assms(2) in \<open>auto simp: no_lost_release_def wait_frame\<close>)

lemma wl_ok_init: "wl_ok wl_init"
  by (simp add: wl_ok_def counted_def past_def stamped_def never_released_def no_lost_acquire_def
      no_lost_release_def holders_def wl_init_def WakeLockCounter_new_def releasing_def)

lemma wl_ok_step: "wl_step e s = Some s' \<Longrightarrow> wl_ok s \<Longrightarrow> wl_ok s'"
  by (auto simp: wl_ok_def intro: counted_step past_step stamped_step never_released_step
      no_lost_acquire_step no_lost_release_step)

lemma wl_ok_steps: "wl_steps s s' \<Longrightarrow> wl_ok s \<Longrightarrow> wl_ok s'"
  by (induction rule: wl_steps.induct) (auto intro: wl_ok_step)

text \<open>Once the timestamp is at or after \<open>z\<close>, it stays so: it is cleared or set to a later time.\<close>

definition fresh_since :: "nat \<Rightarrow> wl_sys \<Rightarrow> bool" where
  "fresh_since z s \<longleftrightarrow> z \<le> clock s \<and> (\<forall>t. last_release_at (lock s) = Some t \<longrightarrow> z \<le> t)"

lemma fresh_since_steps: "wl_steps s s' \<Longrightarrow> fresh_since z s \<Longrightarrow> fresh_since z s'"
proof (induction rule: wl_steps.induct)
  case (wl_next s s' e s'')
  have "fresh_since z s'" using wl_next by simp
  with wl_next(2) show ?case
    by (cases rule: wl_stepE) (auto simp: fresh_since_def wait_frame grace_frame)
qed

section \<open>Properties\<close>

text \<open>
  C14. No wake-up is lost. In every interleaving the counter is the number of guards held or being
  taken. If the camera's run loop is parked although the lock is held and no \<open>acquire\<close> is under way, its permit is stored and its next two
  steps return it; if the grace period is parked although the lock is free and no \<open>drop\<close> is under
  way, its next step starts the countdown.
\<close>

theorem wake_lock_no_lost_wakeup:
  assumes "wl_steps wl_init s"
  shows "count (lock s) = card (holders s) \<and>
    (waiter s = WParked \<and> 0 < count (lock s) \<and> \<not> acquiring (tasks s) \<longrightarrow>
       (\<exists>s'. wl_exec [EWait, EWait] s = Some s' \<and> waiter s' = WDone)) \<and>
    (grace s = GParked \<and> count (lock s) = 0 \<and> \<not> releasing (tasks s) \<longrightarrow>
       (\<exists>s'. wl_step (EGrace dur) s = Some s' \<and> grace s' = GSleep (clock s + dur)))"
proof -
  have "wl_ok s" using assms wl_ok_init by (rule wl_ok_steps)
  then show ?thesis
    by (auto simp: wl_ok_def counted_def no_lost_acquire_def no_lost_release_def is_idle_def)
qed

theorem wake_lock_no_lost_wakeup_witness:
  "\<exists>s. wl_exec [EWait, EAcquire 7, ETask 7, ETask 7] wl_init = Some s \<and>
     waiter s = WParked \<and> count (lock s) = card (holders s) \<and>
     (\<exists>s'. wl_exec [EWait, EWait] s = Some s' \<and> waiter s' = WDone)"
proof -
  let ?s = "wl_init\<lparr>lock := \<lparr>count = 1, notify_release = False, notify_acquire = True,
      last_release_at = None\<rparr>, tasks := (\<lambda>_. Absent)(7 := Holding), waiter := WParked\<rparr>"
  have run: "wl_exec [EWait, EAcquire 7, ETask 7, ETask 7] wl_init = Some ?s"
    by (simp add: wl_init_def WakeLockCounter_new_def acquire_begin_def is_idle_def)
  have "\<not> acquiring (tasks ?s)" by (simp add: acquiring_def)
  then show ?thesis
    using run wake_lock_no_lost_wakeup [OF wl_exec_steps [OF run], of 0] by auto
qed


text \<open>One guard taken and dropped in full, then silence.\<close>

definition wl_released :: wl_sys where
  "wl_released = \<lparr>lock = \<lparr>count = 0, notify_release = True, notify_acquire = True,
     last_release_at = Some 0\<rparr>, tasks = (\<lambda>_. Absent), waiter = WTop, grace = GTop, clock = 60,
     zero_at = Some 0\<rparr>"


text \<open>
  Without that proviso the watchdog can disconnect at once. For every grace period there is an
  interleaving after which an atomic look at the lock requests a disconnect although the latest
  release has happened at this very instant: a \<open>drop\<close> overtaken by an \<open>acquire\<close> leaves its old
  timestamp behind, and the next \<open>drop\<close> shows it between its decrement and its own stamp.
\<close>

theorem watchdog_stale_stamp:
  "\<exists>s. wl_steps wl_init s \<and> zero_at s = Some (clock s) \<and>
     should_disconnect True True
       (map_option (\<lambda>t. clock s - t) (idle_since (lock s) (lock s))) grace_ns"
proof -
  let ?es = "[EAcquire 1, ETask 1, ETask 1, EDrop 1, EAcquire 2, ETask 2, ETask 2, ETask 1,
    ETime grace_ns, EDrop 2]"
  let ?s = "\<lparr>lock = \<lparr>count = 0, notify_release = False, notify_acquire = True,
      last_release_at = Some 0\<rparr>, tasks = (\<lambda>_. Absent)(1 := RelNotify, 2 := RelStamp),
      waiter = WTop, grace = GTop, clock = grace_ns, zero_at = Some grace_ns\<rparr>"
  have "wl_exec ?es wl_init = Some ?s"
    by (simp add: wl_init_def WakeLockCounter_new_def acquire_begin_def drop_begin_def fun_upd_twist
        fun_eq_iff)
  then have "wl_steps wl_init ?s" by (rule wl_exec_steps)
  moreover have "should_disconnect True True
      (map_option (\<lambda>t. clock ?s - t) (idle_since (lock ?s) (lock ?s))) grace_ns"
    by (simp add: should_disconnect_def idle_since_def is_idle_def)
  ultimately show ?thesis by (metis wl_sys.select_convs(5,6))
qed

end
