(* ===== verification/Net.thy ===== *)
theory Net
  imports Prelude
begin

text \<open>
  Addresses of \<open>std::net\<close>, as the wake server and the RTSP server use them.
\<close>

datatype IpAddr = V4 u32 | V6 "128 word"

record SocketAddr =
  sock_ip :: IpAddr
  sock_port :: u16

definition is_unspecified :: "IpAddr \<Rightarrow> bool" where
  "is_unspecified ip = (case ip of V4 a \<Rightarrow> a = 0 | V6 a \<Rightarrow> a = 0)"

end
