(* ===== verification/Wake_Registry.thy ===== *)
theory Wake_Registry
  imports Net "HOL-Library.Sublist" "HOL-Library.Multiset"
begin

text \<open>
  The wake server's two in-memory tables (\<open>src/wake_server/registry.rs\<close>): session anchors issued to
  cameras and the registry of cameras that sent a heartbeat. A \<open>HashMap\<close> is an association list
  with distinct keys whose order is its iteration order; since that order is unspecified, the
  step relation of the server may permute it at any time. \<open>Instant\<close> and \<open>Duration\<close> are in
  nanoseconds, \<open>saturating_duration_since\<close> is subtraction of naturals.
\<close>

section \<open>Hash maps\<close>

type_synonym ('k, 'v) hmap = "('k \<times> 'v) list"

fun hm_insert :: "'k \<Rightarrow> 'v \<Rightarrow> ('k, 'v) hmap \<Rightarrow> ('k, 'v) hmap" where
  "hm_insert k v [] = [(k, v)]"
| "hm_insert k v ((k', v') # m) = (if k = k' then (k, v) # m else (k', v') # hm_insert k v m)"

definition hm_contains :: "('k, 'v) hmap \<Rightarrow> 'k \<Rightarrow> bool" where
  "hm_contains m k \<longleftrightarrow> map_of m k \<noteq> None"

definition hm_ok :: "('k, 'v) hmap \<Rightarrow> bool" where
  "hm_ok m \<longleftrightarrow> distinct (map fst m)"

lemma map_of_hm_insert: "map_of (hm_insert k v m) = (map_of m)(k \<mapsto> v)"
  by (induction k v m rule: hm_insert.induct) (auto simp: fun_eq_iff)

definition hm_keys :: "('k, 'v) hmap \<Rightarrow> 'k set" where
  "hm_keys m = set (map fst m)"

lemma keys_hm_insert [simp]: "hm_keys (hm_insert k v m) = insert k (hm_keys m)"
  by (induction k v m rule: hm_insert.induct) (auto simp: hm_keys_def)

lemma keys_filter: "hm_keys (filter P m) \<subseteq> hm_keys m"
  by (auto simp: hm_keys_def)

lemma hm_ok_insert [simp]: "hm_ok m \<Longrightarrow> hm_ok (hm_insert k v m)"
  unfolding hm_ok_def
proof (induction k v m rule: hm_insert.induct)
  case (2 k v k' v' m)
  then show ?case using keys_hm_insert [of k v m] by (auto simp: hm_keys_def)
qed simp

lemma length_hm_insert:
  "length (hm_insert k v m) = (if hm_contains m k then length m else Suc (length m))"
  by (induction k v m rule: hm_insert.induct) (auto simp: hm_contains_def)

lemma hm_ok_filter [simp]: "hm_ok m \<Longrightarrow> hm_ok (filter P m)"
  by (auto simp: hm_ok_def distinct_map_filter)

lemma map_of_filter:
  "hm_ok m \<Longrightarrow> map_of (filter (\<lambda>(k, v). P v) m) k =
     (case map_of m k of None \<Rightarrow> None | Some v \<Rightarrow> if P v then Some v else None)"
proof (induction m)
  case (Cons a m)
  obtain k' v' where a: "a = (k', v')" by force
  have "hm_ok m" and nk: "k' \<notin> fst ` set m" using Cons.prems by (auto simp: hm_ok_def a)
  then have "map_of m k' = None" by (simp add: map_of_eq_None_iff)
  then show ?case using Cons.IH \<open>hm_ok m\<close> by (auto simp: a)
qed simp

section \<open>Session anchors\<close>

definition MAX_MAP_ENTRIES :: usize where "MAX_MAP_ENTRIES = 1024"

record SessionAnchor =
  sa_token :: u64
  sa_ac :: u32
  issued_at :: nat

type_synonym SessionAnchors = "(string, SessionAnchor) hmap"

text \<open>\<open>None\<close> is the returned \<open>false\<close>; otherwise the new map.\<close>

definition issue :: "string \<Rightarrow> u64 \<Rightarrow> u32 \<Rightarrow> nat \<Rightarrow> SessionAnchors \<Rightarrow> SessionAnchors option" where
  "issue uid token ac now m =
     (if MAX_MAP_ENTRIES \<le> length m \<and> \<not> hm_contains m uid then None
      else Some (hm_insert uid \<lparr>sa_token = token, sa_ac = ac, issued_at = now\<rparr> m))"

definition anchors_purge_stale :: "nat \<Rightarrow> nat \<Rightarrow> SessionAnchors \<Rightarrow> string list \<times> SessionAnchors" where
  "anchors_purge_stale now stale_after m =
     (let stale = map fst (filter (\<lambda>(_, a). stale_after < now - issued_at a) m)
      in (stale, filter (\<lambda>(uid, _). uid \<notin> set stale) m))"

definition anchors_lookup :: "string \<Rightarrow> nat \<Rightarrow> nat \<Rightarrow> SessionAnchors \<Rightarrow> SessionAnchor option" where
  "anchors_lookup uid now stale_after m =
     (case map_of m uid of
        None \<Rightarrow> None
      | Some a \<Rightarrow> if now - issued_at a \<le> stale_after then Some a else None)"

section \<open>Camera registry\<close>

record CameraEntry =
  ce_addr :: SocketAddr
  ce_token :: u64
  last_seen :: nat

type_synonym CameraRegistry = "(string, CameraEntry) hmap"

definition upsert ::
  "string \<Rightarrow> SocketAddr \<Rightarrow> u64 \<Rightarrow> nat \<Rightarrow> CameraRegistry \<Rightarrow> (bool \<times> CameraRegistry) option" where
  "upsert uid addr token now m =
     (if MAX_MAP_ENTRIES \<le> length m \<and> \<not> hm_contains m uid then None
      else Some (\<not> hm_contains m uid,
                 hm_insert uid \<lparr>ce_addr = addr, ce_token = token, last_seen = now\<rparr> m))"

definition registry_purge_stale :: "nat \<Rightarrow> nat \<Rightarrow> CameraRegistry \<Rightarrow> string list \<times> CameraRegistry" where
  "registry_purge_stale now stale_after m =
     (let stale = map fst (filter (\<lambda>(_, e). stale_after < now - last_seen e) m)
      in (stale, filter (\<lambda>(uid, _). uid \<notin> set stale) m))"

definition fresh :: "nat \<Rightarrow> nat \<Rightarrow> CameraEntry \<Rightarrow> bool" where
  "fresh now stale_after e \<longleftrightarrow> now - last_seen e \<le> stale_after"

definition lookup_fresh :: "string \<Rightarrow> nat \<Rightarrow> nat \<Rightarrow> CameraRegistry \<Rightarrow> CameraEntry option" where
  "lookup_fresh uid now stale_after m =
     (case map_of m uid of
        Some e \<Rightarrow> if fresh now stale_after e then Some e
                  else map_option snd (find (\<lambda>(stored, e). prefix uid stored \<and> fresh now stale_after e) m)
      | None \<Rightarrow> map_option snd (find (\<lambda>(stored, e). prefix uid stored \<and> fresh now stale_after e) m))"

definition lookup_by_ip :: "IpAddr \<Rightarrow> nat \<Rightarrow> nat \<Rightarrow> CameraRegistry \<Rightarrow> (string \<times> CameraEntry) option" where
  "lookup_by_ip ip now stale_after m =
     find (\<lambda>(_, e). sock_ip (ce_addr e) = ip \<and> now - last_seen e \<le> stale_after) m"

section \<open>The contract both tables keep\<close>

definition table_ok :: "(string, 'v) hmap \<Rightarrow> bool" where
  "table_ok m \<longleftrightarrow> hm_ok m \<and> length m \<le> MAX_MAP_ENTRIES \<and> (\<forall>k\<in>hm_keys m. length k \<le> 64)"

text \<open>
  A capped table of entries with a time of birth: inserting refuses only a new key at the cap,
  purging drops exactly the entries past their time to live.
\<close>

locale ttl_map =
  fixes put :: "string \<Rightarrow> 'v \<Rightarrow> (string, 'v) hmap \<Rightarrow> (string, 'v) hmap option"
    and purge :: "nat \<Rightarrow> nat \<Rightarrow> (string, 'v) hmap \<Rightarrow> (string, 'v) hmap"
    and born :: "'v \<Rightarrow> nat"
  assumes put_refused: "put k v m = None \<longleftrightarrow> MAX_MAP_ENTRIES \<le> length m \<and> map_of m k = None"
    and put_stored: "put k v m = Some m' \<Longrightarrow> hm_ok m \<Longrightarrow>
      hm_ok m' \<and> map_of m' = (map_of m)(k \<mapsto> v) \<and> hm_keys m' \<subseteq> insert k (hm_keys m) \<and>
      length m' = (if map_of m k = None then Suc (length m) else length m)"
    and purged: "hm_ok m \<Longrightarrow> hm_ok (purge now ttl m) \<and> length (purge now ttl m) \<le> length m \<and>
      hm_keys (purge now ttl m) \<subseteq> hm_keys m \<and>
      map_of (purge now ttl m) k = (case map_of m k of None \<Rightarrow> None
        | Some v \<Rightarrow> if now - born v \<le> ttl then Some v else None)"
begin

lemma table_ok_put: "put k v m = Some m' \<Longrightarrow> table_ok m \<Longrightarrow> length k \<le> 64 \<Longrightarrow> table_ok m'"
  using put_refused [of k v m] put_stored [of k v m m']
  by (auto simp: table_ok_def split: if_splits)

lemma table_ok_purge: "table_ok m \<Longrightarrow> table_ok (purge now ttl m)"
  using purged [of m now ttl undefined] by (auto simp: table_ok_def)

lemma put_get: "put k v m = Some m' \<Longrightarrow> hm_ok m \<Longrightarrow> map_of m' k = Some v"
  using put_stored by fastforce

text \<open>A live entry survives inserts under other keys and every purge within its time to live.\<close>

lemma survives_put:
  "put k' v' m = Some m' \<Longrightarrow> hm_ok m \<Longrightarrow> k' \<noteq> k \<Longrightarrow> map_of m k = Some v \<Longrightarrow> map_of m' k = Some v"
  using put_stored by fastforce

lemma survives_purge:
  "hm_ok m \<Longrightarrow> map_of m k = Some v \<Longrightarrow> now - born v \<le> ttl \<Longrightarrow> map_of (purge now ttl m) k = Some v"
  by (simp add: purged)

lemma purge_sub: "hm_ok m \<Longrightarrow> map_of (purge now ttl m) k = Some v \<Longrightarrow> map_of m k = Some v"
  by (auto simp: purged split: option.splits if_splits)

end

lemma stale_keys:
  assumes "hm_ok m" "(k, v) \<in> set m"
  shows "k \<in> set (map fst (filter (\<lambda>(_, v). Q v) m)) \<longleftrightarrow> Q v"
proof
  assume "k \<in> set (map fst (filter (\<lambda>(_, v). Q v) m))"
  then obtain v' where "(k, v') \<in> set m" "Q v'" by auto
  moreover have "v' = v"
    using eq_key_imp_eq_value [of m k v' v] assms \<open>(k, v') \<in> set m\<close> by (simp add: hm_ok_def)
  ultimately show "Q v" by simp
qed (use assms(2) in force)

lemma filter_stale:
  assumes "hm_ok m"
  shows "filter (\<lambda>(k, _). k \<notin> set (map fst (filter (\<lambda>(_, v). \<not> P v) m))) m = filter (\<lambda>(_, v). P v) m"
  by (rule filter_cong [OF refl])
    (clarify, simp only: stale_keys [OF assms, of _ _ "\<lambda>v. \<not> P v"] case_prod_conv, simp)

interpretation anchors: ttl_map "\<lambda>k v. issue k (sa_token v) (sa_ac v) (issued_at v)"
  "\<lambda>now ttl m. snd (anchors_purge_stale now ttl m)" issued_at
proof unfold_locales
  fix m :: SessionAnchors and now ttl k
  assume ok: "hm_ok m"
  have "snd (anchors_purge_stale now ttl m) = filter (\<lambda>(_, a). now - issued_at a \<le> ttl) m"
    using filter_stale [OF ok, of "\<lambda>a. now - issued_at a \<le> ttl"]
    by (simp add: anchors_purge_stale_def not_le)
  then show "hm_ok (snd (anchors_purge_stale now ttl m)) \<and>
      length (snd (anchors_purge_stale now ttl m)) \<le> length m \<and>
      hm_keys (snd (anchors_purge_stale now ttl m)) \<subseteq> hm_keys m \<and>
      map_of (snd (anchors_purge_stale now ttl m)) k = (case map_of m k of None \<Rightarrow> None
        | Some v \<Rightarrow> if now - issued_at v \<le> ttl then Some v else None)"
    using ok by (simp add: map_of_filter keys_filter)
qed (auto simp: issue_def hm_contains_def map_of_hm_insert length_hm_insert split: if_splits)

interpretation registry: ttl_map
  "\<lambda>k v m. map_option snd (upsert k (ce_addr v) (ce_token v) (last_seen v) m)"
  "\<lambda>now ttl m. snd (registry_purge_stale now ttl m)" last_seen
proof unfold_locales
  fix m :: CameraRegistry and now ttl k
  assume ok: "hm_ok m"
  have "snd (registry_purge_stale now ttl m) = filter (\<lambda>(_, e). now - last_seen e \<le> ttl) m"
    using filter_stale [OF ok, of "\<lambda>e. now - last_seen e \<le> ttl"]
    by (simp add: registry_purge_stale_def not_le)
  then show "hm_ok (snd (registry_purge_stale now ttl m)) \<and>
      length (snd (registry_purge_stale now ttl m)) \<le> length m \<and>
      hm_keys (snd (registry_purge_stale now ttl m)) \<subseteq> hm_keys m \<and>
      map_of (snd (registry_purge_stale now ttl m)) k = (case map_of m k of None \<Rightarrow> None
        | Some v \<Rightarrow> if now - last_seen v \<le> ttl then Some v else None)"
    using ok by (simp add: map_of_filter keys_filter)
qed (auto simp: upsert_def hm_contains_def map_of_hm_insert length_hm_insert split: if_splits)

section \<open>Lookups\<close>

text \<open>What \<open>find\<close> returns is in the table and meets the test; it returns nothing only if no entry does.\<close>

lemma find_in: "find P xs = Some x \<Longrightarrow> x \<in> set xs \<and> P x"
  by (auto simp: find_Some_iff)

lemma lookup_fresh_exact:
  "map_of m uid = Some e \<Longrightarrow> fresh now ttl e \<Longrightarrow> lookup_fresh uid now ttl m = Some e"
  by (simp add: lookup_fresh_def)

lemma lookup_fresh_sound:
  assumes "lookup_fresh uid now ttl m = Some e"
  shows "\<exists>stored. (stored, e) \<in> set m \<and> prefix uid stored \<and> fresh now ttl e"
  using assms
  by (auto simp: lookup_fresh_def split: option.splits if_splits dest!: find_in intro: map_of_SomeD)

lemma lookup_fresh_None:
  "lookup_fresh uid now ttl m = None \<longleftrightarrow>
     (\<forall>(stored, e)\<in>set m. \<not> (prefix uid stored \<and> fresh now ttl e))"
  by (auto simp: lookup_fresh_def find_None_iff split: option.splits dest: map_of_SomeD)

end
