(* ===== verification/Wake_Server.thy ===== *)
theory Wake_Server
  imports Bcudp Wake_Registry
begin

text \<open>
  The wake server (\<open>src/wake_server\<close>): packet helpers, the advertised address and its cache, the
  configuration check, and the two UDP listeners. The middleman answers directory queries and issues
  session anchors; the register loop takes registrations, heartbeats and wake requests. A handler
  is a function of the shared state, the datagram and what the environment supplies (the clock, the
  random numbers drawn, the kernel's routing answer); it returns the messages it sends. Sending is
  \<open>send_reply\<close>: a message whose encoding fails is dropped, as in the code.
\<close>

section \<open>Packets\<close>

datatype WakeServerError = Frame bc_error | UnexpectedPacketKind string

definition MAX_UID_LEN :: usize where "MAX_UID_LEN = 64"

definition payload_uid :: "UdpXml \<Rightarrow> string option" where
  "payload_uid payload = (case payload of
     C2mQ q \<Rightarrow> Some (c2mQ_uid q)
   | D2mQ q \<Rightarrow> Some (d2mQ_uid q)
   | C2rC c \<Rightarrow> Some (c2rC_uid c)
   | D2rHb hb \<Rightarrow> Some (d2rHb_uid hb)
   | D2rR r \<Rightarrow> Some (d2rR_uid r)
   | _ \<Rightarrow> None)"

definition validate_uid_bounds :: "UdpXml \<Rightarrow> WakeServerError + unit" where
  "validate_uid_bounds payload = (case payload_uid payload of
     None \<Rightarrow> Ok ()
   | Some u \<Rightarrow> if MAX_UID_LEN < length u then Err (UnexpectedPacketKind ''uid-too-long'') else Ok ())"

definition decode_discovery ::
  "'z udp_lib_scheme \<Rightarrow> bytes \<Rightarrow> WakeServerError + (u32 \<times> UdpXml)" where
  "decode_discovery U buf = (case fst (bcudp_deserialize U buf) of
     Inl e \<Rightarrow> Err (Frame e)
   | Inr (Discovery d) \<Rightarrow>
       (case validate_uid_bounds (disc_payload d) of
          Inl e \<Rightarrow> Err e
        | Inr _ \<Rightarrow> Ok (disc_tid d, disc_payload d))
   | Inr (Ack _) \<Rightarrow> Err (UnexpectedPacketKind ''Ack'')
   | Inr (Data _) \<Rightarrow> Err (UnexpectedPacketKind ''Data''))"

definition encode_discovery ::
  "'z udp_lib_scheme \<Rightarrow> u32 \<Rightarrow> UdpXml \<Rightarrow> WakeServerError + bytes" where
  "encode_discovery U tid payload =
     (case bcudp_serialize U (Discovery \<lparr>disc_tid = tid, disc_payload = payload\<rparr>) of
        Inl e \<Rightarrow> Err (Frame e) | Inr buf \<Rightarrow> Ok buf)"

section \<open>Configuration\<close>

record WakeServerConfig =
  enable :: bool
  w_middleman_port :: u16
  w_register_port :: u16
  w_heartbeat_ms :: u32
  w_stale_after_ms :: u64

definition WakeServerConfig_default :: WakeServerConfig where
  "WakeServerConfig_default = \<lparr>enable = False, w_middleman_port = 9999, w_register_port = 58200,
     w_heartbeat_ms = 20000, w_stale_after_ms = 80000\<rparr>"

record RuntimeConfig =
  bind :: IpAddr
  middleman_port :: u16
  register_port :: u16
  heartbeat_ms :: u32
  stale_after_ms :: u64

datatype config_error =
    MiddlemanPortZero | RegisterPortZero | PortsEqual u16 | HeartbeatTooShort u32
  | StaleBelowHeartbeat u64 u32

definition from_block :: "WakeServerConfig \<Rightarrow> IpAddr \<Rightarrow> config_error + RuntimeConfig" where
  "from_block block ip =
     (if w_middleman_port block = 0 then Err MiddlemanPortZero
      else if w_register_port block = 0 then Err RegisterPortZero
      else if w_middleman_port block = w_register_port block then Err (PortsEqual (w_middleman_port block))
      else if w_heartbeat_ms block < 1000 then Err (HeartbeatTooShort (w_heartbeat_ms block))
      else if w_stale_after_ms block < ucast (w_heartbeat_ms block)
      then Err (StaleBelowHeartbeat (w_stale_after_ms block) (w_heartbeat_ms block))
      else Ok \<lparr>bind = ip, middleman_port = w_middleman_port block,
               register_port = w_register_port block, heartbeat_ms = w_heartbeat_ms block,
               stale_after_ms = w_stale_after_ms block\<rparr>)"

text \<open>\<open>Duration::from_millis\<close>, in nanoseconds.\<close>

definition stale_ns :: "RuntimeConfig \<Rightarrow> nat" where
  "stale_ns cfg = unat (stale_after_ms cfg) * 1000000"

section \<open>The advertised address\<close>

definition CACHE_CAP :: usize where "CACHE_CAP = 256"

type_synonym route_cache = "(IpAddr \<times> IpAddr, IpAddr) hmap"

definition cache_lookup :: "IpAddr \<times> IpAddr \<Rightarrow> route_cache \<Rightarrow> IpAddr option" where
  "cache_lookup key cache = map_of cache key"

definition cache_insert :: "IpAddr \<times> IpAddr \<Rightarrow> IpAddr \<Rightarrow> route_cache \<Rightarrow> route_cache" where
  "cache_insert key v cache =
     (if CACHE_CAP \<le> length cache \<and> \<not> hm_contains cache key then cache else hm_insert key v cache)"

text \<open>\<open>probe\<close> is the kernel's answer to bind, connect and \<open>local_addr\<close>; \<open>None\<close> when one of them fails.\<close>

definition resolve_advertise_ip :: "(SocketAddr \<Rightarrow> IpAddr option) \<Rightarrow> SocketAddr \<Rightarrow> IpAddr" where
  "resolve_advertise_ip probe peer =
     (case probe peer of
        Some ip \<Rightarrow> ip
      | None \<Rightarrow> (case sock_ip peer of V4 _ \<Rightarrow> V4 0x7f000001 | V6 _ \<Rightarrow> V6 1))"

definition advertise_ip ::
  "(SocketAddr \<Rightarrow> IpAddr option) \<Rightarrow> IpAddr \<Rightarrow> SocketAddr \<Rightarrow> route_cache \<Rightarrow> IpAddr \<times> route_cache" where
  "advertise_ip probe ip peer cache =
     (if \<not> is_unspecified ip then (ip, cache)
      else case cache_lookup (ip, sock_ip peer) cache of
        Some cached \<Rightarrow> (cached, cache)
      | None \<Rightarrow> (let resolved = resolve_advertise_ip probe peer
                 in (resolved, cache_insert (ip, sock_ip peer) resolved cache)))"

section \<open>State, messages, environment\<close>

record wake_state =
  w_anchors :: SessionAnchors
  w_cameras :: CameraRegistry
  w_routes :: route_cache

definition wake_init :: wake_state where
  "wake_init = \<lparr>w_anchors = [], w_cameras = [], w_routes = []\<rparr>"

text \<open>
  The environment of the server: the codec's libraries, the text form of an address (it is only
  copied into messages), and the kernel's routing answer.
\<close>

record 'z wake_env =
  e_udp :: "'z udp_lib_scheme"
  show_ip :: "IpAddr \<Rightarrow> string"
  probe_ip :: "SocketAddr \<Rightarrow> IpAddr option"

datatype wake_msg = Send (to_addr: SocketAddr) (msg_tid: u32) (msg_xml: UdpXml)

definition send_reply :: "('z, 'y) wake_env_scheme \<Rightarrow> wake_msg \<Rightarrow> (SocketAddr \<times> bytes) option" where
  "send_reply E m = (case encode_discovery (e_udp E) (msg_tid m) (msg_xml m) of
     Inl _ \<Rightarrow> None | Inr b \<Rightarrow> Some (to_addr m, b))"

definition ip_port :: "string \<Rightarrow> u16 \<Rightarrow> IpPort" where
  "ip_port ip port = \<lparr>ipPort_ip = ip, ipPort_port = port\<rparr>"

section \<open>Middleman\<close>

definition middleman_handle ::
  "('z, 'y) wake_env_scheme \<Rightarrow> RuntimeConfig \<Rightarrow> nat \<Rightarrow> u64 \<Rightarrow> u32 \<Rightarrow> SocketAddr \<Rightarrow> bytes \<Rightarrow> wake_state \<Rightarrow>
   wake_msg list \<times> wake_state" where
  "middleman_handle E cfg now token ac src raw s =
     (case decode_discovery (e_udp E) raw of
        Inl _ \<Rightarrow> ([], s)
      | Inr (tid, payload) \<Rightarrow>
          (let (adv, routes) = advertise_ip (probe_ip E) (bind cfg) src (w_routes s);
               s = s\<lparr>w_routes := routes\<rparr>;
               reg = ip_port (show_ip E adv) (register_port cfg)
           in case payload of
                C2mQ q \<Rightarrow>
                  ([Send src tid (M2cQr \<lparr>m2cQr_reg = Some reg, m2cQr_relay = Some reg,
                      m2cQr_log = Some reg, m2cQr_t = Some reg\<rparr>)], s)
              | D2mQ q \<Rightarrow>
                  (case issue (d2mQ_uid q) token ac now (w_anchors s) of
                     None \<Rightarrow> ([], s)
                   | Some m \<Rightarrow>
                       ([Send src tid (M2dQr \<lparr>m2dQr_reg = reg, m2dQr_log = reg, m2dQr_timer = (),
                           m2dQr_retry = (), m2dQr_rsp = 0, m2dQr_token = token, m2dQr_ac = ac\<rparr>)],
                        s\<lparr>w_anchors := m\<rparr>))
              | _ \<Rightarrow> ([], s)))"

section \<open>Register\<close>

definition WAKE_BURST_COUNT :: usize where "WAKE_BURST_COUNT = 10"
definition ANCHOR_TTL :: nat where "ANCHOR_TTL = 60 * 60 * 1000000000"

definition handle_register ::
  "nat \<Rightarrow> SocketAddr \<Rightarrow> u32 \<Rightarrow> D2rR \<Rightarrow> wake_state \<Rightarrow> wake_msg list" where
  "handle_register now src tid r s =
     (case anchors_lookup (d2rR_uid r) now ANCHOR_TTL (w_anchors s) of
        None \<Rightarrow> []
      | Some a \<Rightarrow> if sa_token a = d2rR_token r
                  then [Send src tid (R2dRr \<lparr>r2dRr_rsp = - 4, r2dRr_ac = sa_ac a\<rparr>)] else [])"

definition handle_heartbeat ::
  "RuntimeConfig \<Rightarrow> nat \<Rightarrow> u64 \<Rightarrow> SocketAddr \<Rightarrow> u32 \<Rightarrow> D2rHb \<Rightarrow> wake_state \<Rightarrow> wake_msg list \<times> wake_state" where
  "handle_heartbeat cfg now now_secs src tid hb s =
     (case upsert (d2rHb_uid hb) src (d2rHb_token hb) now (w_cameras s) of
        None \<Rightarrow> ([], s)
      | Some (_, m) \<Rightarrow>
          (let s = s\<lparr>w_cameras := snd (registry_purge_stale now (stale_ns cfg) m),
                     w_anchors := snd (anchors_purge_stale now (stale_ns cfg) (w_anchors s))\<rparr>
           in (if d2rHb_needrsp hb = Some 1
               then [Send src tid (R2dHbr \<lparr>r2dHbr_rsp = 0, r2dHbr_time_t = now_secs,
                       r2dHbr_timer = \<lparr>hbTimer_hb = heartbeat_ms cfg\<rparr>\<rparr>)]
               else [], s)))"

text \<open>
  The wake burst: up to ten copies of \<open>R2D_C\<close> to the camera. The task stops when the encoding or a
  send fails, or when the server is cancelled during a pause (\<open>sent i\<close>, \<open>cancelled i\<close>).
\<close>

function burst_loop ::
  "('z, 'y) wake_env_scheme \<Rightarrow> (nat \<Rightarrow> bool) \<Rightarrow> (nat \<Rightarrow> bool) \<Rightarrow> wake_msg \<Rightarrow> nat \<Rightarrow> (SocketAddr \<times> bytes) list" where
  "burst_loop E sent cancelled m i =
     (if i < WAKE_BURST_COUNT then
        (case send_reply E m of
           None \<Rightarrow> []
         | Some out \<Rightarrow>
             if \<not> sent i then []
             else if i + 1 < WAKE_BURST_COUNT \<and> cancelled i then [out]
             else out # burst_loop E sent cancelled m (i + 1))
      else [])"
  by pat_completeness auto
termination
  by (relation "measure (\<lambda>(E, sent, cancelled, m, i). WAKE_BURST_COUNT - i)") auto

declare burst_loop.simps [simp del]

text \<open>The reply messages, the message of the wake burst if one is started, and the new state.\<close>

definition handle_connect ::
  "('z, 'y) wake_env_scheme \<Rightarrow> RuntimeConfig \<Rightarrow> nat \<Rightarrow> u32 \<Rightarrow> SocketAddr \<Rightarrow> u32 \<Rightarrow> C2rC \<Rightarrow> wake_state \<Rightarrow>
   wake_msg list \<times> wake_msg option \<times> wake_state" where
  "handle_connect E cfg now sid src tid c s =
     (case lookup_fresh (c2rC_uid c) now (stale_ns cfg) (w_cameras s) of
        None \<Rightarrow>
          ([Send src tid (R2cCr \<lparr>r2cCr_dev = None, r2cCr_dmap = None, r2cCr_relay = None,
              r2cCr_relayt = None, r2cCr_nat = ''NULL'', r2cCr_sid = None, r2cCr_rsp = - 1,
              r2cCr_ac = 0\<rparr>)], None, s)
      | Some entry \<Rightarrow>
          (let cam_addr = ce_addr entry;
               cli_src_ip = show_ip E (sock_ip src);
               cli = ip_port cli_src_ip (ipPort_port (c2rC_cli c));
               cmap = ip_port cli_src_ip (sock_port src);
               (relay_cam, routes) = advertise_ip (probe_ip E) (bind cfg) cam_addr (w_routes s);
               (relay_cli, routes) = advertise_ip (probe_ip E) (bind cfg) src routes;
               relay = ip_port (show_ip E relay_cam) (register_port cfg);
               dev = ip_port (show_ip E (sock_ip cam_addr)) (sock_port cam_addr)
           in ([Send src tid (R2cCr \<lparr>r2cCr_dev = Some dev, r2cCr_dmap = Some dev,
                  r2cCr_relay = Some (ip_port (show_ip E relay_cli) (register_port cfg)),
                  r2cCr_relayt = None, r2cCr_nat = ''NULL'', r2cCr_sid = Some sid, r2cCr_rsp = 0,
                  r2cCr_ac = 0\<rparr>),
                Send src tid (R2cT \<lparr>r2cT_dmap = Some dev, r2cT_dev = Some dev,
                  r2cT_cid = c2rC_cid c, r2cT_sid = sid\<rparr>)],
               Some (Send cam_addr tid (R2dC \<lparr>r2dC_cli = cli, r2dC_cmap = cmap, r2dC_relay = relay,
                  r2dC_sid = sid, r2dC_cid = c2rC_cid c\<rparr>)),
               s\<lparr>w_routes := routes\<rparr>)))"

definition register_handle ::
  "('z, 'y) wake_env_scheme \<Rightarrow> RuntimeConfig \<Rightarrow> nat \<Rightarrow> u64 \<Rightarrow> u32 \<Rightarrow> SocketAddr \<Rightarrow> bytes \<Rightarrow> wake_state \<Rightarrow>
   wake_msg list \<times> wake_msg option \<times> wake_state" where
  "register_handle E cfg now now_secs sid src raw s =
     (case decode_discovery (e_udp E) raw of
        Inl _ \<Rightarrow> ([], None, s)
      | Inr (tid, payload) \<Rightarrow>
          (case payload of
             D2rHb hb \<Rightarrow> (let (ms, s') = handle_heartbeat cfg now now_secs src tid hb s in (ms, None, s'))
           | C2rC c \<Rightarrow> handle_connect E cfg now sid src tid c s
           | D2rR r \<Rightarrow> (handle_register now src tid r s, None, s)
           | D2rDisc d \<Rightarrow>
               ([Send src tid (R2dDcr \<lparr>r2dDcr_sid = d2rDisc_sid d, r2dDcr_rsp = 0\<rparr>)], None, s)
           | _ \<Rightarrow> ([], None, s)))"

section \<open>Runs of the server\<close>

text \<open>
  A datagram at one of the two sockets, with the time, the random numbers drawn and the seconds of
  the system clock. A run lists its events newest first; between two events the hash maps may be
  traversed in any other order.
\<close>

datatype wake_event =
    EvMiddleman (ev_time: nat) u64 u32 SocketAddr bytes
  | EvRegister (ev_time: nat) u64 u32 SocketAddr bytes

fun wake_step ::
  "('z, 'y) wake_env_scheme \<Rightarrow> RuntimeConfig \<Rightarrow> wake_event \<Rightarrow> wake_state \<Rightarrow>
   wake_msg list \<times> wake_msg option \<times> wake_state" where
  "wake_step E cfg (EvMiddleman now token ac src raw) s =
     (let (ms, s') = middleman_handle E cfg now token ac src raw s in (ms, None, s'))"
| "wake_step E cfg (EvRegister now secs sid src raw) s = register_handle E cfg now secs sid src raw s"

definition rehashed :: "wake_state \<Rightarrow> wake_state \<Rightarrow> bool" where
  "rehashed s s' \<longleftrightarrow> mset (w_anchors s') = mset (w_anchors s) \<and>
     mset (w_cameras s') = mset (w_cameras s) \<and> mset (w_routes s') = mset (w_routes s)"

inductive wake_run ::
  "('z, 'y) wake_env_scheme \<Rightarrow> RuntimeConfig \<Rightarrow> wake_state \<Rightarrow> wake_event list \<Rightarrow> wake_state \<Rightarrow> bool"
  for E cfg s where
  run_nil: "wake_run E cfg s [] s"
| run_step: "wake_run E cfg s evs s1 \<Longrightarrow> wake_step E cfg ev s1 = (ms, b, s2) \<Longrightarrow>
    wake_run E cfg s (ev # evs) s2"
| run_rehash: "wake_run E cfg s evs s1 \<Longrightarrow> rehashed s1 s2 \<Longrightarrow> wake_run E cfg s evs s2"

text \<open>What an event asks for.\<close>

definition ev_query :: "('z, 'y) wake_env_scheme \<Rightarrow> wake_event \<Rightarrow> (string \<times> SessionAnchor) option" where
  "ev_query E ev = (case ev of
     EvMiddleman now token ac src raw \<Rightarrow>
       (case decode_discovery (e_udp E) raw of
          Inr (tid, D2mQ q) \<Rightarrow> Some (d2mQ_uid q, \<lparr>sa_token = token, sa_ac = ac, issued_at = now\<rparr>)
        | _ \<Rightarrow> None)
   | _ \<Rightarrow> None)"

definition ev_heartbeat :: "('z, 'y) wake_env_scheme \<Rightarrow> wake_event \<Rightarrow> (string \<times> CameraEntry) option" where
  "ev_heartbeat E ev = (case ev of
     EvRegister now secs sid src raw \<Rightarrow>
       (case decode_discovery (e_udp E) raw of
          Inr (tid, D2rHb hb) \<Rightarrow>
            Some (d2rHb_uid hb, \<lparr>ce_addr = src, ce_token = d2rHb_token hb, last_seen = now\<rparr>)
        | _ \<Rightarrow> None)
   | _ \<Rightarrow> None)"

definition queries :: "('z, 'y) wake_env_scheme \<Rightarrow> wake_event list \<Rightarrow> (string \<times> SessionAnchor) list" where
  "queries E evs = List.map_filter (ev_query E) evs"

lemma decoded_uid_bound:
  "decode_discovery U raw = Ok (tid, p) \<Longrightarrow> payload_uid p = Some u \<Longrightarrow> length u \<le> 64"
  by (auto simp: decode_discovery_def validate_uid_bounds_def MAX_UID_LEN_def
      split: sum.splits BcUdp.splits option.splits if_splits)

text \<open>One step: the anchors change by a query or a purge, the registry by a heartbeat.\<close>

lemma step_anchors:
  assumes "wake_step E cfg ev s = (ms, b, s')"
  shows "w_anchors s' =
    (case ev_query E ev of
       Some (uid, a) \<Rightarrow> (case issue uid (sa_token a) (sa_ac a) (issued_at a) (w_anchors s) of
                            None \<Rightarrow> w_anchors s | Some m \<Rightarrow> m)
     | None \<Rightarrow>
         (case ev_heartbeat E ev of
            Some (uid, e) \<Rightarrow>
              (case upsert uid (ce_addr e) (ce_token e) (last_seen e) (w_cameras s) of
                 None \<Rightarrow> w_anchors s
               | Some _ \<Rightarrow> snd (anchors_purge_stale (ev_time ev) (stale_ns cfg) (w_anchors s)))
          | None \<Rightarrow> w_anchors s))"
proof (cases ev)
  case (EvMiddleman now token ac src raw)
  then show ?thesis
    using assms
    by (auto simp: middleman_handle_def ev_query_def ev_heartbeat_def Let_def
        split: sum.splits UdpXml.splits prod.splits option.splits)
next
  case (EvRegister now secs sid src raw)
  then show ?thesis
    using assms
    by (auto simp: register_handle_def ev_query_def ev_heartbeat_def handle_heartbeat_def
        handle_connect_def Let_def
        split: sum.splits UdpXml.splits prod.splits option.splits if_splits)
qed

lemma step_cameras:
  assumes "wake_step E cfg ev s = (ms, b, s')"
  shows "w_cameras s' =
    (case ev_heartbeat E ev of
       Some (uid, e) \<Rightarrow>
         (case map_option snd (upsert uid (ce_addr e) (ce_token e) (last_seen e) (w_cameras s)) of
            None \<Rightarrow> w_cameras s
          | Some m \<Rightarrow> snd (registry_purge_stale (ev_time ev) (stale_ns cfg) m))
     | None \<Rightarrow> w_cameras s)"
proof (cases ev)
  case (EvMiddleman now token ac src raw)
  then show ?thesis
    using assms
    by (auto simp: middleman_handle_def ev_heartbeat_def Let_def
        split: sum.splits UdpXml.splits prod.splits option.splits)
next
  case (EvRegister now secs sid src raw)
  then show ?thesis
    using assms
    by (auto simp: register_handle_def ev_heartbeat_def handle_heartbeat_def
        handle_connect_def Let_def
        split: sum.splits UdpXml.splits prod.splits option.splits if_splits)
qed

section \<open>Invariant of the tables\<close>

definition routes_ok :: "route_cache \<Rightarrow> bool" where
  "routes_ok m \<longleftrightarrow> hm_ok m \<and> length m \<le> CACHE_CAP"

definition wake_ok :: "wake_state \<Rightarrow> bool" where
  "wake_ok s \<longleftrightarrow> table_ok (w_anchors s) \<and> table_ok (w_cameras s) \<and> routes_ok (w_routes s)"

lemma routes_ok_advertise: "routes_ok m \<Longrightarrow> routes_ok (snd (advertise_ip probe ip peer m))"
  by (auto simp: advertise_ip_def routes_ok_def cache_insert_def length_hm_insert Let_def
      split: option.splits)

lemma step_routes:
  assumes "wake_step E cfg ev s = (ms, b, s')" "routes_ok (w_routes s)"
  shows "routes_ok (w_routes s')"
proof -
  have adv: "advertise_ip pr ip peer m = (a, m') \<Longrightarrow> routes_ok m \<Longrightarrow> routes_ok m'" for pr ip peer m a m'
    using routes_ok_advertise [of m pr ip peer] by simp
  show ?thesis
  proof (cases ev)
    case (EvMiddleman now token ac src raw)
    then show ?thesis
      using assms by (auto simp: middleman_handle_def Let_def intro: adv
          split: sum.splits UdpXml.splits prod.splits option.splits)
  next
    case (EvRegister now secs sid src raw)
    then show ?thesis
      using assms by (auto simp: register_handle_def handle_heartbeat_def handle_connect_def Let_def
          intro: adv split: sum.splits UdpXml.splits prod.splits option.splits)
  qed
qed

lemma query_uid_bound: "ev_query E ev = Some (uid, a) \<Longrightarrow> length uid \<le> 64"
  by (auto simp: ev_query_def payload_uid_def dest!: decoded_uid_bound
      split: wake_event.splits sum.splits UdpXml.splits)

lemma heartbeat_uid_bound: "ev_heartbeat E ev = Some (uid, a) \<Longrightarrow> length uid \<le> 64"
  by (auto simp: ev_heartbeat_def payload_uid_def dest!: decoded_uid_bound
      split: wake_event.splits sum.splits UdpXml.splits)

lemma wake_ok_step:
  assumes "wake_step E cfg ev s = (ms, b, s')" "wake_ok s"
  shows "wake_ok s'"
proof -
  have "table_ok (w_anchors s')"
    using assms(2)
    by (auto simp: step_anchors [OF assms(1)] wake_ok_def anchors.table_ok_purge
        anchors.table_ok_put [OF _ _ query_uid_bound] split: option.splits)
  moreover have "table_ok (w_cameras s')"
    using assms(2) heartbeat_uid_bound
    by (fastforce simp: step_cameras [OF assms(1)] wake_ok_def intro: registry.table_ok_put
        registry.table_ok_purge split: option.splits)
  ultimately show ?thesis
    using assms step_routes by (auto simp: wake_ok_def)
qed

lemma mset_map_of:
  assumes "mset m' = mset m" "hm_ok m"
  shows "hm_ok m'" "map_of m' = map_of m" "length m' = length m" "hm_keys m' = hm_keys m" "set m' = set m"
proof -
  have "mset (map fst m') = mset (map fst m)" using assms(1) by simp
  then show ok: "hm_ok m'" using assms(2) unfolding hm_ok_def by (rule mset_eq_imp_distinct_iff [THEN iffD2])
  show set: "set m' = set m" using assms(1) by (rule mset_eq_setD)
  show "map_of m' = map_of m"
    using ok assms(2) set by (simp add: map_of_inject_set hm_ok_def)
  show "length m' = length m" using assms(1) by (rule mset_eq_length)
  show "hm_keys m' = hm_keys m" by (simp add: hm_keys_def set)
qed

lemma wake_ok_rehash:
  assumes "rehashed s s'" "wake_ok s"
  shows "wake_ok s'" "map_of (w_anchors s') = map_of (w_anchors s)"
    "map_of (w_cameras s') = map_of (w_cameras s)"
  using assms mset_map_of [of "w_anchors s'" "w_anchors s"] mset_map_of [of "w_cameras s'" "w_cameras s"]
    mset_map_of [of "w_routes s'" "w_routes s"]
  by (auto simp: rehashed_def wake_ok_def table_ok_def routes_ok_def)

lemma wake_ok_run: "wake_run E cfg s evs s' \<Longrightarrow> wake_ok s \<Longrightarrow> wake_ok s'"
  by (induction rule: wake_run.induct) (auto intro: wake_ok_step wake_ok_rehash)

lemma wake_ok_init: "wake_ok wake_init"
  by (simp add: wake_ok_def wake_init_def table_ok_def routes_ok_def hm_ok_def hm_keys_def)

text \<open>Every anchor in the table is the latest one issued to that camera.\<close>

lemma anchors_issued:
  assumes "wake_run E cfg wake_init evs s" "map_of (w_anchors s) uid = Some a"
  shows "map_of (queries E evs) uid = Some a"
  using assms
proof (induction arbitrary: a rule: wake_run.induct)
  case run_nil
  then show ?case by (simp add: wake_init_def)
next
  case (run_step evs s1 ev ms b s2)
  have ok: "hm_ok (w_anchors s1)"
    using wake_ok_run [OF run_step(1) wake_ok_init] by (simp add: wake_ok_def table_ok_def)
  have q: "queries E (ev # evs) = (case ev_query E ev of None \<Rightarrow> [] | Some x \<Rightarrow> [x]) @ queries E evs"
    by (simp add: queries_def map_filter_simps split: option.splits)
  show ?case
  proof (cases "ev_query E ev")
    case None
    then have "map_of (w_anchors s1) uid = Some a"
      using run_step.prems ok anchors.purge_sub [OF ok]
      by (auto simp: step_anchors [OF run_step(2)] split: option.splits prod.splits)
    then show ?thesis using run_step.IH by (simp add: q None)
  next
    case (Some ua)
    obtain u x where ua: "ua = (u, x)" by force
    show ?thesis
    proof (cases "issue u (sa_token x) (sa_ac x) (issued_at x) (w_anchors s1)")
      case None
      then have "map_of (w_anchors s1) u = None" by (simp add: anchors.put_refused)
      then show ?thesis
        using run_step.prems run_step.IH None
        by (auto simp: step_anchors [OF run_step(2)] q Some ua)
    next
      case (Some m)
      then show ?thesis
        using run_step.prems run_step.IH anchors.put_stored [OF Some ok] \<open>ev_query E ev = Some ua\<close>
        by (auto simp: step_anchors [OF run_step(2)] q ua split: if_splits)
    qed
  qed
next
  case (run_rehash evs s1 s2)
  then show ?case
    using wake_ok_rehash(2) [OF run_rehash(2) wake_ok_run [OF run_rehash(1) wake_ok_init]] by simp
qed

text \<open>A registered camera stays registered through any traffic within its time to live.\<close>

lemma camera_survives:
  assumes "wake_run E cfg s evs s'" "wake_ok s" "map_of (w_cameras s) uid = Some e"
    and "\<forall>ev\<in>set evs. ev_time ev \<le> last_seen e + stale_ns cfg \<and>
      (\<forall>x. ev_heartbeat E ev \<noteq> Some (uid, x))"
  shows "map_of (w_cameras s') uid = Some e"
  using assms(1,4)
proof (induction rule: wake_run.induct)
  case (run_step evs s1 ev ms b s2)
  have ok: "hm_ok (w_cameras s1)"
    using wake_ok_run [OF run_step(1) assms(2)] by (simp add: wake_ok_def table_ok_def)
  have IH: "map_of (w_cameras s1) uid = Some e" using run_step by simp
  have "map_of (snd (registry_purge_stale (ev_time ev) (stale_ns cfg) m)) uid = Some e"
    if up: "map_option snd (upsert u (ce_addr x) (ce_token x) (last_seen x) (w_cameras s1)) = Some m"
      and "ev_heartbeat E ev = Some (u, x)" for u x m
  proof -
    have "u \<noteq> uid" and t: "ev_time ev - last_seen e \<le> stale_ns cfg" using run_step.prems that(2) by auto
    then have "map_of m uid = Some e"
      using registry.survives_put [OF up ok] IH by blast
    then show ?thesis
      using registry.survives_purge [of m uid e] registry.put_stored [OF up ok] t by simp
  qed
  then show ?case
    using IH by (auto simp: step_cameras [OF run_step(2)] split: option.splits)
next
  case (run_rehash evs s1 s2)
  then show ?case
    using wake_ok_rehash(3) [OF run_rehash(2) wake_ok_run [OF run_rehash(1) assms(2)]] by simp
qed (rule assms(3))

section \<open>Properties\<close>

text \<open>
  C13. A registration is confirmed only to whoever knows the secret it was issued. Every \<open>R2D_R_R\<close> the
  server sends answers, to its sender, a \<open>D2R_R\<close> whose token is the one issued with the latest
  directory query for that camera, at most an hour ago, and carries the \<open>ac\<close> issued with it.
\<close>

theorem wake_handshake_sound:
  assumes "wake_run E cfg wake_init evs s"
    and "register_handle E cfg now secs sid src raw s = (ms, b, s')"
    and "Send dst tid (R2dRr r) \<in> set ms"
  shows "dst = src \<and> (\<exists>q a. decode_discovery (e_udp E) raw = Ok (tid, D2rR q) \<and>
    map_of (queries E evs) (d2rR_uid q) = Some a \<and> sa_token a = d2rR_token q \<and>
    r2dRr_ac r = sa_ac a \<and> now \<le> issued_at a + ANCHOR_TTL)"
proof -
  obtain q a where "dst = src" and dec: "decode_discovery (e_udp E) raw = Ok (tid, D2rR q)"
    and look: "anchors_lookup (d2rR_uid q) now ANCHOR_TTL (w_anchors s) = Some a"
    and "sa_token a = d2rR_token q" "r2dRr_ac r = sa_ac a"
    using assms(2,3)
    by (auto simp: register_handle_def handle_register_def handle_heartbeat_def handle_connect_def
        Let_def split: sum.splits UdpXml.splits prod.splits option.splits if_splits)
  moreover have "map_of (w_anchors s) (d2rR_uid q) = Some a" "now \<le> issued_at a + ANCHOR_TTL"
    using look by (auto simp: anchors_lookup_def split: option.splits if_splits)
  ultimately show ?thesis using anchors_issued [OF assms(1)] by blast
qed

text \<open>
  C32. A wake request cannot point a camera at a third party. Whatever address the client claims,
  the message of the wake burst goes to a registered, fresh camera whose UID starts with the
  requested one, and names the source of the request as the client; the replies go to that source.
\<close>

theorem wake_no_reflection:
  assumes "register_handle E cfg now secs sid src raw s = (ms, Some m, s')"
  shows "\<exists>c uid e w. decode_discovery (e_udp E) raw = Ok (msg_tid m, C2rC c) \<and>
    (uid, e) \<in> set (w_cameras s) \<and> prefix (c2rC_uid c) uid \<and> fresh now (stale_ns cfg) e \<and>
    to_addr m = ce_addr e \<and> msg_xml m = R2dC w \<and>
    ipPort_ip (r2dC_cli w) = show_ip E (sock_ip src) \<and> r2dC_cmap w = ip_port (show_ip E (sock_ip src)) (sock_port src) \<and>
    (\<forall>x\<in>set ms. to_addr x = src) \<and> w_cameras s' = w_cameras s"
proof -
  obtain tid c where dec: "decode_discovery (e_udp E) raw = Ok (tid, C2rC c)"
    and con: "handle_connect E cfg now sid src tid c s = (ms, Some m, s')"
    using assms by (auto simp: register_handle_def Let_def split: sum.splits UdpXml.splits prod.splits)
  obtain e where e: "lookup_fresh (c2rC_uid c) now (stale_ns cfg) (w_cameras s) = Some e"
    using con by (auto simp: handle_connect_def split: option.splits)
  obtain uid where "(uid, e) \<in> set (w_cameras s)" "prefix (c2rC_uid c) uid" "fresh now (stale_ns cfg) e"
    using lookup_fresh_sound [OF e] by blast
  moreover have "to_addr m = ce_addr e" "msg_tid m = tid" "\<exists>w. msg_xml m = R2dC w \<and>
      ipPort_ip (r2dC_cli w) = show_ip E (sock_ip src) \<and> r2dC_cmap w = ip_port (show_ip E (sock_ip src)) (sock_port src)"
    "\<forall>x\<in>set ms. to_addr x = src" "w_cameras s' = w_cameras s"
    using con e by (auto simp: handle_connect_def Let_def ip_port_def split: prod.splits)
  ultimately show ?thesis using dec by blast
qed

text \<open>
  C33. Memory is bounded whatever is sent to the two ports: in every reachable state each table has
  at most 1024 entries under UIDs of at most 64 bytes, and the route cache at most 256.
\<close>

theorem wake_memory_bounded:
  assumes "wake_run E cfg wake_init evs s"
  shows "length (w_anchors s) \<le> 1024 \<and> length (w_cameras s) \<le> 1024 \<and> length (w_routes s) \<le> 256 \<and>
    (\<forall>uid \<in> hm_keys (w_anchors s) \<union> hm_keys (w_cameras s). length uid \<le> 64) \<and>
    distinct (map fst (w_anchors s)) \<and> distinct (map fst (w_cameras s))"
  using wake_ok_run [OF assms wake_ok_init]
  by (auto simp: wake_ok_def table_ok_def routes_ok_def MAX_MAP_ENTRIES_def CACHE_CAP_def hm_ok_def)

text \<open>
  A camera that keeps its heartbeat can be woken. After an accepted heartbeat, whatever other
  traffic the server sees within the heartbeat interval, a wake request for that UID within the
  interval is granted: the burst goes to the address the heartbeat came from and the client gets a
  success reply. The configuration check makes the interval no longer than the time to live.
\<close>

theorem wake_after_heartbeat:
  assumes "wake_run E cfg wake_init evs0 s0" and "from_block block ip = Ok cfg"
    and "ev_heartbeat E ev = Some (uid, e)"
    and "length (w_cameras s0) < 1024 \<or> hm_contains (w_cameras s0) uid"
    and "wake_step E cfg ev s0 = (ms0, b0, s1)" and "wake_run E cfg s1 evs s"
    and "\<forall>ev'\<in>set evs. ev_time ev' \<le> last_seen e + unat (heartbeat_ms cfg) * 1000000 \<and>
      (\<forall>x. ev_heartbeat E ev' \<noteq> Some (uid, x))"
    and "now \<le> last_seen e + unat (heartbeat_ms cfg) * 1000000"
    and "decode_discovery (e_udp E) raw = Ok (tid, C2rC c)" and "c2rC_uid c = uid"
  shows "\<exists>ms m s' r. register_handle E cfg now secs sid src raw s = (ms, Some m, s') \<and>
    to_addr m = ce_addr e \<and> Send src tid (R2cCr r) \<in> set ms \<and> r2cCr_rsp r = 0"
proof -
  have le: "unat (heartbeat_ms cfg) * 1000000 \<le> stale_ns cfg"
    using assms(2)
    by (auto simp: from_block_def stale_ns_def not_less word_le_nat_alt
        split: if_splits)
  have ok0: "wake_ok s0" by (rule wake_ok_run [OF assms(1) wake_ok_init])
  then have hm0: "hm_ok (w_cameras s0)" by (simp add: wake_ok_def table_ok_def)
  obtain m where up: "map_option snd (upsert uid (ce_addr e) (ce_token e) (last_seen e) (w_cameras s0)) = Some m"
    using assms(4) registry.put_refused [of uid e "w_cameras s0"]
    by (auto simp: hm_contains_def MAX_MAP_ENTRIES_def simp del: map_option_eq_Some option.map_disc_iff)
  have t: "ev_time ev = last_seen e"
    using assms(3) by (auto simp: ev_heartbeat_def split: wake_event.splits sum.splits UdpXml.splits)
  have "w_cameras s1 = snd (registry_purge_stale (ev_time ev) (stale_ns cfg) m)"
    unfolding step_cameras [OF assms(5)] assms(3) by (simp only: up option.case prod.case)
  then have "map_of (w_cameras s1) uid = Some e"
    using registry.survives_purge [of m uid e "ev_time ev" "stale_ns cfg"] registry.put_stored [OF up hm0]
    by (simp add: t)
  then have "map_of (w_cameras s) uid = Some e"
    using camera_survives [OF assms(6) wake_ok_step [OF assms(5) ok0]] assms(7) le by fastforce
  then have look: "lookup_fresh (c2rC_uid c) now (stale_ns cfg) (w_cameras s) = Some e"
    using assms(8,10) le by (intro lookup_fresh_exact) (auto simp: fresh_def)
  show ?thesis
    by (auto simp: register_handle_def assms(9) handle_connect_def look Let_def split: prod.splits)
qed

text \<open>
  A full registry locks every new camera out for good. Once 1024 UIDs are registered, no traffic
  without a heartbeat from one of them changes the registry, however much later it comes: the
  stale entries are only purged after a heartbeat has been accepted, and new ones are refused.
\<close>

theorem wake_capacity_lockout:
  assumes "wake_run E cfg s evs s'" and "length (w_cameras s) = 1024" and "wake_ok s"
    and "\<forall>ev\<in>set evs. \<forall>uid e. ev_heartbeat E ev = Some (uid, e) \<longrightarrow> \<not> hm_contains (w_cameras s) uid"
  shows "mset (w_cameras s') = mset (w_cameras s)"
  using assms(1,4)
proof (induction rule: wake_run.induct)
  case (run_step evs s1 ev ms b s2)
  then have IH: "mset (w_cameras s1) = mset (w_cameras s)" by simp
  have hm: "hm_ok (w_cameras s)" using assms(3) by (simp add: wake_ok_def table_ok_def)
  note same = mset_map_of [OF IH hm]
  show ?case
  proof (cases "ev_heartbeat E ev")
    case (Some ue)
    then have "upsert (fst ue) (ce_addr (snd ue)) (ce_token (snd ue)) (last_seen (snd ue)) (w_cameras s1) = None"
      using run_step.prems same(2,3) assms(2) by (cases ue) (auto simp: upsert_def hm_contains_def MAX_MAP_ENTRIES_def)
    then show ?thesis using IH by (cases ue) (simp add: step_cameras [OF run_step(2)] Some)
  qed (simp add: IH step_cameras [OF run_step(2)])
qed (simp_all add: rehashed_def)

section \<open>Concrete runs\<close>

lemma decode_encode:
  assumes "udp_codec_lib U" "xml_se U p = Some b" "length b \<le> 65535"
    and "\<forall>u. payload_uid p = Some u \<longrightarrow> length u \<le> 64"
  shows "\<exists>bs. encode_discovery U tid p = Ok bs \<and> decode_discovery U bs = Ok (tid, p)"
proof -
  let ?d = "Discovery \<lparr>disc_tid = tid, disc_payload = p\<rparr>"
  have "wf_bcudp U ?d" using assms(2,3) by (simp add: wf_bcudp_def)
  then obtain bs where "bcudp_serialize U ?d = Ok bs" "bcudp_deserialize U (bs @ []) = (Ok ?d, [])"
    using udp_codec_lib.bcudp_deserialize_serialize [OF assms(1)] by blast
  moreover have "validate_uid_bounds p = Ok ()"
    using assms(4) by (auto simp: validate_uid_bounds_def MAX_UID_LEN_def not_less split: option.splits)
  ultimately show ?thesis by (simp add: encode_discovery_def decode_discovery_def)
qed

text \<open>
  An XML library for the four requests, in the shape the cameras and clients of the examples send
  them: a tag, a number and the UID.
\<close>

definition wk_hb :: "string \<Rightarrow> UdpXml" where
  "wk_hb u = D2rHb \<lparr>d2rHb_uid = u, d2rHb_dev = None, d2rHb_needrsp = None, d2rHb_token = 7\<rparr>"

definition wk_query :: "string \<Rightarrow> UdpXml" where
  "wk_query u = D2mQ \<lparr>d2mQ_uid = u, d2mQ_revision = None\<rparr>"

definition wk_reg :: "u32 \<Rightarrow> string \<Rightarrow> UdpXml" where
  "wk_reg t u = D2rR \<lparr>d2rR_uid = u, d2rR_token = ucast t, d2rR_revision = None\<rparr>"

definition wk_c2rc :: "string \<Rightarrow> C2rC" where
  "wk_c2rc u = \<lparr>c2rC_uid = u, c2rC_cli = ip_port ''9.9.9.9'' 6000, c2rC_relay = ip_port '''' 0,
     c2rC_cid = 5, c2rC_debug = False, c2rC_family = 4, c2rC_os = ''MAC'', c2rC_revision = None\<rparr>"

definition wk_bytes :: "byte \<Rightarrow> u32 \<Rightarrow> string \<Rightarrow> bytes" where
  "wk_bytes tag n u = tag # to_le32 n @ string_bytes u"

definition wk_se :: "UdpXml \<Rightarrow> bytes option" where
  "wk_se x = (case x of
     D2rHb h \<Rightarrow> if x = wk_hb (d2rHb_uid h) then Some (wk_bytes 1 0 (d2rHb_uid h)) else None
   | D2mQ q \<Rightarrow> if x = wk_query (d2mQ_uid q) then Some (wk_bytes 2 0 (d2mQ_uid q)) else None
   | D2rR r \<Rightarrow> if x = wk_reg (ucast (d2rR_token r)) (d2rR_uid r)
               then Some (wk_bytes 3 (ucast (d2rR_token r)) (d2rR_uid r)) else None
   | C2rC c \<Rightarrow> if c = wk_c2rc (c2rC_uid c) then Some (wk_bytes 4 0 (c2rC_uid c)) else None
   | _ \<Rightarrow> None)"

definition wk_de :: "bytes \<Rightarrow> UdpXml option" where
  "wk_de b = (if b = [] then None else
     let t = hd b; n = from_le (take 4 (tl b)); u = bytes_string (drop 4 (tl b))
     in if t = 1 then Some (wk_hb u) else if t = 2 then Some (wk_query u)
        else if t = 3 then Some (wk_reg n u) else if t = 4 then Some (C2rC (wk_c2rc u)) else None)"

definition wk_udp :: udp_lib where
  "wk_udp = std_udp\<lparr>xml_de := wk_de, xml_se := wk_se\<rparr>"

lemma wk_de_bytes [simp]:
  "wk_de (wk_bytes 1 n u) = Some (wk_hb u)" "wk_de (wk_bytes 2 n u) = Some (wk_query u)"
  "wk_de (wk_bytes 3 n u) = Some (wk_reg n u)" "wk_de (wk_bytes 4 n u) = Some (C2rC (wk_c2rc u))"
  by (simp_all add: wk_de_def wk_bytes_def)

interpretation wk_udp: udp_codec_lib wk_udp
proof unfold_locales
  show "xml_de wk_udp b = Some x" if "xml_se wk_udp x = Some b" for x b
    using that by (auto simp: wk_udp_def wk_se_def split: UdpXml.splits if_splits)
qed (simp_all add: wk_udp_def std.read_u8 std.read_u16 std.read_u32 std.read_take std.writers)

definition wk_env :: "unit wake_env" where
  "wk_env = \<lparr>e_udp = wk_udp, show_ip = (\<lambda>ip. case ip of V4 a \<Rightarrow> bytes_string (to_be32 a) | V6 _ \<Rightarrow> ''v6''),
     probe_ip = (\<lambda>_. None)\<rparr>"

definition wk_raw :: "UdpXml \<Rightarrow> bytes" where
  "wk_raw x = (case encode_discovery wk_udp 1 x of Inr b \<Rightarrow> b | Inl _ \<Rightarrow> [])"

lemma wk_raw_decodes:
  assumes "wk_se x = Some b" "length b \<le> 65" "\<forall>u. payload_uid x = Some u \<longrightarrow> length u \<le> 64"
  shows "decode_discovery (e_udp wk_env) (wk_raw x) = Ok (1, x)"
  using decode_encode [OF wk_udp.udp_codec_lib_axioms, of x b 1] assms
  by (auto simp: wk_raw_def wk_env_def wk_udp_def)

lemma wk_decodes [simp]:
  assumes "length u \<le> 60"
  shows "decode_discovery (e_udp wk_env) (wk_raw (wk_hb u)) = Ok (1, wk_hb u)"
    "decode_discovery (e_udp wk_env) (wk_raw (wk_query u)) = Ok (1, wk_query u)"
    "decode_discovery (e_udp wk_env) (wk_raw (wk_reg n u)) = Ok (1, wk_reg n u)"
    "decode_discovery (e_udp wk_env) (wk_raw (C2rC (wk_c2rc u))) = Ok (1, C2rC (wk_c2rc u))"
proof -
  have n: "ucast (ucast n :: u64) = n" by (rule bit_word_eqI) (simp add: bit_simps)
  show "decode_discovery (e_udp wk_env) (wk_raw (wk_hb u)) = Ok (1, wk_hb u)"
    using assms by (intro wk_raw_decodes [of _ "wk_bytes 1 0 u"])
      (simp_all add: wk_se_def wk_hb_def wk_bytes_def payload_uid_def)
  show "decode_discovery (e_udp wk_env) (wk_raw (wk_query u)) = Ok (1, wk_query u)"
    using assms by (intro wk_raw_decodes [of _ "wk_bytes 2 0 u"])
      (simp_all add: wk_se_def wk_query_def wk_bytes_def payload_uid_def)
  show "decode_discovery (e_udp wk_env) (wk_raw (wk_reg n u)) = Ok (1, wk_reg n u)"
    using assms by (intro wk_raw_decodes [of _ "wk_bytes 3 n u"])
      (simp_all add: wk_se_def wk_reg_def wk_bytes_def payload_uid_def n)
  show "decode_discovery (e_udp wk_env) (wk_raw (C2rC (wk_c2rc u))) = Ok (1, C2rC (wk_c2rc u))"
    using assms by (intro wk_raw_decodes [of _ "wk_bytes 4 0 u"])
      (simp_all add: wk_se_def wk_c2rc_def wk_bytes_def payload_uid_def)
qed

definition wk_cfg :: RuntimeConfig where
  "wk_cfg = \<lparr>bind = V4 0x0a000001, middleman_port = 9999, register_port = 58200, heartbeat_ms = 20000,
     stale_after_ms = 80000\<rparr>"

lemma wk_cfg_valid: "from_block WakeServerConfig_default (V4 0x0a000001) = Ok wk_cfg"
  by (simp add: from_block_def WakeServerConfig_default_def wk_cfg_def)

definition wk_cam :: SocketAddr where "wk_cam = \<lparr>sock_ip = V4 0x0a000005, sock_port = 5000\<rparr>"
definition wk_client :: SocketAddr where "wk_client = \<lparr>sock_ip = V4 0x0a000009, sock_port = 7000\<rparr>"

definition wk_issued :: wake_state where
  "wk_issued = \<lparr>w_anchors = [(''CAM'', \<lparr>sa_token = 77, sa_ac = 33, issued_at = 5\<rparr>)], w_cameras = [],
     w_routes = []\<rparr>"

lemma wk_issue_step:
  "wake_step wk_env wk_cfg (EvMiddleman 5 77 33 wk_cam (wk_raw (wk_query ''CAM''))) wake_init =
     ([Send wk_cam 1 (M2dQr \<lparr>m2dQr_reg = ip_port (show_ip wk_env (V4 0x0a000001)) 58200,
         m2dQr_log = ip_port (show_ip wk_env (V4 0x0a000001)) 58200, m2dQr_timer = (),
         m2dQr_retry = (), m2dQr_rsp = 0, m2dQr_token = 77, m2dQr_ac = 33\<rparr>)], None, wk_issued)"
  by (simp add: middleman_handle_def advertise_ip_def is_unspecified_def wk_cfg_def wk_query_def
      issue_def wake_init_def wk_issued_def MAX_MAP_ENTRIES_def flip: wk_query_def)
    (simp add: wk_query_def wk_issued_def issue_def MAX_MAP_ENTRIES_def Let_def)

theorem wake_handshake_sound_witness:
  "\<exists>q a. decode_discovery (e_udp wk_env) (wk_raw (wk_reg 77 ''CAM'')) = Ok (1, D2rR q) \<and>
    map_of (queries wk_env [EvMiddleman 5 77 33 wk_cam (wk_raw (wk_query ''CAM''))]) (d2rR_uid q) = Some a \<and>
    sa_token a = d2rR_token q \<and> 33 = sa_ac a \<and> 10 \<le> issued_at a + ANCHOR_TTL"
proof -
  have run: "wake_run wk_env wk_cfg wake_init [EvMiddleman 5 77 33 wk_cam (wk_raw (wk_query ''CAM''))] wk_issued"
    by (rule run_step [OF run_nil wk_issue_step])
  have "(ucast (77 :: u32) :: u64) = 77" by simp
  then have "register_handle wk_env wk_cfg 10 0 0 wk_cam (wk_raw (wk_reg 77 ''CAM'')) wk_issued =
      ([Send wk_cam 1 (R2dRr \<lparr>r2dRr_rsp = - 4, r2dRr_ac = 33\<rparr>)], None, wk_issued)"
    by (simp add: register_handle_def) (simp add: wk_reg_def handle_register_def anchors_lookup_def
        wk_issued_def ANCHOR_TTL_def)
  from wake_handshake_sound [OF run this, of wk_cam 1 "\<lparr>r2dRr_rsp = - 4, r2dRr_ac = 33\<rparr>"] show ?thesis
    by simp
qed

definition wk_entry :: CameraEntry where
  "wk_entry = \<lparr>ce_addr = wk_cam, ce_token = 7, last_seen = 100\<rparr>"

definition wk_registered :: wake_state where
  "wk_registered = \<lparr>w_anchors = [], w_cameras = [(''CAM'', wk_entry)], w_routes = []\<rparr>"

lemma wk_heartbeat [simp]:
  "length u \<le> 60 \<Longrightarrow> ev_heartbeat wk_env (EvRegister t secs sid src (wk_raw (wk_hb u))) =
     Some (u, \<lparr>ce_addr = src, ce_token = 7, last_seen = t\<rparr>)"
  by (simp add: ev_heartbeat_def) (simp add: wk_hb_def)

lemma wk_heartbeat_step:
  "wake_step wk_env wk_cfg (EvRegister 100 0 0 wk_cam (wk_raw (wk_hb ''CAM''))) wake_init =
     ([], None, wk_registered)"
  by (simp add: register_handle_def)
    (simp add: wk_hb_def handle_heartbeat_def upsert_def wake_init_def MAX_MAP_ENTRIES_def hm_contains_def
      registry_purge_stale_def anchors_purge_stale_def wk_registered_def wk_entry_def image_iff)

lemma wk_uid [simp]: "c2rC_uid (wk_c2rc u) = u" "unat (heartbeat_ms wk_cfg) = 20000"
  by (simp_all add: wk_c2rc_def wk_cfg_def)

theorem wake_after_heartbeat_witness:
  "\<exists>ms m s' r. register_handle wk_env wk_cfg 200 0 44 wk_client (wk_raw (C2rC (wk_c2rc ''CAM''))) wk_registered =
      (ms, Some m, s') \<and> to_addr m = wk_cam \<and> Send wk_client 1 (R2cCr r) \<in> set ms \<and> r2cCr_rsp r = 0"
  using wake_after_heartbeat [OF run_nil wk_cfg_valid, of wk_env
      "EvRegister 100 0 0 wk_cam (wk_raw (wk_hb ''CAM''))" "''CAM''" wk_entry "[]" None wk_registered "[]"
      wk_registered 200 "wk_raw (C2rC (wk_c2rc ''CAM''))" 1 "wk_c2rc ''CAM''" 0 44 wk_client]
    wk_heartbeat_step run_nil [of wk_env wk_cfg wk_registered]
  by (simp add: wake_init_def wk_entry_def)

theorem wake_no_reflection_witness:
  "\<exists>ms m s' w. register_handle wk_env wk_cfg 200 0 44 wk_client (wk_raw (C2rC (wk_c2rc ''CAM''))) wk_registered =
      (ms, Some m, s') \<and> to_addr m = wk_cam \<and> msg_xml m = R2dC w \<and>
      ipPort_ip (r2dC_cli w) = show_ip wk_env (sock_ip wk_client) \<and>
      ipPort_ip (r2dC_cli w) \<noteq> ipPort_ip (c2rC_cli (wk_c2rc ''CAM''))"
proof -
  let ?r = "register_handle wk_env wk_cfg 200 0 44 wk_client (wk_raw (C2rC (wk_c2rc ''CAM''))) wk_registered"
  have "\<exists>ms m s'. ?r = (ms, Some m, s')"
    by (simp add: register_handle_def)
      (simp add: handle_connect_def lookup_fresh_def wk_registered_def wk_entry_def fresh_def stale_ns_def
        wk_cfg_def wk_c2rc_def advertise_ip_def is_unspecified_def Let_def)
  then obtain ms m s' where r: "?r = (ms, Some m, s')" by blast
  have "show_ip wk_env (sock_ip wk_client) \<noteq> ipPort_ip (c2rC_cli (wk_c2rc ''CAM''))"
    by (simp add: wk_env_def wk_client_def wk_c2rc_def ip_port_def bytes_string_def to_be32_def to_le32_def)
  with wake_no_reflection [OF r] r show ?thesis
    by (auto simp: wk_registered_def wk_entry_def)
qed

theorem wake_memory_bounded_witness:
  "length (w_anchors wk_registered) \<le> 1024 \<and> length (w_cameras wk_registered) \<le> 1024 \<and>
   length (w_routes wk_registered) \<le> 256 \<and>
   hm_keys (w_anchors wk_registered) \<union> hm_keys (w_cameras wk_registered) \<subseteq> {uid. length uid \<le> 64}"
  using wake_memory_bounded [OF run_step [OF run_nil wk_heartbeat_step]] by blast

text \<open>A registry filled by 1024 made-up UIDs, long stale, and a real camera that wants to register.\<close>

definition wk_full :: wake_state where
  "wk_full = \<lparr>w_anchors = [], w_cameras = map (\<lambda>n :: nat. (map char_of [n div 256, n mod 256], wk_entry)) [0..<1024],
     w_routes = []\<rparr>"

lemma wk_full_ok: "wake_ok wk_full" "length (w_cameras wk_full) = 1024"
proof -
  have "inj_on (\<lambda>n :: nat. map char_of [n div 256, n mod 256] :: string) {0..<1024}"
  proof (rule inj_onI)
    fix x y :: nat
    assume "x \<in> {0..<1024}" "y \<in> {0..<1024}"
      and "map char_of [x div 256, x mod 256] = (map char_of [y div 256, y mod 256] :: string)"
    then have "(of_char (char_of (x div 256)) :: nat) = of_char (char_of (y div 256))"
      "(of_char (char_of (x mod 256)) :: nat) = of_char (char_of (y mod 256))" by simp_all
    then have "x div 256 mod 256 = y div 256 mod 256" "x mod 256 = y mod 256"
      by (simp_all only: of_char_of mod_mod_trivial)
    moreover have "x div 256 < 256" "y div 256 < 256"
      using \<open>x \<in> {0..<1024}\<close> \<open>y \<in> {0..<1024}\<close> by auto
    ultimately show "x = y" by (metis div_mult_mod_eq mod_less)
  qed
  then have "hm_ok (w_cameras wk_full)"
    by (simp add: wk_full_def hm_ok_def distinct_map comp_def)
  then show "wake_ok wk_full"
    by (auto simp: wake_ok_def table_ok_def wk_full_def routes_ok_def MAX_MAP_ENTRIES_def CACHE_CAP_def hm_keys_def)
      (simp_all add: hm_ok_def)
  show "length (w_cameras wk_full) = 1024" by (simp add: wk_full_def)
qed

theorem wake_capacity_lockout_witness:
  "\<exists>s'. wake_run wk_env wk_cfg wk_full [EvRegister (10 ^ 30) 0 0 wk_cam (wk_raw (wk_hb ''CAM''))] s' \<and>
     mset (w_cameras s') = mset (w_cameras wk_full)"
proof -
  let ?ev = "EvRegister (10 ^ 30) 0 0 wk_cam (wk_raw (wk_hb ''CAM''))"
  obtain ms b s' where st: "wake_step wk_env wk_cfg ?ev wk_full = (ms, b, s')" by (metis prod_cases3)
  have run: "wake_run wk_env wk_cfg wk_full [?ev] s'" by (rule run_step [OF run_nil st])
  have "''CAM'' \<notin> fst ` set (w_cameras wk_full)" by (auto simp: wk_full_def)
  then have "\<not> hm_contains (w_cameras wk_full) ''CAM''"
    by (simp add: hm_contains_def map_of_eq_None_iff)
  then show ?thesis
    using wake_capacity_lockout [OF run wk_full_ok(2,1)] run by auto
qed

lemma burst_from:
  assumes "send_reply E m = Some out" "i + k = 10"
  shows "\<exists>n\<le>k. burst_loop E sent cancelled m i = replicate n out \<and>
    ((\<forall>j<10. sent j \<and> \<not> cancelled j) \<longrightarrow> n = k)"
  using assms(2)
proof (induction k arbitrary: i)
  case 0
  then show ?case by (simp add: burst_loop.simps WAKE_BURST_COUNT_def)
next
  case (Suc k)
  then obtain n where n: "n \<le> k" "burst_loop E sent cancelled m (i + 1) = replicate n out"
    "(\<forall>j<10. sent j \<and> \<not> cancelled j) \<longrightarrow> n = k"
    by (metis add_Suc_right add_Suc Suc_eq_plus1)
  have i: "i < 10" using Suc.prems by simp
  show ?case
  proof (cases "sent i \<and> \<not> (i + 1 < 10 \<and> cancelled i)")
    case True
    then show ?thesis using n i assms(1)
      by (intro exI [of _ "Suc n"]) (subst burst_loop.simps, auto simp: WAKE_BURST_COUNT_def)
  next
    case False
    then show ?thesis using i assms(1)
      by (intro exI [of _ "if sent i then 1 else 0"])
        (subst burst_loop.simps, auto simp: WAKE_BURST_COUNT_def)
  qed
qed

text \<open>
  The wake burst. Whatever fails, the camera is sent some number of identical datagrams, at most ten; if nothing
  fails and nothing is cancelled, exactly ten.
\<close>

theorem wake_burst_shape:
  assumes "send_reply E m = Some out"
  shows "\<exists>n\<le>10. burst_loop E sent cancelled m 0 = replicate n out \<and>
    ((\<forall>j<10. sent j \<and> \<not> cancelled j) \<longrightarrow> n = 10)"
  by (rule burst_from [OF assms]) simp

theorem wake_burst_shape_witness:
  "\<exists>n\<le>10. burst_loop wk_env (\<lambda>_. True) (\<lambda>i. i = 3) (Send wk_cam 1 (wk_hb ''CAM'')) 0 =
      replicate n (wk_cam, wk_raw (wk_hb ''CAM''))"
proof -
  have "xml_se wk_udp (wk_hb ''CAM'') = Some (wk_bytes 1 0 ''CAM'')"
    by (simp add: wk_udp_def wk_se_def wk_hb_def)
  then obtain b where "encode_discovery wk_udp 1 (wk_hb ''CAM'') = Ok b"
    using decode_encode [OF wk_udp.udp_codec_lib_axioms, of "wk_hb ''CAM''" "wk_bytes 1 0 ''CAM''" 1]
    by (auto simp: wk_bytes_def payload_uid_def wk_hb_def)
  then have "send_reply wk_env (Send wk_cam 1 (wk_hb ''CAM'')) = Some (wk_cam, wk_raw (wk_hb ''CAM''))"
    by (simp add: send_reply_def wk_env_def wk_raw_def)
  from wake_burst_shape [OF this, of "\<lambda>_. True" "\<lambda>i. i = 3"] show ?thesis by blast
qed

end
