(* ===== verification/Rust_Str.thy ===== *)
theory Rust_Str
  imports Prelude "HOL-Library.Sublist"
begin

text \<open>
  The string operations of the Rust standard library that the sources use. A \<open>str\<close> is its UTF-8
  bytes, one \<open>char\<close> each. Slicing at a byte index inside a character panics, which is \<open>None\<close> here;
  \<open>trim\<close> removes Unicode white space.
\<close>

section \<open>Bytes of strings\<close>

abbreviation code :: "char \<Rightarrow> nat" where "code c \<equiv> of_char c"

definition is_char_boundary :: "string \<Rightarrow> nat \<Rightarrow> bool" where
  "is_char_boundary s i \<longleftrightarrow>
     i = 0 \<or> i = length s \<or> (i < length s \<and> \<not> (128 \<le> code (s ! i) \<and> code (s ! i) < 192))"

text \<open>\<open>&s[..n]\<close> and \<open>&s[n..]\<close> at once.\<close>

definition split_at :: "nat \<Rightarrow> string \<Rightarrow> (string \<times> string) option" where
  "split_at n s = (if is_char_boundary s n then Some (take n s, drop n s) else None)"

definition to_lower :: "char \<Rightarrow> char" where
  "to_lower c = (if 65 \<le> code c \<and> code c \<le> 90 then char_of (code c + 32) else c)"

definition to_ascii_lowercase :: "string \<Rightarrow> string" where
  "to_ascii_lowercase = map to_lower"

definition eq_ignore_ascii_case :: "string \<Rightarrow> string \<Rightarrow> bool" where
  "eq_ignore_ascii_case a b \<longleftrightarrow> to_ascii_lowercase a = to_ascii_lowercase b"

text \<open>
  The extension trait of \<open>protocol/transport.rs\<close> and \<open>protocol/auth.rs\<close>: \<open>Some None\<close> when the prefix
  is not there, \<open>None\<close> when the slice panics.
\<close>

definition strip_prefix_ignore_case :: "string \<Rightarrow> string \<Rightarrow> string option option" where
  "strip_prefix_ignore_case pre s =
     (if length pre \<le> length s
      then case split_at (length pre) s of
        None \<Rightarrow> None
      | Some (a, b) \<Rightarrow> Some (if eq_ignore_ascii_case a pre then Some b else None)
      else Some None)"

section \<open>Splitting\<close>

fun split_once :: "char \<Rightarrow> string \<Rightarrow> (string \<times> string) option" where
  "split_once d [] = None"
| "split_once d (c # s) =
     (if c = d then Some ([], s)
      else case split_once d s of None \<Rightarrow> None | Some (a, b) \<Rightarrow> Some (c # a, b))"

fun split :: "char \<Rightarrow> string \<Rightarrow> string list" where
  "split d [] = [[]]"
| "split d (c # s) =
     (if c = d then [] # split d s
      else case split d s of [] \<Rightarrow> [[c]] | x # xs \<Rightarrow> (c # x) # xs)"

definition rsplit_once :: "char \<Rightarrow> string \<Rightarrow> (string \<times> string) option" where
  "rsplit_once d s = map_option (\<lambda>(a, b). (rev b, rev a)) (split_once d (rev s))"

text \<open>The index of the first occurrence of a pattern.\<close>

fun find_str :: "string \<Rightarrow> string \<Rightarrow> nat option" where
  "find_str p [] = (if p = [] then Some 0 else None)"
| "find_str p (c # s) = (if prefix p (c # s) then Some 0 else map_option Suc (find_str p s))"

definition strip_prefix :: "string \<Rightarrow> string \<Rightarrow> string option" where
  "strip_prefix p s = (if prefix p s then Some (drop (length p) s) else None)"

section \<open>White space\<close>

text \<open>The UTF-8 encodings of the characters with the property \<open>White_Space\<close>.\<close>

definition whitespace :: "string list" where
  "whitespace =
    [[CHR 0x09], [CHR 0x0A], [CHR 0x0B], [CHR 0x0C], [CHR 0x0D], [CHR 0x20], [CHR 0xC2, CHR 0x85],
     [CHR 0xC2, CHR 0xA0], [CHR 0xE1, CHR 0x9A, CHR 0x80], [CHR 0xE2, CHR 0x80, CHR 0x80],
     [CHR 0xE2, CHR 0x80, CHR 0x81], [CHR 0xE2, CHR 0x80, CHR 0x82],
     [CHR 0xE2, CHR 0x80, CHR 0x83], [CHR 0xE2, CHR 0x80, CHR 0x84],
     [CHR 0xE2, CHR 0x80, CHR 0x85], [CHR 0xE2, CHR 0x80, CHR 0x86],
     [CHR 0xE2, CHR 0x80, CHR 0x87], [CHR 0xE2, CHR 0x80, CHR 0x88],
     [CHR 0xE2, CHR 0x80, CHR 0x89], [CHR 0xE2, CHR 0x80, CHR 0x8A],
     [CHR 0xE2, CHR 0x80, CHR 0xA8], [CHR 0xE2, CHR 0x80, CHR 0xA9],
     [CHR 0xE2, CHR 0x80, CHR 0xAF], [CHR 0xE2, CHR 0x81, CHR 0x9F],
     [CHR 0xE3, CHR 0x80, CHR 0x80]]"

lemma whitespace_nonempty: "w \<in> set whitespace \<Longrightarrow> 0 < length w"
  by (auto simp: whitespace_def)

function trim_by :: "string list \<Rightarrow> string \<Rightarrow> string" where
  "trim_by ws s =
     (case find (\<lambda>w. 0 < length w \<and> prefix w s) ws of
        None \<Rightarrow> s
      | Some w \<Rightarrow> trim_by ws (drop (length w) s))"
  by pat_completeness auto
termination
  by (relation "measure (\<lambda>(_, s). length s)") (auto simp: find_Some_iff prefix_def)

declare trim_by.simps [simp del]

definition trim_start :: "string \<Rightarrow> string" where "trim_start s = trim_by whitespace s"

definition trim_end :: "string \<Rightarrow> string" where "trim_end s = rev (trim_by (map rev whitespace) (rev s))"

definition trim :: "string \<Rightarrow> string" where "trim s = trim_end (trim_start s)"

definition trim_matches :: "char \<Rightarrow> string \<Rightarrow> string" where
  "trim_matches d s = rev (dropWhile ((=) d) (rev (dropWhile ((=) d) s)))"

text \<open>Visible ASCII: nothing to trim anywhere.\<close>

definition visible :: "string \<Rightarrow> bool" where
  "visible s \<longleftrightarrow> (\<forall>c\<in>set s. 33 \<le> code c \<and> code c \<le> 126)"

lemma visible_simps [simp]:
  "visible []" "visible (c # s) \<longleftrightarrow> 33 \<le> code c \<and> code c \<le> 126 \<and> visible s"
  "visible (s @ t) \<longleftrightarrow> visible s \<and> visible t" "visible (rev s) \<longleftrightarrow> visible s"
  by (auto simp: visible_def)

lemma whitespace_invisible: "w \<in> set whitespace \<Longrightarrow> c \<in> set w \<Longrightarrow> \<not> (33 \<le> code c \<and> code c \<le> 126)"
  by (auto simp: whitespace_def)

lemma trim_by_keeps:
  "(\<And>w. w \<in> set ws \<Longrightarrow> c \<notin> set w) \<Longrightarrow> c \<in> set s \<Longrightarrow> c \<in> set (trim_by ws s)"
proof (induction ws s rule: trim_by.induct)
  case (1 ws s)
  show ?case
  proof (cases "find (\<lambda>w. 0 < length w \<and> prefix w s) ws")
    case None
    then show ?thesis using 1 by (simp add: trim_by.simps [of ws s])
  next
    case (Some w)
    then have w: "w \<in> set ws" "prefix w s" by (auto simp: find_Some_iff)
    then have "c \<in> set (drop (length w) s)" using 1(2) [of w] 1(3) by (auto simp: prefix_def)
    then show ?thesis using Some 1 by (simp add: trim_by.simps [of ws s])
  qed
qed

lemma trim_keeps: "c \<in> set s \<Longrightarrow> 33 \<le> code c \<Longrightarrow> code c \<le> 126 \<Longrightarrow> c \<in> set (trim s)"
  using whitespace_invisible by (auto simp: trim_def trim_end_def trim_start_def intro!: trim_by_keeps)

lemma set_trim_by: "c \<in> set (trim_by ws s) \<Longrightarrow> c \<in> set s"
proof (induction ws s rule: trim_by.induct)
  case (1 ws s)
  then show ?case by (auto simp: trim_by.simps [of ws s] split: option.splits dest: in_set_dropD)
qed

lemma set_trim: "c \<in> set (trim s) \<Longrightarrow> c \<in> set s"
  by (auto simp: trim_def trim_end_def trim_start_def dest!: set_trim_by)

lemma trim_by_stop:
  assumes "\<And>w. w \<in> set ws \<Longrightarrow> w \<noteq> [] \<Longrightarrow> s \<noteq> [] \<Longrightarrow> hd w \<noteq> hd s"
  shows "trim_by ws s = s"
proof -
  have "find (\<lambda>w. 0 < length w \<and> prefix w s) ws = None"
    using assms by (fastforce simp: find_None_iff prefix_def)
  then show ?thesis by (simp add: trim_by.simps)
qed

lemma trim_id:
  assumes "s \<noteq> [] \<Longrightarrow> 33 \<le> code (hd s) \<and> code (hd s) \<le> 126"
    and "s \<noteq> [] \<Longrightarrow> 33 \<le> code (last s) \<and> code (last s) \<le> 126"
  shows "trim s = s"
proof -
  have "trim_start s = s" unfolding trim_start_def
    by (rule trim_by_stop) (metis assms(1) hd_in_set whitespace_invisible)
  moreover have "trim_by (map rev whitespace) (rev s) = rev s"
  proof (rule trim_by_stop)
    fix w assume w: "w \<in> set (map rev whitespace)" "w \<noteq> []" "rev s \<noteq> []"
    then have "hd w \<in> set (rev w)" "rev w \<in> set whitespace" by auto
    then have "\<not> (33 \<le> code (hd w) \<and> code (hd w) \<le> 126)" using whitespace_invisible by blast
    then show "hd w \<noteq> hd (rev s)" using assms(2) w(3) by (auto simp: hd_rev)
  qed
  ultimately show ?thesis by (simp add: trim_def trim_end_def)
qed

lemma trim_visible [simp]: "visible s \<Longrightarrow> trim s = s"
  by (rule trim_id) (simp_all add: visible_def)

lemma trim_blank [simp]: "visible k \<Longrightarrow> trim (CHR '' '' # k) = k"
proof -
  assume k: "visible k"
  have "find (\<lambda>w. 0 < length w \<and> prefix w (CHR '' '' # k)) whitespace = Some '' ''"
    by (simp add: whitespace_def)
  then have "trim_by whitespace (CHR '' '' # k) = trim_by whitespace k"
    by (subst trim_by.simps) simp
  then show ?thesis using trim_visible [OF k] by (simp add: trim_def trim_start_def)
qed

section \<open>Numbers\<close>

datatype IntErrorKind = Empty | InvalidDigit | PosOverflow

definition int_error_text :: "IntErrorKind \<Rightarrow> string" where
  "int_error_text k = (case k of
     Empty \<Rightarrow> ''cannot parse integer from empty string''
   | InvalidDigit \<Rightarrow> ''invalid digit found in string''
   | PosOverflow \<Rightarrow> ''number too large to fit in target type'')"

fun parse_digits :: "nat \<Rightarrow> nat \<Rightarrow> string \<Rightarrow> IntErrorKind + nat" where
  "parse_digits mx acc [] = Inr acc"
| "parse_digits mx acc (c # s) =
     (if \<not> (48 \<le> code c \<and> code c \<le> 57) then Inl InvalidDigit
      else if mx < acc * 10 + (code c - 48) then Inl PosOverflow
      else parse_digits mx (acc * 10 + (code c - 48)) s)"

text \<open>\<open>str::parse\<close> for an unsigned type with greatest value \<open>mx\<close>: a leading plus sign is accepted.\<close>

definition parse_uint :: "nat \<Rightarrow> string \<Rightarrow> IntErrorKind + nat" where
  "parse_uint mx s =
     (if s = [] then Inl Empty
      else if s = ''+'' \<or> s = ''-'' then Inl InvalidDigit
      else parse_digits mx 0 (if hd s = CHR ''+'' then tl s else s))"

definition digit :: "nat \<Rightarrow> char" where "digit n = char_of (48 + n)"

fun show_nat :: "nat \<Rightarrow> string" where
  "show_nat n = (if n < 10 then [digit n] else show_nat (n div 10) @ [digit (n mod 10)])"

declare show_nat.simps [simp del]

definition HEX_UPPER :: string where "HEX_UPPER = ''0123456789ABCDEF''"

text \<open>\<open>{:08X}\<close>.\<close>

definition hex8 :: "u32 \<Rightarrow> string" where
  "hex8 w = map (\<lambda>i. HEX_UPPER ! (unat w div 16 ^ i mod 16)) (rev [0..<8])"

lemma code_digit [simp]: "n < 10 \<Longrightarrow> code (digit n) = 48 + n"
  by (simp add: digit_def)

lemma show_nat_digits: "c \<in> set (show_nat n) \<Longrightarrow> 48 \<le> code c \<and> code c \<le> 57"
proof (induction n rule: show_nat.induct)
  case (1 n)
  have "n mod 10 < 10" by simp
  with 1 show ?case by (cases "n < 10") (auto simp: show_nat.simps [of n] simp del: mod_less_divisor)
qed

lemma show_nat_nonempty [simp]: "show_nat n \<noteq> []"
  by (subst show_nat.simps) simp

lemma visible_show_nat [simp]: "visible (show_nat n)"
proof -
  have "33 \<le> code c \<and> code c \<le> 126" if "c \<in> set (show_nat n)" for c
    using show_nat_digits [OF that] by simp
  then show ?thesis by (simp add: visible_def)
qed

lemma show_nat_not: "c \<in> set (show_nat n) \<Longrightarrow> code d < 48 \<or> 57 < code d \<Longrightarrow> c \<noteq> d"
  using show_nat_digits by fastforce

lemma parse_digits_append:
  "parse_digits mx acc (s @ t) =
     (case parse_digits mx acc s of Inl e \<Rightarrow> Inl e | Inr v \<Rightarrow> parse_digits mx v t)"
  by (induction mx acc s rule: parse_digits.induct) auto

lemma parse_digits_show: "n \<le> mx \<Longrightarrow> parse_digits mx 0 (show_nat n) = Inr n"
proof (induction n rule: show_nat.induct)
  case (1 n)
  show ?case
  proof (cases "n < 10")
    case True
    then show ?thesis using 1 by (simp add: show_nat.simps [of n])
  next
    case False
    have "n mod 10 < 10" "n div 10 * 10 + n mod 10 = n" by simp_all
    then show ?thesis using False 1
      by (simp add: show_nat.simps [of n] parse_digits_append)
  qed
qed

lemma parse_show [simp]: "n \<le> mx \<Longrightarrow> parse_uint mx (show_nat n) = Inr n"
proof -
  assume "n \<le> mx"
  moreover obtain c s where cs: "show_nat n = c # s" by (cases "show_nat n") simp_all
  moreover have "c \<noteq> CHR ''+''" "c \<noteq> CHR ''-''"
    using show_nat_not [of c n "CHR ''+''"] show_nat_not [of c n "CHR ''-''"] cs by auto
  ultimately show ?thesis using parse_digits_show [of n mx] by (simp add: parse_uint_def)
qed

section \<open>Laws\<close>

lemma split_once_append: "d \<notin> set a \<Longrightarrow> split_once d (a @ d # b) = Some (a, b)"
  by (induction a) auto

lemma split_once_None: "split_once d s = None \<longleftrightarrow> d \<notin> set s"
  by (induction s) (auto split: option.splits)

lemma split_not_Nil [simp]: "split d s \<noteq> []"
  by (cases s) (auto split: list.splits)

lemma split_append: "d \<notin> set a \<Longrightarrow> split d (a @ d # b) = a # split d b"
  by (induction a) auto

lemma split_single: "d \<notin> set a \<Longrightarrow> split d a = [a]"
  by (induction a) auto

lemma set_split: "x \<in> set (split d s) \<Longrightarrow> c \<in> set x \<Longrightarrow> c \<in> set s"
proof (induction s arbitrary: x)
  case (Cons a s)
  then show ?case by (cases "split d s") (fastforce split: if_splits)+
qed simp

lemma rsplit_once_append: "d \<notin> set b \<Longrightarrow> rsplit_once d (a @ d # b) = Some (a, b)"
  by (simp add: rsplit_once_def split_once_append)

lemma length_lower [simp]: "length (to_ascii_lowercase s) = length s"
  by (simp add: to_ascii_lowercase_def)

lemma boundary_ascii: "(\<forall>c\<in>set s. code c < 128) \<Longrightarrow> n \<le> length s \<Longrightarrow> is_char_boundary s n"
  using nth_mem [of n s] by (fastforce simp: is_char_boundary_def)

lemma strip_ascii:
  assumes "\<forall>c\<in>set s. code c < 128"
  shows "strip_prefix_ignore_case p s =
    Some (if length p \<le> length s \<and> eq_ignore_ascii_case (take (length p) s) p then Some (drop (length p) s) else None)"
  using boundary_ascii [OF assms, of "length p"] by (auto simp: strip_prefix_ignore_case_def split_at_def)

lemma strip_append:
  assumes "eq_ignore_ascii_case a p" "is_char_boundary (a @ s) (length a)"
  shows "strip_prefix_ignore_case p (a @ s) = Some (Some s)"
proof -
  have "length a = length p"
    using assms(1) unfolding eq_ignore_ascii_case_def by (metis length_lower)
  then show ?thesis using assms by (simp add: strip_prefix_ignore_case_def split_at_def)
qed

end
