(* ===== verification/Rtsp_Proto.thy ===== *)
theory Rtsp_Proto
  imports Rust_Str
begin

text \<open>
  The protocol layer of the RTSP server: stream paths (\<open>src/rtsp/url.rs\<close>), the \<open>Transport\<close> header
  (\<open>src/rtsp/protocol/transport.rs\<close>), request fields (\<open>src/rtsp/protocol/message.rs\<close>), the session
  state machine (\<open>src/rtsp/protocol/session.rs\<close>), authentication (\<open>src/rtsp/protocol/auth.rs\<close>) and the
  UDP port pool (\<open>src/rtsp/server/udp_pool.rs\<close>). An outer \<open>option\<close> is \<open>None\<close> for a panic. The
  \<open>rtsp-types\<close> parser, MD5 and Base64 are parameters.
\<close>

section \<open>Paths\<close>

datatype StreamKind = Main | Sub | Extern

definition show_kind :: "StreamKind \<Rightarrow> string" where
  "show_kind k = (case k of Main \<Rightarrow> ''main'' | Sub \<Rightarrow> ''sub'' | Extern \<Rightarrow> ''extern'')"

record ResolvedPath =
  rp_camera :: string
  rp_stream :: StreamKind

definition parse_stream_suffix :: "string \<Rightarrow> StreamKind option" where
  "parse_stream_suffix s =
     (let l = to_ascii_lowercase s
      in if l = ''main'' \<or> l = ''mainstream'' then Some Main
         else if l = ''sub'' \<or> l = ''substream'' then Some Sub
         else if l = ''extern'' \<or> l = ''externstream'' then Some Extern
         else None)"

definition trim_slashes :: "string \<Rightarrow> string" where
  "trim_slashes path = rev (dropWhile ((=) CHR ''/'') (rev (dropWhile ((=) CHR ''/'') path)))"

definition resolve :: "string \<Rightarrow> ResolvedPath option" where
  "resolve path =
     (let trimmed = trim_slashes path
      in if trimmed = [] then None
         else case split CHR ''/'' trimmed of
           [cam] \<Rightarrow> Some \<lparr>rp_camera = cam, rp_stream = Main\<rparr>
         | [cam, sfx] \<Rightarrow>
             map_option (\<lambda>k. \<lparr>rp_camera = cam, rp_stream = k\<rparr>) (parse_stream_suffix sfx)
         | _ \<Rightarrow> None)"

section \<open>The Transport header\<close>

datatype TransportSpec =
    TcpInterleaved (channel_rtp: u8) (channel_rtcp: u8)
  | UdpUnicast (client_rtp_port: u16) (client_rtcp_port: u16)

datatype TransportError = Unsupported string | Malformed string

text \<open>\<open>parse_range_u8\<close> and \<open>parse_range_u16\<close>, which differ in the greatest value and the text.\<close>

definition parse_bound :: "string \<Rightarrow> nat \<Rightarrow> string \<Rightarrow> TransportError + nat" where
  "parse_bound ty mx s = (case parse_uint mx (trim s) of
     Inl e \<Rightarrow> Err (Malformed (''bad '' @ ty @ '': '' @ int_error_text e))
   | Inr v \<Rightarrow> Ok v)"

definition parse_range :: "string \<Rightarrow> nat \<Rightarrow> string \<Rightarrow> TransportError + (nat \<times> nat)" where
  "parse_range ty mx s = (case split_once CHR ''-'' s of
     None \<Rightarrow> Err (Malformed (''not a range: '' @ s))
   | Some (a, b) \<Rightarrow>
       (case parse_bound ty mx a of
          Inl e \<Rightarrow> Err e
        | Inr a \<Rightarrow> (case parse_bound ty mx b of Inl e \<Rightarrow> Err e | Inr b \<Rightarrow> Ok (a, b))))"

definition parse_range_u8 :: "string \<Rightarrow> TransportError + (u8 \<times> u8)" where
  "parse_range_u8 s = (case parse_range ''u8'' 255 s of
     Inl e \<Rightarrow> Err e | Inr (a, b) \<Rightarrow> Ok (of_nat a, of_nat b))"

definition parse_range_u16 :: "string \<Rightarrow> TransportError + (u16 \<times> u16)" where
  "parse_range_u16 s = (case parse_range ''u16'' 65535 s of
     Inl e \<Rightarrow> Err e | Inr (a, b) \<Rightarrow> Ok (of_nat a, of_nat b))"

text \<open>The loop over the parameters. Whether \<open>unicast\<close> was named has no effect on the result.\<close>

fun transport_params ::
  "string list \<Rightarrow> (u8 \<times> u8) option \<Rightarrow> (u16 \<times> u16) option \<Rightarrow>
   (TransportError + ((u8 \<times> u8) option \<times> (u16 \<times> u16) option)) option" where
  "transport_params [] interleaved client_port = Some (Ok (interleaved, client_port))"
| "transport_params (part # parts) interleaved client_port =
     (if eq_ignore_ascii_case part ''unicast'' then transport_params parts interleaved client_port
      else if eq_ignore_ascii_case part ''multicast'' then Some (Err (Unsupported ''multicast''))
      else case strip_prefix_ignore_case ''interleaved='' part of
        None \<Rightarrow> None
      | Some (Some rest) \<Rightarrow>
          (case parse_range_u8 rest of
             Inl e \<Rightarrow> Some (Err e)
           | Inr r \<Rightarrow> transport_params parts (Some r) client_port)
      | Some None \<Rightarrow>
          (case strip_prefix_ignore_case ''client_port='' part of
             None \<Rightarrow> None
           | Some (Some rest) \<Rightarrow>
               (case parse_range_u16 rest of
                  Inl e \<Rightarrow> Some (Err e)
                | Inr r \<Rightarrow> transport_params parts interleaved (Some r))
           | Some None \<Rightarrow> transport_params parts interleaved client_port))"

definition transport_parse :: "string \<Rightarrow> (TransportError + TransportSpec) option" where
  "transport_parse value =
     (case map trim (split CHR '';'' (trim value)) of
        [] \<Rightarrow> Some (Err (Malformed ''empty''))
      | profile # parts \<Rightarrow>
          (let is_tcp = eq_ignore_ascii_case profile ''RTP/AVP/TCP'';
               is_udp = eq_ignore_ascii_case profile ''RTP/AVP'' \<or>
                        eq_ignore_ascii_case profile ''RTP/AVP/UDP''
           in if \<not> is_tcp \<and> \<not> is_udp then Some (Err (Unsupported profile))
              else case transport_params parts None None of
                None \<Rightarrow> None
              | Some (Inl e) \<Rightarrow> Some (Err e)
              | Some (Inr (interleaved, client_port)) \<Rightarrow>
                  Some (if is_tcp
                    then (case interleaved of
                            None \<Rightarrow> Err (Malformed ''TCP without interleaved'')
                          | Some (rtp, rtcp) \<Rightarrow> Ok (TcpInterleaved rtp rtcp))
                    else (case client_port of
                            None \<Rightarrow> Err (Malformed ''UDP without client_port'')
                          | Some (rtp, rtcp) \<Rightarrow> Ok (UdpUnicast rtp rtcp)))))"

definition show_range :: "nat \<Rightarrow> nat \<Rightarrow> string" where
  "show_range a b = show_nat a @ ''-'' @ show_nat b"

definition build_tcp_response :: "u8 \<Rightarrow> u8 \<Rightarrow> u32 \<Rightarrow> string" where
  "build_tcp_response ch_rtp ch_rtcp ssrc =
     ''RTP/AVP/TCP;unicast;interleaved='' @ show_range (unat ch_rtp) (unat ch_rtcp) @ '';ssrc='' @ hex8 ssrc"

definition build_udp_response :: "u16 \<Rightarrow> u16 \<Rightarrow> u16 \<Rightarrow> u16 \<Rightarrow> u32 \<Rightarrow> string" where
  "build_udp_response client_rtp client_rtcp server_rtp server_rtcp ssrc =
     ''RTP/AVP;unicast;client_port='' @ show_range (unat client_rtp) (unat client_rtcp) @
     '';server_port='' @ show_range (unat server_rtp) (unat server_rtcp) @ '';ssrc='' @ hex8 ssrc"

section \<open>Requests\<close>

datatype RtspMethod = Options | Describe | Setup | Play | Teardown | Pause | GetParameter

definition method_str :: "RtspMethod \<Rightarrow> string" where
  "method_str m = (case m of
     Options \<Rightarrow> ''OPTIONS'' | Describe \<Rightarrow> ''DESCRIBE'' | Setup \<Rightarrow> ''SETUP'' | Play \<Rightarrow> ''PLAY''
   | Teardown \<Rightarrow> ''TEARDOWN'' | Pause \<Rightarrow> ''PAUSE'' | GetParameter \<Rightarrow> ''GET_PARAMETER'')"

datatype MessageError = MalformedMessage | UnsupportedMethod string | MissingCSeq

text \<open>
  What \<open>rtsp_types::Message::parse\<close> gives for a request: the method by its name, the request URI
  unless it is \<open>*\<close>, and the headers in its order. \<open>None\<close> stands for bytes that are no request.
\<close>

record rtsp_request =
  rq_method :: string
  rq_uri :: "string option"
  rq_headers :: "(string \<times> string) list"

definition from_rtsp_types :: "string \<Rightarrow> RtspMethod option" where
  "from_rtsp_types m =
     find (\<lambda>x. method_str x = m) [Options, Describe, Setup, Play, Teardown, Pause, GetParameter]"

record ParsedRequest =
  pr_method :: RtspMethod
  pr_uri :: string
  pr_cseq :: u32
  pr_session :: "string option"
  pr_authorization :: "string option"
  pr_user_agent :: "string option"
  pr_transport :: "string option"
  pr_range :: "string option"

definition header_str :: "string \<Rightarrow> rtsp_request \<Rightarrow> string option" where
  "header_str name r =
     map_option (\<lambda>(_, v). trim v) (find (\<lambda>(n, _). eq_ignore_ascii_case n name) (rq_headers r))"

definition parse_request ::
  "(bytes \<Rightarrow> rtsp_request option) \<Rightarrow> bytes \<Rightarrow> MessageError + ParsedRequest" where
  "parse_request lib buf = (case lib buf of
     None \<Rightarrow> Err MalformedMessage
   | Some req \<Rightarrow>
       (case from_rtsp_types (rq_method req) of
          None \<Rightarrow> Err (UnsupportedMethod (rq_method req))
        | Some m \<Rightarrow>
            (case rq_uri req of
               None \<Rightarrow> Err MalformedMessage
             | Some uri \<Rightarrow>
                 (case map_option (parse_uint 0xffffffff) (header_str ''CSeq'' req) of
                    Some (Inr cseq) \<Rightarrow>
                      Ok \<lparr>pr_method = m, pr_uri = uri, pr_cseq = of_nat cseq,
                          pr_session = map_option (\<lambda>s. trim (hd (split CHR '';'' s)))
                            (header_str ''Session'' req),
                          pr_authorization = header_str ''Authorization'' req,
                          pr_user_agent = header_str ''User-Agent'' req,
                          pr_transport = header_str ''Transport'' req,
                          pr_range = header_str ''Range'' req\<rparr>
                  | _ \<Rightarrow> Err MissingCSeq))))"

section \<open>The session state machine\<close>

datatype SessionState = Init | Ready | Playing

datatype Transition = Allowed | WrongState | Terminated

definition handle_method :: "SessionState \<Rightarrow> RtspMethod \<Rightarrow> Transition \<times> SessionState" where
  "handle_method st m = (case m of
     Options \<Rightarrow> (Allowed, st)
   | GetParameter \<Rightarrow> (Allowed, st)
   | Pause \<Rightarrow> (if st = Init then (WrongState, st) else (Allowed, st))
   | Describe \<Rightarrow> (Allowed, st)
   | Setup \<Rightarrow> (case st of Init \<Rightarrow> (Allowed, Ready) | Ready \<Rightarrow> (Allowed, Ready) | Playing \<Rightarrow> (WrongState, Playing))
   | Play \<Rightarrow> (if st = Init then (WrongState, st) else (Allowed, Playing))
   | Teardown \<Rightarrow> (Terminated, st))"

section \<open>The UDP port pool\<close>

definition POOL_START :: nat where "POOL_START = 40000"

definition POOL_END :: nat where "POOL_END = 40998"

datatype PortPoolError = Exhausted

text \<open>The scan from \<open>port\<close> upwards; the pool is the set of even ports in use.\<close>

function acquire_from :: "nat \<Rightarrow> nat set \<Rightarrow> PortPoolError + nat" where
  "acquire_from port used =
     (if POOL_END < port then Err Exhausted
      else if port \<notin> used then Ok port
      else acquire_from (port + 2) used)"
  by pat_completeness auto
termination by (relation "measure (\<lambda>(p, _). POOL_END + 1 - p)") auto

declare acquire_from.simps [simp del]

definition pool_acquire :: "nat set \<Rightarrow> PortPoolError + (nat \<times> nat set)" where
  "pool_acquire used = (case acquire_from POOL_START used of
     Inl e \<Rightarrow> Err e | Inr p \<Rightarrow> Ok (p, insert p used))"

definition pool_release :: "nat \<Rightarrow> nat set \<Rightarrow> nat set" where
  "pool_release p used = used - {p}"

section \<open>Authentication\<close>

datatype AuthError = Missing | MalformedAuth | UnknownScheme | BadCredentials | StaleNonce

record UserCred =
  u_name :: string
  u_password :: string

text \<open>The loop over the users: all are compared, the first match is kept.\<close>

definition first_match :: "(UserCred \<Rightarrow> bool) \<Rightarrow> UserCred list \<Rightarrow> AuthError + string" where
  "first_match ok users =
     (case fold (\<lambda>u matched. if ok u \<and> matched = None then Some (u_name u) else matched) users None of
        None \<Rightarrow> Err BadCredentials | Some n \<Rightarrow> Ok n)"

definition verify_basic ::
  "(string \<Rightarrow> string option) \<Rightarrow> string \<Rightarrow> UserCred list \<Rightarrow> (AuthError + string) option" where
  "verify_basic b64_text authz users = (case strip_prefix_ignore_case ''Basic '' authz of
     None \<Rightarrow> None
   | Some None \<Rightarrow> Some (Err UnknownScheme)
   | Some (Some rest) \<Rightarrow>
       (case b64_text (trim rest) of
          None \<Rightarrow> Some (Err MalformedAuth)
        | Some s \<Rightarrow>
            (case split_once CHR '':'' s of
               None \<Rightarrow> Some (Err MalformedAuth)
             | Some (user, pass) \<Rightarrow>
                 Some (first_match (\<lambda>u. u_name u = user \<and> u_password u = pass) users))))"

type_synonym uri_str = string

type_synonym nonce_str = string

definition digest_response ::
  "(string \<Rightarrow> string) \<Rightarrow> string \<Rightarrow> string \<Rightarrow> string \<Rightarrow> string \<Rightarrow> uri_str \<Rightarrow> nonce_str \<Rightarrow> string \<Rightarrow> string \<Rightarrow> string \<Rightarrow> string" where
  "digest_response md5_hex username realm password method uri nonce nc cnonce qop =
     (let ha1 = md5_hex (username @ '':'' @ realm @ '':'' @ password);
          ha2 = md5_hex (method @ '':'' @ uri)
      in md5_hex (ha1 @ '':'' @ nonce @ '':'' @ nc @ '':'' @ cnonce @ '':'' @ qop @ '':'' @ ha2))"

text \<open>The loop of \<open>split_digest_params\<close>, then its last part.\<close>

fun split_params :: "string \<Rightarrow> bool \<Rightarrow> string \<Rightarrow> string list" where
  "split_params cur in_quotes [] = (if trim cur = [] then [] else [cur])"
| "split_params cur in_quotes (ch # s) =
     (if ch = CHR 0x22 then split_params (cur @ [ch]) (\<not> in_quotes) s
      else if ch = CHR '','' \<and> \<not> in_quotes then cur # split_params [] in_quotes s
      else split_params (cur @ [ch]) in_quotes s)"

definition split_digest_params :: "string \<Rightarrow> string list" where
  "split_digest_params s = split_params [] False s"

fun insert_params :: "string list \<Rightarrow> (string \<rightharpoonup> string) \<Rightarrow> AuthError + (string \<rightharpoonup> string)" where
  "insert_params [] m = Ok m"
| "insert_params (part # parts) m = (case split_once CHR ''='' part of
     None \<Rightarrow> Err MalformedAuth
   | Some (k, v) \<Rightarrow>
       insert_params parts (m(to_ascii_lowercase (trim k) \<mapsto> trim_matches (CHR 0x22) (trim v))))"

definition parse_digest_params :: "string \<Rightarrow> (AuthError + (string \<rightharpoonup> string)) option" where
  "parse_digest_params value = (case strip_prefix_ignore_case ''Digest '' value of
     None \<Rightarrow> None
   | Some None \<Rightarrow> Some (Err UnknownScheme)
   | Some (Some rest) \<Rightarrow> Some (insert_params (split_digest_params rest) Map.empty))"

definition uri_path :: "string \<Rightarrow> string" where
  "uri_path uri = (case find_str ''://'' uri of
     None \<Rightarrow> uri
   | Some i \<Rightarrow> (case find_str ''/'' (drop (i + 3) uri) of
        Some j \<Rightarrow> drop j (drop (i + 3) uri) | None \<Rightarrow> ''/''))"

definition verify_digest ::
  "(string \<Rightarrow> string) \<Rightarrow> string \<Rightarrow> string \<Rightarrow> string \<Rightarrow> UserCred list \<Rightarrow> string \<Rightarrow> (string \<Rightarrow> bool) \<Rightarrow>
   (AuthError + string) option" where
  "verify_digest md5_hex authz method request_uri users realm nonce_ok =
     (case parse_digest_params authz of
        None \<Rightarrow> None
      | Some (Inl e) \<Rightarrow> Some (Err e)
      | Some (Inr p) \<Rightarrow>
          (case (p ''username'', p ''nonce'', p ''uri'', p ''response'') of
             (Some username, Some nonce, Some uri, Some response) \<Rightarrow>
               (let qop = (case p ''qop'' of Some x \<Rightarrow> x | None \<Rightarrow> []);
                    nc = (case p ''nc'' of Some x \<Rightarrow> x | None \<Rightarrow> []);
                    cnonce = (case p ''cnonce'' of Some x \<Rightarrow> x | None \<Rightarrow> [])
                in if \<not> nonce_ok nonce then Some (Err StaleNonce)
                   else if uri_path uri \<noteq> uri_path request_uri then Some (Err BadCredentials)
                   else Some (first_match (\<lambda>u. u_name u = username \<and>
                      digest_response md5_hex (u_name u) realm (u_password u) method uri nonce nc cnonce qop =
                        to_ascii_lowercase response) users))
           | _ \<Rightarrow> Some (Err MalformedAuth)))"

section \<open>Laws of the string operations\<close>

lemma eq_ignore_simps [simp]:
  "eq_ignore_ascii_case [] []" "\<not> eq_ignore_ascii_case [] (c # s)" "\<not> eq_ignore_ascii_case (c # s) []"
  "eq_ignore_ascii_case (c # s) (d # t) \<longleftrightarrow> to_lower c = to_lower d \<and> eq_ignore_ascii_case s t"
  by (auto simp: eq_ignore_ascii_case_def to_ascii_lowercase_def)

lemma lower_Cons: "to_ascii_lowercase [] = []" "to_ascii_lowercase (c # s) = to_lower c # to_ascii_lowercase s"
  by (simp_all add: to_ascii_lowercase_def)

lemma hex8_digits: "c \<in> set (hex8 w) \<Longrightarrow> c \<in> set HEX_UPPER"
proof -
  assume "c \<in> set (hex8 w)"
  then obtain i where "c = HEX_UPPER ! (unat w div 16 ^ i mod 16)" by (auto simp: hex8_def)
  moreover have "unat w div 16 ^ i mod 16 < length HEX_UPPER" by (simp add: HEX_UPPER_def)
  ultimately show ?thesis by (simp only: nth_mem)
qed

lemma visible_hex8 [simp]: "visible (hex8 w)" "CHR '';'' \<notin> set (hex8 w)"
proof -
  have "\<forall>c\<in>set HEX_UPPER. 33 \<le> code c \<and> code c \<le> 126 \<and> c \<noteq> CHR '';''" by (simp add: HEX_UPPER_def)
  then show "visible (hex8 w)" "CHR '';'' \<notin> set (hex8 w)" using hex8_digits [of _ w] by (auto simp: visible_def)
qed

lemma show_range_laws [simp]:
  "visible (show_range a b)" "CHR '';'' \<notin> set (show_range a b)"
  using show_nat_not [of "CHR '';''" a "CHR '';''"] show_nat_not [of "CHR '';''" b "CHR '';''"]
  by (auto simp: show_range_def)

lemma minus_not_digit [simp]: "CHR ''-'' \<notin> set (show_nat a)"
  using show_nat_not [of "CHR ''-''" a "CHR ''-''"] by auto

lemma parse_show_range:
  "a \<le> mx \<Longrightarrow> b \<le> mx \<Longrightarrow> parse_range ty mx (show_range a b) = Ok (a, b)"
  by (simp add: parse_range_def show_range_def split_once_append parse_bound_def)

lemma parse_show_range_u8 [simp]: "parse_range_u8 (show_range (unat a) (unat b)) = Ok (a, b)"
  using unsigned_less [of a, where 'a = nat] unsigned_less [of b, where 'a = nat] by (simp add: parse_range_u8_def parse_show_range)

lemma parse_show_range_u16 [simp]: "parse_range_u16 (show_range (unat a) (unat b)) = Ok (a, b)"
  using unsigned_less [of a, where 'a = nat] unsigned_less [of b, where 'a = nat] by (simp add: parse_range_u16_def parse_show_range)

lemma visible_ascii: "visible s \<Longrightarrow> \<forall>c\<in>set s. code c < 128"
  by (auto simp: visible_def)

lemma split_semi:
  "CHR '';'' \<notin> set a \<Longrightarrow> split CHR '';'' (a @ '';'' @ b) = a # split CHR '';'' b"
  by (simp add: split_append)

lemma param_interleaved:
  "visible r \<Longrightarrow> transport_params ((''interleaved='' @ r) # ps) i c =
    (case parse_range_u8 r of Inl e \<Rightarrow> Some (Err e) | Inr x \<Rightarrow> transport_params ps (Some x) c)"
  using strip_ascii [of "''interleaved='' @ r" "''interleaved=''"] visible_ascii [of r] 
  by (simp add: to_lower_def)

lemma param_client_port:
  "visible r \<Longrightarrow> transport_params ((''client_port='' @ r) # ps) i c =
    (case parse_range_u16 r of Inl e \<Rightarrow> Some (Err e) | Inr x \<Rightarrow> transport_params ps i (Some x))"
  using strip_ascii [of "''client_port='' @ r"] visible_ascii [of r]
  by (simp add: to_lower_def)

lemma param_ignored:
  "visible r \<Longrightarrow> transport_params ((''ssrc='' @ r) # ps) i c = transport_params ps i c"
  "visible r \<Longrightarrow> transport_params ((''server_port='' @ r) # ps) i c = transport_params ps i c"
  using strip_ascii [of "''ssrc='' @ r"] strip_ascii [of "''server_port='' @ r"] visible_ascii [of r]
  by (simp_all add: to_lower_def)

lemma param_unicast: "transport_params (''unicast'' # ps) i c = transport_params ps i c"
  by (simp add: to_lower_def)

text \<open>
  The answer to a SETUP names the transport that was set up. Reading back the \<open>Transport\<close> header
  the server builds gives exactly the channels, or the client's ports, that were negotiated, for
  all values; the parameters a client does not send are skipped.
\<close>

theorem transport_response_roundtrip:
  "transport_parse (build_tcp_response rtp rtcp ssrc) = Some (Ok (TcpInterleaved rtp rtcp)) \<and>
   transport_parse (build_udp_response crtp crtcp srtp srtcp ssrc) = Some (Ok (UdpUnicast crtp crtcp))"
proof
  let ?r = "show_range (unat rtp) (unat rtcp)"
  have tcp: "build_tcp_response rtp rtcp ssrc =
      ''RTP/AVP/TCP'' @ '';'' @ ''unicast'' @ '';'' @ (''interleaved='' @ ?r) @ '';'' @ (''ssrc='' @ hex8 ssrc)"
    by (simp add: build_tcp_response_def)
  have "map trim (split CHR '';'' (trim (build_tcp_response rtp rtcp ssrc))) =
      [''RTP/AVP/TCP'', ''unicast'', ''interleaved='' @ ?r, ''ssrc='' @ hex8 ssrc]"
    unfolding tcp by (simp add: split_single split_append)
  then show "transport_parse (build_tcp_response rtp rtcp ssrc) = Some (Ok (TcpInterleaved rtp rtcp))"
    unfolding transport_parse_def
    by (simp add: Let_def to_lower_def param_unicast param_interleaved param_client_port param_ignored
        del: append.simps transport_params.simps(2))
next
  let ?c = "show_range (unat crtp) (unat crtcp)" and ?s = "show_range (unat srtp) (unat srtcp)"
  have udp: "build_udp_response crtp crtcp srtp srtcp ssrc =
      ''RTP/AVP'' @ '';'' @ ''unicast'' @ '';'' @ (''client_port='' @ ?c) @ '';'' @ (''server_port='' @ ?s) @
      '';'' @ (''ssrc='' @ hex8 ssrc)"
    by (simp add: build_udp_response_def)
  have "map trim (split CHR '';'' (trim (build_udp_response crtp crtcp srtp srtcp ssrc))) =
      [''RTP/AVP'', ''unicast'', ''client_port='' @ ?c, ''server_port='' @ ?s, ''ssrc='' @ hex8 ssrc]"
    unfolding udp by (simp add: split_single split_append)
  then show "transport_parse (build_udp_response crtp crtcp srtp srtcp ssrc) = Some (Ok (UdpUnicast crtp crtcp))"
    unfolding transport_parse_def
    by (simp add: Let_def to_lower_def param_unicast param_interleaved param_client_port param_ignored
        del: append.simps transport_params.simps(2))
qed


section \<open>Paths and ports\<close>

lemma trim_slashes_id:
  assumes "s \<noteq> []" "hd s \<noteq> CHR ''/''" "last s \<noteq> CHR ''/''"
  shows "trim_slashes (''/'' @ s) = s"
proof -
  have d: "dropWhile ((=) CHR ''/'') s = s" using assms by (cases s) auto
  have "dropWhile ((=) CHR ''/'') (rev s) = rev s" using assms
    by (cases s rule: rev_cases) auto
  then show ?thesis using d by (simp add: trim_slashes_def)
qed

lemma kind_laws [simp]:
  "CHR ''/'' \<notin> set (show_kind k)" "show_kind k \<noteq> []" "last (show_kind k) \<noteq> CHR ''/''"
  "parse_stream_suffix (show_kind k) = Some k"
  by (cases k; simp add: show_kind_def parse_stream_suffix_def to_ascii_lowercase_def to_lower_def)+

text \<open>
  Paths are unambiguous. The path made of a camera name and a stream kind resolves to exactly
  that pair, a path of the name alone to its main stream, and whatever resolves names a camera
  without a slash.
\<close>

theorem resolve_roundtrip:
  assumes "cam \<noteq> []" and "CHR ''/'' \<notin> set cam"
  shows "resolve (''/'' @ cam @ ''/'' @ show_kind k) = Some \<lparr>rp_camera = cam, rp_stream = k\<rparr> \<and>
    resolve (''/'' @ cam) = Some \<lparr>rp_camera = cam, rp_stream = Main\<rparr>"
proof -
  have hd: "hd cam \<noteq> CHR ''/''" "last cam \<noteq> CHR ''/''"
    using assms by (metis hd_in_set, metis last_in_set)
  have "trim_slashes (''/'' @ cam @ ''/'' @ show_kind k) = cam @ ''/'' @ show_kind k"
    using assms hd by (intro trim_slashes_id) simp_all
  then have "resolve (''/'' @ cam @ ''/'' @ show_kind k) = Some \<lparr>rp_camera = cam, rp_stream = k\<rparr>"
    using assms by (simp add: resolve_def Let_def split_append split_single)
  moreover have "trim_slashes (''/'' @ cam) = cam" using assms hd by (intro trim_slashes_id)
  ultimately show ?thesis using assms by (simp add: resolve_def Let_def split_single)
qed

theorem resolve_roundtrip_witness:
  "resolve (''/'' @ ''Porch'' @ ''/'' @ show_kind Sub) = Some \<lparr>rp_camera = ''Porch'', rp_stream = Sub\<rparr>"
  using resolve_roundtrip [of "''Porch''" Sub] by simp

definition pool_ports :: "nat set" where
  "pool_ports = {p. POOL_START \<le> p \<and> p \<le> POOL_END \<and> even p}"

lemma acquire_from_spec:
  assumes "even port"
  shows "case acquire_from port used of
    Inl e \<Rightarrow> \<forall>p. port \<le> p \<and> p \<le> POOL_END \<and> even p \<longrightarrow> p \<in> used
  | Inr p \<Rightarrow> port \<le> p \<and> p \<le> POOL_END \<and> even p \<and> p \<notin> used \<and> (\<forall>q. port \<le> q \<and> q < p \<and> even q \<longrightarrow> q \<in> used)"
  using assms
proof (induction port used rule: acquire_from.induct)
  case (1 port used)
  have step: "q = port \<or> port + 2 \<le> q" if "port \<le> q" "even q" for q
    using that 1(2) by presburger
  show ?case
  proof (cases "POOL_END < port \<or> port \<notin> used")
    case True
    then show ?thesis using 1(2) by (auto simp: acquire_from.simps [of port used])
  next
    case False
    then have r: "acquire_from port used = acquire_from (port + 2) used"
      by (simp add: acquire_from.simps [of port used])
    have "case acquire_from (port + 2) used of
        Inl e \<Rightarrow> \<forall>p. port + 2 \<le> p \<and> p \<le> POOL_END \<and> even p \<longrightarrow> p \<in> used
      | Inr p \<Rightarrow> port + 2 \<le> p \<and> p \<le> POOL_END \<and> even p \<and> p \<notin> used \<and>
          (\<forall>q. port + 2 \<le> q \<and> q < p \<and> even q \<longrightarrow> q \<in> used)"
      using 1 False by simp
    then show ?thesis unfolding r using False step by (auto split: sum.splits)
  qed
qed

lemma pool_acquire_Ok:
  "pool_acquire used = Ok (p, used') \<Longrightarrow> p \<in> pool_ports \<and> p \<notin> used \<and> used' = insert p used"
  using acquire_from_spec [of POOL_START used]
  by (auto simp: pool_acquire_def pool_ports_def POOL_START_def split: sum.splits)

lemma pool_acquire_Err: "pool_acquire used = Err e \<longleftrightarrow> pool_ports \<subseteq> used"
  using acquire_from_spec [of POOL_START used]
  by (cases e) (auto simp: pool_acquire_def pool_ports_def POOL_START_def split: sum.splits PortPoolError.splits
      intro: PortPoolError.exhaust)

section \<open>Slices\<close>

lemma transport_params_ascii:
  "\<forall>x\<in>set ps. \<forall>c\<in>set x. code c < 128 \<Longrightarrow> transport_params ps i c \<noteq> None"
  by (induction ps i c rule: transport_params.induct)
     (auto simp: strip_ascii simp del: eq_ignore_simps split: sum.splits)

lemma transport_parse_ascii:
  assumes "\<forall>c\<in>set v. code c < 128"
  shows "transport_parse v \<noteq> None"
proof -
  have "\<forall>x\<in>set (map trim (split CHR '';'' (trim v))). \<forall>c\<in>set x. code c < 128"
    using assms by (auto dest!: set_trim set_split)
  moreover obtain p ps where ps: "map trim (split CHR '';'' (trim v)) = p # ps"
    by (cases "map trim (split CHR '';'' (trim v))") simp_all
  ultimately obtain r where "transport_params ps None None = Some r"
    using transport_params_ascii [of ps None None] by auto
  then show ?thesis unfolding transport_parse_def ps
    by (cases r) (auto simp: Let_def simp del: eq_ignore_simps)
qed

text \<open>
  A header with a character across a prefix's length crashes the connection. The
  case-insensitive prefix test cuts the text at a byte index; for the two headers below, which are
  valid UTF-8, that index lies inside a character and the slice panics, before any credentials
  have been checked. Headers of ASCII characters never do this.
\<close>

theorem header_slice_panics:
  "transport_parse (''RTP/AVP;aaaaaaaaaaa'' @ [CHR 0xC3, CHR 0xA9, CHR ''b'']) = None \<and>
   verify_digest md5_hex (''aaaaaa'' @ [CHR 0xC3, CHR 0xA9]) m uri users realm ok = None"
proof
  have "map trim (split CHR '';'' (trim (''RTP/AVP;aaaaaaaaaaa'' @ [CHR 0xC3, CHR 0xA9, CHR ''b'']))) =
      [''RTP/AVP'', ''aaaaaaaaaaa'' @ [CHR 0xC3, CHR 0xA9, CHR ''b'']]"
    by (simp add: trim_id)
  then show "transport_parse (''RTP/AVP;aaaaaaaaaaa'' @ [CHR 0xC3, CHR 0xA9, CHR ''b'']) = None"
    by (simp add: transport_parse_def to_lower_def Let_def strip_prefix_ignore_case_def split_at_def
        is_char_boundary_def)
next
  show "verify_digest md5_hex (''aaaaaa'' @ [CHR 0xC3, CHR 0xA9]) m uri users realm ok = None"
    by (simp add: verify_digest_def parse_digest_params_def strip_prefix_ignore_case_def split_at_def
        is_char_boundary_def)
qed


section \<open>Digest authentication\<close>

lemma fold_first_match:
  "fold (\<lambda>u matched. if ok u \<and> matched = None then Some (u_name u) else matched) users m =
     (case m of Some n \<Rightarrow> Some n | None \<Rightarrow> map_option u_name (find ok users))"
  by (induction users arbitrary: m) (auto split: option.splits)

lemma first_match_iff:
  "first_match ok users = (case find ok users of None \<Rightarrow> Err BadCredentials | Some u \<Rightarrow> Ok (u_name u))"
  by (simp add: first_match_def fold_first_match split: option.splits)

lemma first_match_Ok: "first_match ok users = Ok n \<longleftrightarrow> (\<exists>u. find ok users = Some u \<and> n = u_name u)"
  by (auto simp: first_match_iff split: option.splits)

text \<open>
  C8. Digest authentication accepts only the holder of a password. Whenever a header is accepted as
  user \<open>n\<close>, it carries a nonce the server accepts and a \<open>uri\<close> with the path of the request, and
  its response is the digest of the password of a configured user of that name over this method and
  \<open>uri\<close>.
\<close>

theorem digest_sound:
  assumes "verify_digest md5_hex authz method request_uri users realm nonce_ok = Some (Ok n)"
  shows "\<exists>u p nonce uri nc cnonce qop. u \<in> set users \<and> u_name u = n \<and>
    parse_digest_params authz = Some (Ok p) \<and> p ''nonce'' = Some nonce \<and> p ''uri'' = Some uri \<and>
    p ''username'' = Some n \<and> nonce_ok nonce \<and> uri_path uri = uri_path request_uri \<and>
    map_option to_ascii_lowercase (p ''response'') =
      Some (digest_response md5_hex n realm (u_password u) method uri nonce nc cnonce qop)"
proof -
  obtain p username nonce uri response where p: "parse_digest_params authz = Some (Ok p)"
    and f: "p ''username'' = Some username" "p ''nonce'' = Some nonce" "p ''uri'' = Some uri" "p ''response'' = Some response"
    using assms by (auto simp: verify_digest_def split: option.splits sum.splits)
  let ?d = "\<lambda>s. case p s of Some x \<Rightarrow> x | None \<Rightarrow> []"
  have ok: "nonce_ok nonce" "uri_path uri = uri_path request_uri"
    and m: "first_match (\<lambda>u. u_name u = username \<and>
      digest_response md5_hex (u_name u) realm (u_password u) method uri nonce (?d ''nc'') (?d ''cnonce'') (?d ''qop'') =
        to_ascii_lowercase response) users = Ok n"
    using assms by (auto simp: verify_digest_def p f Let_def split: if_splits)
  then obtain u where u: "u \<in> set users" "u_name u = username" "n = u_name u"
    "digest_response md5_hex (u_name u) realm (u_password u) method uri nonce (?d ''nc'') (?d ''cnonce'') (?d ''qop'') =
        to_ascii_lowercase response"
    by (auto simp: first_match_Ok find_Some_iff dest: nth_mem)
  show ?thesis
    using p f ok u by (intro exI [of _ u] exI [of _ p] exI [of _ nonce] exI [of _ uri] exI [of _ "?d ''nc''"]
        exI [of _ "?d ''cnonce''"] exI [of _ "?d ''qop''"]) simp
qed

text \<open>The header a client sends: parameters, quoted or not.\<close>

datatype digest_param = Quoted string string | Plain string string

fun param_key :: "digest_param \<Rightarrow> string" where
  "param_key (Quoted k v) = k" | "param_key (Plain k v) = k"

fun param_val :: "digest_param \<Rightarrow> string" where
  "param_val (Quoted k v) = v" | "param_val (Plain k v) = v"

fun param_str :: "digest_param \<Rightarrow> string" where
  "param_str (Quoted k v) = k @ ''='' @ [CHR 0x22] @ v @ [CHR 0x22]"
| "param_str (Plain k v) = k @ ''='' @ v"

definition word_ok :: "string \<Rightarrow> bool" where
  "word_ok s \<longleftrightarrow> visible s \<and> s \<noteq> [] \<and> CHR 0x22 \<notin> set s \<and> CHR '','' \<notin> set s \<and> CHR ''='' \<notin> set s"

fun param_ok :: "digest_param \<Rightarrow> bool" where
  "param_ok (Quoted k v) \<longleftrightarrow> word_ok k \<and> CHR 0x22 \<notin> set v"
| "param_ok (Plain k v) \<longleftrightarrow> word_ok k \<and> word_ok v"

fun digest_params :: "digest_param list \<Rightarrow> string" where
  "digest_params [] = []"
| "digest_params [p] = param_str p"
| "digest_params (p # ps) = param_str p @ '', '' @ digest_params ps"

definition digest_header :: "digest_param list \<Rightarrow> string" where
  "digest_header ps = ''Digest '' @ digest_params ps"

lemma split_params_word:
  "CHR 0x22 \<notin> set s \<Longrightarrow> CHR '','' \<notin> set s \<Longrightarrow> split_params cur q (s @ t) = split_params (cur @ s) q t"
  by (induction s arbitrary: cur) auto

lemma split_params_quoted:
  "CHR 0x22 \<notin> set s \<Longrightarrow> split_params cur True (s @ CHR 0x22 # t) = split_params (cur @ s @ [CHR 0x22]) False t"
  by (induction s arbitrary: cur) auto

lemma split_params_param:
  assumes "param_ok p"
  shows "split_params cur False (param_str p @ t) = split_params (cur @ param_str p) False t"
proof (cases p)
  case (Quoted k v)
  then have "split_params cur False (k @ CHR ''='' # CHR 0x22 # v @ CHR 0x22 # t) =
      split_params (cur @ k) False (CHR ''='' # CHR 0x22 # v @ CHR 0x22 # t)"
    using assms by (intro split_params_word) (simp_all add: word_ok_def)
  also have "\<dots> = split_params (cur @ k @ ''='' @ [CHR 0x22]) True (v @ CHR 0x22 # t)" by simp
  also have "\<dots> = split_params (cur @ k @ ''='' @ [CHR 0x22] @ v @ [CHR 0x22]) False t"
    using assms Quoted split_params_quoted [of v "cur @ k @ ''='' @ [CHR 0x22]" t] by simp
  finally show ?thesis using Quoted by simp
next
  case (Plain k v)
  then show ?thesis using assms split_params_word [of "k @ ''='' @ v" cur False t] by (simp add: word_ok_def)
qed

lemma trim_quoted: "trim ([CHR 0x22] @ v @ [CHR 0x22]) = [CHR 0x22] @ v @ [CHR 0x22]"
  by (rule trim_id) simp_all

lemma trim_matches_quoted:
  "CHR 0x22 \<notin> set v \<Longrightarrow> trim_matches (CHR 0x22) ([CHR 0x22] @ v @ [CHR 0x22]) = v"
proof -
  assume v: "CHR 0x22 \<notin> set v"
  have d: "dropWhile ((=) CHR 0x22) (xs @ [CHR 0x22]) = (if xs = [] then [] else xs @ [CHR 0x22])"
    if "CHR 0x22 \<notin> set xs" for xs using that by (cases xs) auto
  have "dropWhile ((=) CHR 0x22) (rev v) = rev v" using v by (cases v rule: rev_cases) auto
  then show ?thesis using v by (simp add: trim_matches_def d)
qed

lemma trim_matches_word: "CHR 0x22 \<notin> set v \<Longrightarrow> trim_matches (CHR 0x22) v = v"
proof -
  assume v: "CHR 0x22 \<notin> set v"
  have "dropWhile ((=) CHR 0x22) xs = xs" if "CHR 0x22 \<notin> set xs" for xs using that by (cases xs) auto
  then show ?thesis using v by (simp add: trim_matches_def)
qed

lemma insert_param:
  assumes "param_ok p" "b = [] \<or> b = '' ''"
  shows "insert_params ((b @ param_str p) # ps) m =
    insert_params ps (m(to_ascii_lowercase (param_key p) \<mapsto> param_val p))"
proof (cases p)
  case (Quoted k v)
  have "split_once CHR ''='' ((b @ k) @ CHR ''='' # [CHR 0x22] @ v @ [CHR 0x22]) = Some (b @ k, [CHR 0x22] @ v @ [CHR 0x22])"
    using assms Quoted by (intro split_once_append) (auto simp: word_ok_def)
  then have "insert_params ((b @ param_str p) # ps) m =
      insert_params ps (m(to_ascii_lowercase (trim (b @ k)) \<mapsto> trim_matches (CHR 0x22) (trim ([CHR 0x22] @ v @ [CHR 0x22]))))"
    using Quoted by simp
  then show ?thesis using assms Quoted trim_quoted [of v] trim_matches_quoted [of v]
    by (auto simp: word_ok_def)
next
  case (Plain k v)
  have "split_once CHR ''='' ((b @ k) @ CHR ''='' # v) = Some (b @ k, v)"
    using assms Plain by (intro split_once_append) (auto simp: word_ok_def)
  then have "insert_params ((b @ param_str p) # ps) m =
      insert_params ps (m(to_ascii_lowercase (trim (b @ k)) \<mapsto> trim_matches (CHR 0x22) (trim v)))"
    using Plain by simp
  then show ?thesis using assms Plain
    by (auto simp: trim_matches_word word_ok_def)
qed

definition param_map :: "digest_param list \<Rightarrow> (string \<rightharpoonup> string) \<Rightarrow> (string \<rightharpoonup> string)" where
  "param_map ps m = fold (\<lambda>p m. m(to_ascii_lowercase (param_key p) \<mapsto> param_val p)) ps m"

lemma param_str_not_blank: "param_ok p \<Longrightarrow> trim (b @ param_str p) \<noteq> []"
proof -
  assume "param_ok p"
  then have "visible (param_key p)" "param_key p \<noteq> []" by (cases p; simp add: word_ok_def)+
  then obtain c where "c \<in> set (param_key p)" "33 \<le> code c" "code c \<le> 126"
    by (metis hd_in_set visible_def)
  then have "c \<in> set (trim (b @ param_str p))" by (cases p) (auto intro: trim_keeps)
  then show ?thesis by auto
qed

lemma split_params_end: "trim cur \<noteq> [] \<Longrightarrow> split_params cur q [] = [cur]"
  by simp

lemma insert_digest_params:
  assumes "\<forall>p\<in>set ps. param_ok p" "ps \<noteq> []" "b = [] \<or> b = '' ''"
  shows "insert_params (split_params b False (digest_params ps)) m = Ok (param_map ps m)"
  using assms
proof (induction ps arbitrary: b m rule: digest_params.induct)
  case (2 p)
  then have "split_params b False (param_str p @ []) = split_params (b @ param_str p) False []"
    by (intro split_params_param) simp
  then have "split_params b False (param_str p) = [b @ param_str p]"
    using 2 param_str_not_blank [of p b] by simp
  then show ?case using 2 insert_param [of p b "[]" m]
    by (simp add: param_map_def del: insert_params.simps(2)) (simp add: fun_upd_def)
next
  case (3 p q ps)
  have "split_params b False (param_str p @ '', '' @ digest_params (q # ps)) =
      (b @ param_str p) # split_params '' '' False (digest_params (q # ps))"
    using 3 by (subst split_params_param) simp_all
  then show ?case using 3 insert_param [of p b _ m] by (simp add: param_map_def del: param_str.simps)
qed simp

lemma parse_digest_header:
  assumes "\<forall>p\<in>set ps. param_ok p" "ps \<noteq> []"
  shows "parse_digest_params (digest_header ps) = Some (Ok (param_map ps Map.empty))"
proof -
  obtain p ps' where ps: "ps = p # ps'" using assms(2) by (cases ps) simp_all
  obtain c k where "param_key p = c # k" "code c \<le> 126"
    using assms(1) ps by (cases p; cases "param_key p") (auto simp: word_ok_def)
  then obtain t where "digest_params ps = c # t" unfolding ps by (cases p; cases ps') auto
  with \<open>code c \<le> 126\<close> have "is_char_boundary (''Digest '' @ digest_params ps) (length ''Digest '')"
    by (simp add: is_char_boundary_def)
  then have "strip_prefix_ignore_case ''Digest '' (digest_header ps) = Some (Some (digest_params ps))"
    unfolding digest_header_def by (intro strip_append) simp_all
  then show ?thesis
    using insert_digest_params [OF assms, of "[]"] by (simp add: parse_digest_params_def split_digest_params_def)
qed

lemma verify_digest_match:
  assumes "parse_digest_params authz = Some (Ok p)"
    and "p ''username'' = Some (u_name u)" "p ''nonce'' = Some nonce" "p ''uri'' = Some uri" "p ''response'' = Some r"
    and "p ''qop'' = Some qop" "p ''nc'' = Some nc" "p ''cnonce'' = Some cnonce"
    and "u \<in> set users" "nonce_ok nonce" "uri_path uri = uri_path request_uri"
    and "to_ascii_lowercase r = digest_response md5_hex (u_name u) realm (u_password u) method uri nonce nc cnonce qop"
  shows "verify_digest md5_hex authz method request_uri users realm nonce_ok = Some (Ok (u_name u))"
proof -
  let ?ok = "\<lambda>v. u_name v = u_name u \<and>
      digest_response md5_hex (u_name v) realm (u_password v) method uri nonce nc cnonce qop = to_ascii_lowercase r"
  have "find ?ok users \<noteq> None" using assms(9,12) by (auto simp: find_None_iff)
  then obtain v where "find ?ok users = Some v" by blast
  moreover from this have "u_name v = u_name u" by (auto simp: find_Some_iff)
  ultimately show ?thesis using assms by (simp add: verify_digest_def Let_def first_match_iff)
qed

text \<open>
  A client with the right password gets in. The header a client builds for a challenge, with the
  digest of its user's password, is accepted as that user, whatever characters other than the
  quotation mark its fields hold, whether or not \<open>qop\<close> and \<open>nc\<close> are quoted. Of MD5 only that its hexadecimal
  form is lower case is used.
\<close>

theorem digest_login:
  assumes "u \<in> set users" and "\<And>x. visible (md5_hex x) \<and> CHR 0x22 \<notin> set (md5_hex x) \<and>
      to_ascii_lowercase (md5_hex x) = md5_hex x"
    and "CHR 0x22 \<notin> set (u_name u @ realm @ nonce @ uri @ cnonce)" and "word_ok nc"
    and "nonce_ok nonce" and "uri_path uri = uri_path request_uri"
  shows "verify_digest md5_hex
    (digest_header [Quoted ''username'' (u_name u), Quoted ''realm'' realm, Quoted ''nonce'' nonce,
      Quoted ''uri'' uri, Plain ''qop'' ''auth'', Plain ''nc'' nc, Quoted ''cnonce'' cnonce,
      Quoted ''response''
        (digest_response md5_hex (u_name u) realm (u_password u) method uri nonce nc cnonce ''auth'')])
    method request_uri users realm nonce_ok = Some (Ok (u_name u))"
proof -
  let ?r = "digest_response md5_hex (u_name u) realm (u_password u) method uri nonce nc cnonce ''auth''"
  let ?ps = "[Quoted ''username'' (u_name u), Quoted ''realm'' realm, Quoted ''nonce'' nonce,
      Quoted ''uri'' uri, Plain ''qop'' ''auth'', Plain ''nc'' nc, Quoted ''cnonce'' cnonce, Quoted ''response'' ?r]"
  have r: "CHR 0x22 \<notin> set ?r" "to_ascii_lowercase ?r = ?r" using assms(2) by (simp_all add: digest_response_def Let_def)
  have "\<forall>p\<in>set ?ps. param_ok p" using assms(3,4) r(1) by (simp add: word_ok_def)
  then have p: "parse_digest_params (digest_header ?ps) = Some (Ok (param_map ?ps Map.empty))"
    by (rule parse_digest_header) simp
  then show ?thesis using assms r(2)
    by (intro verify_digest_match [OF p, where r = ?r]) (simp_all add: param_map_def lower_Cons to_lower_def)
qed


text \<open>A concrete digest function, and a login by it.\<close>

definition std_md5 :: "string \<Rightarrow> string" where
  "std_md5 s = show_nat (length s)"

lemma std_md5_laws:
  "visible (std_md5 x) \<and> CHR 0x22 \<notin> set (std_md5 x) \<and> to_ascii_lowercase (std_md5 x) = std_md5 x"
proof (intro conjI)
  have "to_lower c = c \<and> c \<noteq> CHR 0x22" if "c \<in> set (std_md5 x)" for c
    using show_nat_digits [OF that [unfolded std_md5_def]] by (auto simp: to_lower_def)
  then show "CHR 0x22 \<notin> set (std_md5 x)" "to_ascii_lowercase (std_md5 x) = std_md5 x"
    by (auto simp: to_ascii_lowercase_def map_idI)
qed (simp add: std_md5_def)

definition std_user :: UserCred where "std_user = \<lparr>u_name = ''admin'', u_password = ''s, e=c''\<rparr>"

abbreviation std_authz :: string where
  "std_authz \<equiv> digest_header [Quoted ''username'' (u_name std_user), Quoted ''realm'' ''bairelay'',
     Quoted ''nonce'' ''00ff'', Quoted ''uri'' ''/cam'', Plain ''qop'' ''auth'', Plain ''nc'' ''1'',
     Quoted ''cnonce'' ''x'', Quoted ''response''
        (digest_response std_md5 (u_name std_user) ''bairelay'' (u_password std_user) ''SETUP'' ''/cam'' ''00ff'' ''1'' ''x'' ''auth'')]"

theorem digest_login_witness:
  "verify_digest std_md5 std_authz ''SETUP'' ''rtsp://h/cam'' [std_user] ''bairelay'' (\<lambda>n. n = ''00ff'') =
     Some (Ok (u_name std_user))"
  by (rule digest_login [OF _ std_md5_laws])
     (simp_all add: std_user_def word_ok_def uri_path_def)

lemma std_paths: "uri_path ''rtsp://h/cam'' = ''/cam''" "uri_path ''/cam'' = ''/cam''"
  by (simp_all add: uri_path_def)

lemma std_login:
  "verify_digest std_md5 std_authz ''SETUP'' ''rtsp://h/cam'' [std_user] ''bairelay'' (\<lambda>n. n = ''00ff'') =
     Some (Ok (u_name std_user))"
proof (rule verify_digest_match [OF parse_digest_header])
  let ?r = "digest_response std_md5 (u_name std_user) ''bairelay'' (u_password std_user) ''SETUP'' ''/cam''
    ''00ff'' ''1'' ''x'' ''auth''"
  have r: "CHR 0x22 \<notin> set ?r" "to_ascii_lowercase ?r = ?r" using std_md5_laws by (simp_all add: digest_response_def Let_def)
  then show "\<forall>p\<in>set [Quoted ''username'' (u_name std_user), Quoted ''realm'' ''bairelay'',
     Quoted ''nonce'' ''00ff'', Quoted ''uri'' ''/cam'', Plain ''qop'' ''auth'', Plain ''nc'' ''1'',
     Quoted ''cnonce'' ''x'', Quoted ''response'' ?r]. param_ok p"
    by (simp add: word_ok_def std_user_def)
  show "to_ascii_lowercase ?r = ?r" by (rule r(2))
qed (simp_all add: param_map_def lower_Cons to_lower_def std_paths)

theorem digest_sound_witness:
  "\<exists>u p nonce. u \<in> set [std_user] \<and> parse_digest_params std_authz = Some (Ok p) \<and>
    p ''nonce'' = Some nonce \<and> nonce = ''00ff''"
  using digest_sound [OF std_login] by blast

end
