(* ===== verification/Rtsp_Server.thy ===== *)
theory Rtsp_Server
  imports Rtsp_Proto Net Stream_Source
begin

text \<open>
  One RTSP connection (\<open>src/rtsp/server/connection.rs\<close>, \<open>registry.rs\<close>, \<open>transport.rs\<close>) and the SDP
  body (\<open>src/rtsp/sdp.rs\<close>): cutting requests out of the byte stream, every request handler with all
  its responses, the session registry with its wake-lock guards and UDP port leases, and the
  session tasks as far as they own resources. Times are in nanoseconds. The \<open>rtsp-types\<close> parser,
  MD5, Base64 and the provider are parameters; an outer \<open>None\<close> is a panic.
\<close>

section \<open>Cutting requests\<close>

definition MAX_REQUEST_BYTES :: usize where "MAX_REQUEST_BYTES = 64 * 1024"

fun find_double_crlf :: "bytes \<Rightarrow> nat option" where
  "find_double_crlf (a # b # c # d # r) =
     (if a = 13 \<and> b = 10 \<and> c = 13 \<and> d = 10 then Some 0
      else map_option Suc (find_double_crlf (b # c # d # r)))"
| "find_double_crlf _ = None"

fun split_crlf :: "string \<Rightarrow> string list" where
  "split_crlf [] = [[]]"
| "split_crlf [c] = [[c]]"
| "split_crlf (c # d # s) =
     (if c = CHR 0x0D \<and> d = CHR 0x0A then [] # split_crlf s
      else case split_crlf (d # s) of [] \<Rightarrow> [[c]] | x # xs \<Rightarrow> (c # x) # xs)"

fun content_length_line :: "string list \<Rightarrow> nat option" where
  "content_length_line [] = None"
| "content_length_line (line # lines) = (case split_once CHR '':'' line of
     None \<Rightarrow> content_length_line lines
   | Some (name, v) \<Rightarrow>
       if eq_ignore_ascii_case name ''Content-Length''
       then (case parse_uint (2 ^ 64 - 1) (trim v) of Inl _ \<Rightarrow> None | Inr n \<Rightarrow> Some n)
       else content_length_line lines)"

definition parse_content_length :: "bytes \<Rightarrow> nat option" where
  "parse_content_length headers =
     (case from_utf8 headers of None \<Rightarrow> None | Some s \<Rightarrow> content_length_line (split_crlf s))"

text \<open>\<open>Ok (Some req, rest)\<close>, \<open>Ok (None, buf)\<close> to wait for more, or an error that closes.\<close>

definition try_consume_request :: "bytes \<Rightarrow> unit + (bytes option \<times> bytes)" where
  "try_consume_request buf = (case find_double_crlf buf of
     None \<Rightarrow> Ok (None, buf)
   | Some pos \<Rightarrow>
       (let stop = pos + 4;
            body_len = (case parse_content_length (take stop buf) of Some n \<Rightarrow> n | None \<Rightarrow> 0)
        in if MAX_REQUEST_BYTES < body_len then Err ()
           else if MAX_REQUEST_BYTES < stop + body_len then Err ()
           else if length buf < stop + body_len then Ok (None, buf)
           else Ok (Some (take (stop + body_len) buf), drop (stop + body_len) buf)))"

section \<open>State\<close>

datatype TrackKind = KVideo | KAudio

text \<open>A track's transport; for UDP with the leased server port.\<close>

datatype transport_impl = TcpTransport u8 u8 | UdpTransport nat u16 u16

record TrackEntry =
  tk_kind :: TrackKind
  tk_transport :: transport_impl
  tk_ssrc :: u32
  tk_clock :: u32

text \<open>The provider's handle: whose stream it is, and the SDP parameters.\<close>

record SubscriptionHandle =
  sub_camera :: string
  sub_kind :: StreamKind
  sub_user :: "string option"
  sub_sdp :: SdpParams

datatype StreamError = UnknownCamera | AccessDenied | Unavailable string | Internal string

text \<open>
  What the entry of a session shares with its task by \<open>Arc\<close>: the tracks, the slot of the first
  video packet, and the PLAY flag.
\<close>

record session_obj =
  so_tracks :: "TrackEntry list"
  so_first_rtp :: "(u16 \<times> u32) option"
  so_play_fired :: bool

record SessionEntry =
  se_obj :: nat
  se_sub :: SubscriptionHandle
  se_last :: nat

record Nonce =
  nonce_value :: string
  nonce_created :: nat

text \<open>
  \<open>cs_objs\<close> holds the shared objects by number; \<open>cs_tasks\<close> the session tasks that have not exited,
  each with its object and the session ID it was started for; \<open>cs_used\<close> the port pool; \<open>cs_guards\<close>
  the subscription handles of this connection that are alive.
\<close>

record ConnectionState =
  cs_users :: "UserCred list"
  cs_realm :: string
  cs_nonce :: Nonce
  cs_sessions :: "(string \<times> SessionEntry) list"
  cs_used :: "nat set"
  cs_bind_ip :: IpAddr
  cs_local_ip :: IpAddr
  cs_is_tls :: bool
  cs_objs :: "(nat \<times> session_obj) list"
  cs_tasks :: "(nat \<times> string) list"
  cs_next :: nat
  cs_guards :: nat

datatype StatusCode = S200 | S400 | S401 | S403 | S404 | S454 | S461 | S500 | S503

record Response =
  rs_status :: StatusCode
  rs_cseq :: u32
  rs_headers :: "(string \<times> string) list"
  rs_body :: "string option"

text \<open>Code outside the sources.\<close>

record rtsp_lib =
  l_parse :: "bytes \<Rightarrow> rtsp_request option"
  l_md5 :: "string \<Rightarrow> string"
  l_b64_text :: "string \<Rightarrow> string option"
  l_b64 :: "bytes \<Rightarrow> string"
  l_show_ip :: "IpAddr \<Rightarrow> string"

datatype bind_result = Bound | AddrInUse | BindFailed

text \<open>What one request meets in its environment: clock, random values, provider, sockets.\<close>

record req_io =
  io_now :: nat
  io_epoch :: nat
  io_ssrc :: u32
  io_session_id :: string
  io_nonce :: string
  io_subscribe :: "string \<Rightarrow> StreamKind \<Rightarrow> string option \<Rightarrow> StreamError + SdpParams"
  io_bind :: "nat \<Rightarrow> bind_result"

section \<open>The registry\<close>

definition lookup_session :: "string \<Rightarrow> ConnectionState \<Rightarrow> SessionEntry option" where
  "lookup_session sid c = map_of (cs_sessions c) sid"

definition touch :: "string \<Rightarrow> nat \<Rightarrow> ConnectionState \<Rightarrow> ConnectionState" where
  "touch sid now c = c\<lparr>cs_sessions :=
     map (\<lambda>(i, e). (i, if i = sid then e\<lparr>se_last := now\<rparr> else e)) (cs_sessions c)\<rparr>"

text \<open>Removing entries drops their subscription handles; the tasks see the cancellation later.\<close>

definition drop_sessions :: "(string \<times> SessionEntry \<Rightarrow> bool) \<Rightarrow> ConnectionState \<Rightarrow> ConnectionState" where
  "drop_sessions gone c = c\<lparr>cs_sessions := filter (\<lambda>x. \<not> gone x) (cs_sessions c),
     cs_guards := cs_guards c - length (filter gone (cs_sessions c))\<rparr>"

definition remove_session :: "string \<Rightarrow> ConnectionState \<Rightarrow> ConnectionState" where
  "remove_session sid c = drop_sessions (\<lambda>(i, _). i = sid) c"

definition sweep_expired :: "nat \<Rightarrow> nat \<Rightarrow> ConnectionState \<Rightarrow> ConnectionState" where
  "sweep_expired max_idle now c = drop_sessions (\<lambda>(_, e). max_idle < now - se_last e) c"

definition clear_sessions :: "ConnectionState \<Rightarrow> ConnectionState" where
  "clear_sessions c = drop_sessions (\<lambda>_. True) c"

definition update_obj :: "nat \<Rightarrow> (session_obj \<Rightarrow> session_obj) \<Rightarrow> ConnectionState \<Rightarrow> ConnectionState" where
  "update_obj oid f c = c\<lparr>cs_objs := map (\<lambda>(i, x). (i, if i = oid then f x else x)) (cs_objs c)\<rparr>"

definition append_track :: "string \<Rightarrow> TrackEntry \<Rightarrow> ConnectionState \<Rightarrow> ConnectionState" where
  "append_track sid t c = (case lookup_session sid c of
     None \<Rightarrow> c
   | Some e \<Rightarrow> update_obj (se_obj e) (\<lambda>x. x\<lparr>so_tracks := so_tracks x @ [t]\<rparr>) c)"

definition mark_playing :: "string \<Rightarrow> ConnectionState \<Rightarrow> ConnectionState" where
  "mark_playing sid c = (case lookup_session sid c of
     None \<Rightarrow> c
   | Some e \<Rightarrow> update_obj (se_obj e) (\<lambda>x. x\<lparr>so_play_fired := True\<rparr>) c)"

definition audio_sample_rate :: "string \<Rightarrow> ConnectionState \<Rightarrow> u32 option" where
  "audio_sample_rate sid c = (case lookup_session sid c of
     None \<Rightarrow> None | Some e \<Rightarrow> map_option ap_sample_rate (sp_audio (sub_sdp (se_sub e))))"

text \<open>\<open>SessionEntry::new\<close> and \<open>insert\<close>, then the spawn of the task.\<close>

definition start_session :: "string \<Rightarrow> SubscriptionHandle \<Rightarrow> TrackEntry \<Rightarrow> nat \<Rightarrow> ConnectionState \<Rightarrow> ConnectionState" where
  "start_session sid sub t now c =
     c\<lparr>cs_sessions := (sid, \<lparr>se_obj = cs_next c, se_sub = sub, se_last = now\<rparr>) # cs_sessions c,
       cs_objs := (cs_next c, \<lparr>so_tracks = [t], so_first_rtp = None, so_play_fired = False\<rparr>) # cs_objs c,
       cs_tasks := (cs_next c, sid) # cs_tasks c,
       cs_next := cs_next c + 1\<rparr>"

definition udp_ports :: "TrackEntry list \<Rightarrow> nat list" where
  "udp_ports ts = List.map_filter (\<lambda>t. case tk_transport t of UdpTransport p _ _ \<Rightarrow> Some p | _ \<Rightarrow> None) ts"

text \<open>
  The end of \<open>session_task::run\<close>: the registry entry with the task's session ID goes, and with the
  last owner of the tracks their port leases.
\<close>

definition task_exit :: "nat \<Rightarrow> ConnectionState \<Rightarrow> ConnectionState" where
  "task_exit oid c = (case map_of (cs_tasks c) oid of
     None \<Rightarrow> c
   | Some sid \<Rightarrow>
       (let c = remove_session sid c;
            ports = (case map_of (cs_objs c) oid of Some x \<Rightarrow> udp_ports (so_tracks x) | None \<Rightarrow> [])
        in c\<lparr>cs_tasks := filter (\<lambda>(i, _). i \<noteq> oid) (cs_tasks c),
             cs_objs := filter (\<lambda>(i, _). i \<noteq> oid) (cs_objs c),
             cs_used := cs_used c - set ports\<rparr>))"

section \<open>SDP\<close>

definition crlf :: string where "crlf = [CHR 0x0D, CHR 0x0A]"

definition hex2_lower :: "u8 \<Rightarrow> string" where
  "hex2_lower b = [''0123456789abcdef'' ! unat (drop_bit 4 b), ''0123456789abcdef'' ! unat (b AND 0x0f)]"

definition append_video :: "(bytes \<Rightarrow> string) \<Rightarrow> VideoParams \<Rightarrow> nat \<Rightarrow> string list" where
  "append_video b64 v track_id =
     (let pt = show_nat (unat (vp_payload_type v))
      in [''m=video 0 RTP/AVP '' @ pt] @
         (case vp_codec v of
            CH264 \<Rightarrow>
              [''a=rtpmap:'' @ pt @ '' H264/90000'',
               ''a=fmtp:'' @ pt @ '' packetization-mode=1;profile-level-id='' @
                 concat (map hex2_lower (profile_level_id v)) @ '';sprop-parameter-sets='' @
                 b64 (vp_sps v) @ '','' @ b64 (vp_pps v)]
          | CH265 \<Rightarrow>
              [''a=rtpmap:'' @ pt @ '' H265/90000'',
               ''a=fmtp:'' @ pt @ '' sprop-vps='' @ (case vp_vps v of Some x \<Rightarrow> b64 x | None \<Rightarrow> []) @
                 '';sprop-sps='' @ b64 (vp_sps v) @ '';sprop-pps='' @ b64 (vp_pps v)]) @
         [''a=control:trackID='' @ show_nat track_id])"

definition append_audio :: "AudioParams \<Rightarrow> nat \<Rightarrow> string list" where
  "append_audio a track_id =
     (let pt = show_nat (unat (ap_payload_type a))
      in [''m=audio 0 RTP/AVP '' @ pt] @
         (case ap_codec a of
            CAac \<Rightarrow>
              [''a=rtpmap:'' @ pt @ '' mpeg4-generic/'' @ show_nat (unat (ap_sample_rate a)) @ ''/'' @
                 show_nat (unat (ap_channels a)),
               ''a=fmtp:'' @ pt @ '' streamtype=5;profile-level-id=1;mode=AAC-hbr;sizelength=13;'' @
                 ''indexlength=3;indexdeltalength=3;config='' @
                 (case asc_hex a of Some x \<Rightarrow> x | None \<Rightarrow> [])]
          | CG711Ulaw \<Rightarrow> [''a=rtpmap:'' @ pt @ '' PCMU/8000'']) @
         [''a=control:trackID='' @ show_nat track_id])"

definition sdp_lines :: "(bytes \<Rightarrow> string) \<Rightarrow> SdpParams \<Rightarrow> string list" where
  "sdp_lines b64 p =
     [''v=0'', ''o=- '' @ session_id p @ '' 1 IN IP4 '' @ server_ip p, ''s='' @ session_name p,
      ''c=IN IP4 '' @ server_ip p, ''t=0 0'', ''a=control:*'', ''a=range:npt=now-''] @
     (case sp_video p of Some v \<Rightarrow> append_video b64 v 0 | None \<Rightarrow> []) @
     (case sp_audio p of
        Some a \<Rightarrow> append_audio a (if sp_video p = None then 0 else 1) | None \<Rightarrow> [])"

definition sdp_build :: "(bytes \<Rightarrow> string) \<Rightarrow> SdpParams \<Rightarrow> string" where
  "sdp_build b64 p = concat (map (\<lambda>l. l @ crlf) (sdp_lines b64 p))"

section \<open>Handlers\<close>

definition response :: "StatusCode \<Rightarrow> u32 \<Rightarrow> (string \<times> string) list \<Rightarrow> Response" where
  "response status cseq headers =
     \<lparr>rs_status = status, rs_cseq = cseq, rs_headers = headers, rs_body = None\<rparr>"

definition handle_options :: "u32 \<Rightarrow> Response" where
  "handle_options cseq = response S200 cseq
     [(''Public'', ''OPTIONS, DESCRIBE, SETUP, PLAY, TEARDOWN, GET_PARAMETER, PAUSE'')]"

definition handle_getparameter :: "u32 \<Rightarrow> ParsedRequest \<Rightarrow> Response" where
  "handle_getparameter cseq p = response S200 cseq
     (case pr_session p of Some sid \<Rightarrow> [(''Session'', sid @ '';timeout=30'')] | None \<Rightarrow> [])"

definition handle_pause :: "u32 \<Rightarrow> ParsedRequest \<Rightarrow> Response" where
  "handle_pause cseq p = response S200 cseq
     (case pr_session p of Some sid \<Rightarrow> [(''Session'', sid)] | None \<Rightarrow> [])"

definition NONCE_TTL :: nat where "NONCE_TTL = 300 * 1000000000"

definition is_stale :: "Nonce \<Rightarrow> nat \<Rightarrow> bool" where
  "is_stale n now \<longleftrightarrow> NONCE_TTL \<le> now - nonce_created n"

definition build_basic_challenge :: "string \<Rightarrow> string" where
  "build_basic_challenge realm = ''Basic realm='' @ [CHR 0x22] @ realm @ [CHR 0x22]"

definition build_digest_challenge :: "string \<Rightarrow> Nonce \<Rightarrow> bool \<Rightarrow> string" where
  "build_digest_challenge realm nc stale =
     ''Digest realm='' @ [CHR 0x22] @ realm @ [CHR 0x22] @ '', qop='' @ [CHR 0x22] @ ''auth'' @ [CHR 0x22] @
     '', nonce='' @ [CHR 0x22] @ nonce_value nc @ [CHR 0x22] @ '', algorithm=MD5'' @
     (if stale then '',stale=true'' else [])"

datatype AuthOutcome = AuthOk string | Challenge "(string \<times> string) list" | Forbidden

definition authenticate ::
  "rtsp_lib \<Rightarrow> req_io \<Rightarrow> ParsedRequest \<Rightarrow> string \<Rightarrow> ConnectionState \<Rightarrow> (AuthOutcome \<times> ConnectionState) option" where
  "authenticate L io p method c =
     (let nc = cs_nonce c
      in case pr_authorization p of
           None \<Rightarrow>
             Some (Challenge ((''WWW-Authenticate'', build_digest_challenge (cs_realm c) nc False) #
               (if cs_is_tls c then [(''WWW-Authenticate'', build_basic_challenge (cs_realm c))] else [])), c)
         | Some authz \<Rightarrow>
             if cs_is_tls c \<and> prefix ''basic '' (to_ascii_lowercase authz) then
               (case verify_basic (l_b64_text L) authz (cs_users c) of
                  None \<Rightarrow> None
                | Some (Inr user) \<Rightarrow> Some (AuthOk user, c)
                | Some (Inl BadCredentials) \<Rightarrow> Some (Forbidden, c)
                | Some (Inl _) \<Rightarrow> Some (Challenge [(''WWW-Authenticate'', build_basic_challenge (cs_realm c))], c))
             else
               (case verify_digest (l_md5 L) authz method (pr_uri p) (cs_users c) (cs_realm c)
                       (\<lambda>n. n = nonce_value nc \<and> \<not> is_stale nc (io_now io)) of
                  None \<Rightarrow> None
                | Some (Inr user) \<Rightarrow> Some (AuthOk user, c)
                | Some (Inl StaleNonce) \<Rightarrow>
                    (let fresh = \<lparr>nonce_value = io_nonce io, nonce_created = io_now io\<rparr>
                     in Some (Challenge [(''WWW-Authenticate'', build_digest_challenge (cs_realm c) fresh True)],
                              c\<lparr>cs_nonce := fresh\<rparr>))
                | Some (Inl BadCredentials) \<Rightarrow> Some (Forbidden, c)
                | Some (Inl _) \<Rightarrow>
                    Some (Challenge [(''WWW-Authenticate'', build_digest_challenge (cs_realm c) nc False)], c)))"

text \<open>The authentication gate of DESCRIBE and SETUP: a refusal as response, or the user.\<close>

definition auth_gate ::
  "rtsp_lib \<Rightarrow> req_io \<Rightarrow> ParsedRequest \<Rightarrow> RtspMethod \<Rightarrow> ConnectionState \<Rightarrow>
   ((Response + string option) \<times> ConnectionState) option" where
  "auth_gate L io p m c =
     (if cs_users c = [] then Some (Inr None, c)
      else case authenticate L io p (method_str m) c of
        None \<Rightarrow> None
      | Some (AuthOk user, c) \<Rightarrow> Some (Inr (Some user), c)
      | Some (Challenge headers, c) \<Rightarrow> Some (Inl (response S401 (pr_cseq p) headers), c)
      | Some (Forbidden, c) \<Rightarrow> Some (Inl (response S403 (pr_cseq p) []), c))"

definition subscribe_with_extern_fallback ::
  "req_io \<Rightarrow> string \<Rightarrow> StreamKind \<Rightarrow> string option \<Rightarrow> StreamError + SubscriptionHandle" where
  "subscribe_with_extern_fallback io camera kind user =
     (let handle = (\<lambda>k r. case r of Inl e \<Rightarrow> Err e
            | Inr sdp \<Rightarrow> Ok \<lparr>sub_camera = camera, sub_kind = k, sub_user = user, sub_sdp = sdp\<rparr>)
      in case io_subscribe io camera kind user of
           Inl (Unavailable m) \<Rightarrow>
             if kind = Extern then handle Sub (io_subscribe io camera Sub user) else Err (Unavailable m)
         | r \<Rightarrow> handle kind r)"

definition extract_path :: "string \<Rightarrow> string" where
  "extract_path uri = (case find_str ''://'' uri of
     None \<Rightarrow> uri
   | Some i \<Rightarrow> (case find_str ''/'' (drop (i + 3) uri) of
        Some j \<Rightarrow> drop j (drop (i + 3) uri) | None \<Rightarrow> ''/''))"

definition scheme_matches_transport :: "string \<Rightarrow> bool \<Rightarrow> bool" where
  "scheme_matches_transport uri is_tls =
     (if prefix ''rtsp://'' uri then \<not> is_tls
      else if prefix ''rtsps://'' uri then is_tls else True)"

definition advertised_server_ip :: "ConnectionState \<Rightarrow> IpAddr" where
  "advertised_server_ip c = (if is_unspecified (cs_bind_ip c) then cs_local_ip c else cs_bind_ip c)"

text \<open>The subscription of DESCRIBE is dropped before the response: no guard is left.\<close>

definition handle_describe ::
  "rtsp_lib \<Rightarrow> req_io \<Rightarrow> ParsedRequest \<Rightarrow> ConnectionState \<Rightarrow> (Response \<times> ConnectionState) option" where
  "handle_describe L io p c = (case resolve (extract_path (pr_uri p)) of
     None \<Rightarrow> Some (response S404 (pr_cseq p) [], c)
   | Some r \<Rightarrow>
       (case auth_gate L io p Describe c of
          None \<Rightarrow> None
        | Some (Inl resp, c) \<Rightarrow> Some (resp, c)
        | Some (Inr user, c) \<Rightarrow>
            (case subscribe_with_extern_fallback io (rp_camera r) (rp_stream r) user of
               Inl UnknownCamera \<Rightarrow> Some (response S404 (pr_cseq p) [], c)
             | Inl _ \<Rightarrow> Some (response S503 (pr_cseq p) [], c)
             | Inr sub \<Rightarrow>
                 (let sdp = sdp_build (l_b64 L) ((sub_sdp sub)
                        \<lparr>server_ip := l_show_ip L (advertised_server_ip c),
                         session_id := show_nat (io_epoch io)\<rparr>);
                      base = (if pr_uri p \<noteq> [] \<and> last (pr_uri p) = CHR ''/'' then pr_uri p
                              else pr_uri p @ ''/'')
                  in Some (\<lparr>rs_status = S200, rs_cseq = pr_cseq p,
                       rs_headers = [(''Content-Type'', ''application/sdp''), (''Content-Base'', base)],
                       rs_body = Some sdp\<rparr>, c)))))"

text \<open>
  \<open>UdpUnicastTransport::bind\<close>: pairs whose sockets are taken are parked and the next is tried; the
  parked leases go back when it returns.
\<close>

function udp_bind :: "(nat \<Rightarrow> bind_result) \<Rightarrow> nat set \<Rightarrow> nat set \<Rightarrow> nat option" where
  "udp_bind bind used parked = (case pool_acquire (used \<union> parked) of
     Inl _ \<Rightarrow> None
   | Inr (port, _) \<Rightarrow>
       (case bind port of
          Bound \<Rightarrow> Some port
        | AddrInUse \<Rightarrow> udp_bind bind used (insert port parked)
        | BindFailed \<Rightarrow> None))"
  by pat_completeness auto
termination
proof (relation "measure (\<lambda>(_, used, parked). card (pool_ports - (used \<union> parked)))", simp)
  fix bind and used parked :: "nat set" and y x and port and z
  assume "pool_acquire (used \<union> parked) = Inr y" "(port, z) = y"
  then have "port \<in> pool_ports" "port \<notin> used \<union> parked" using pool_acquire_Ok by auto
  moreover have "finite pool_ports" by (simp add: pool_ports_def)
  ultimately have "card (pool_ports - (used \<union> parked) - {port}) < card (pool_ports - (used \<union> parked))"
    by (intro card_Diff1_less) auto
  moreover have "pool_ports - (used \<union> insert port parked) = pool_ports - (used \<union> parked) - {port}" by auto
  ultimately show "((bind, used, insert port parked), (bind, used, parked)) \<in>
      measure (\<lambda>(_, used, parked). card (pool_ports - (used \<union> parked)))" by simp
qed

declare udp_bind.simps [simp del]

definition build_transport ::
  "req_io \<Rightarrow> TransportSpec \<Rightarrow> ConnectionState \<Rightarrow> (StatusCode + (transport_impl \<times> string)) \<times> ConnectionState" where
  "build_transport io spec c = (case spec of
     TcpInterleaved ch_rtp ch_rtcp \<Rightarrow>
       (Ok (TcpTransport ch_rtp ch_rtcp, build_tcp_response ch_rtp ch_rtcp (io_ssrc io)), c)
   | UdpUnicast crtp crtcp \<Rightarrow>
       (case udp_bind (io_bind io) (cs_used c) {} of
          None \<Rightarrow> (Err S500, c)
        | Some port \<Rightarrow>
            (Ok (UdpTransport port crtp crtcp,
                 build_udp_response crtp crtcp (of_nat port) (of_nat (port + 1)) (io_ssrc io)),
             c\<lparr>cs_used := insert port (cs_used c)\<rparr>)))"

text \<open>Dropping a transport that was built but not stored.\<close>

definition drop_transport :: "transport_impl \<Rightarrow> ConnectionState \<Rightarrow> ConnectionState" where
  "drop_transport t c = (case t of
     TcpTransport _ _ \<Rightarrow> c | UdpTransport p _ _ \<Rightarrow> c\<lparr>cs_used := pool_release p (cs_used c)\<rparr>)"

definition split_track :: "string \<Rightarrow> string \<times> nat" where
  "split_track path =
     (case rsplit_once CHR ''/'' path of
        None \<Rightarrow> (path, 0)
      | Some (base, lst) \<Rightarrow>
          (case strip_prefix ''trackID='' lst of
             None \<Rightarrow> (path, 0)
           | Some n \<Rightarrow> (case parse_uint 0xffffffff n of Inl _ \<Rightarrow> (path, 0) | Inr k \<Rightarrow> (base, k))))"

text \<open>SETUP once the transport stands: another track of a known session, or a new session.\<close>

definition setup_session ::
  "req_io \<Rightarrow> ParsedRequest \<Rightarrow> ResolvedPath \<Rightarrow> nat \<Rightarrow> string option \<Rightarrow> transport_impl \<Rightarrow> string \<Rightarrow>
   ConnectionState \<Rightarrow> Response \<times> ConnectionState" where
  "setup_session io p r track_id_num user transport transport_response c =
     (let sid = (case pr_session p of Some s \<Rightarrow> s | None \<Rightarrow> io_session_id io);
          kind = (if track_id_num = 0 then KVideo else KAudio);
          ok = response S200 (pr_cseq p)
            [(''Transport'', transport_response), (''Session'', sid @ '';timeout=30'')]
      in case lookup_session sid c of
           Some _ \<Rightarrow>
             (let clock = (case kind of KVideo \<Rightarrow> 90000
                    | KAudio \<Rightarrow> (case audio_sample_rate sid c of Some r \<Rightarrow> r | None \<Rightarrow> 16000))
              in (ok, append_track sid \<lparr>tk_kind = kind, tk_transport = transport,
                   tk_ssrc = io_ssrc io, tk_clock = clock\<rparr> c))
         | None \<Rightarrow>
             (case subscribe_with_extern_fallback io (rp_camera r) (rp_stream r) user of
                Inl UnknownCamera \<Rightarrow> (response S404 (pr_cseq p) [], drop_transport transport c)
              | Inl AccessDenied \<Rightarrow> (response S403 (pr_cseq p) [], drop_transport transport c)
              | Inl _ \<Rightarrow> (response S503 (pr_cseq p) [], drop_transport transport c)
              | Inr sub \<Rightarrow>
                  (let clock = (case kind of KVideo \<Rightarrow> 90000
                         | KAudio \<Rightarrow> (case sp_audio (sub_sdp sub) of
                              Some a \<Rightarrow> ap_sample_rate a | None \<Rightarrow> 16000));
                       c = c\<lparr>cs_guards := cs_guards c + 1\<rparr>
                   in (ok, start_session sid sub
                        \<lparr>tk_kind = kind, tk_transport = transport,
                         tk_ssrc = io_ssrc io, tk_clock = clock\<rparr> (io_now io) c))))"

definition handle_setup ::
  "rtsp_lib \<Rightarrow> req_io \<Rightarrow> ParsedRequest \<Rightarrow> ConnectionState \<Rightarrow> (Response \<times> ConnectionState) option" where
  "handle_setup L io p c =
     (let (base_path, track_id_num) = split_track (extract_path (pr_uri p))
      in case resolve base_path of
           None \<Rightarrow> Some (response S404 (pr_cseq p) [], c)
         | Some r \<Rightarrow>
             (case auth_gate L io p Setup c of
                None \<Rightarrow> None
              | Some (Inl resp, c) \<Rightarrow> Some (resp, c)
              | Some (Inr user, c) \<Rightarrow>
                  (case pr_transport p of
                     None \<Rightarrow> Some (response S400 (pr_cseq p) [], c)
                   | Some header \<Rightarrow>
                       (case transport_parse header of
                          None \<Rightarrow> None
                        | Some (Inl _) \<Rightarrow> Some (response S461 (pr_cseq p) [], c)
                        | Some (Inr spec) \<Rightarrow>
                            (case build_transport io spec c of
                               (Inl status, c) \<Rightarrow> Some (response status (pr_cseq p) [], c)
                             | (Inr (transport, transport_response), c) \<Rightarrow>
                                 Some (setup_session io p r track_id_num user transport
                                   transport_response c))))))"

text \<open>The ten polls of PLAY read the slot the task fills; what they find is the slot of the object.\<close>

definition handle_play :: "ParsedRequest \<Rightarrow> ConnectionState \<Rightarrow> Response \<times> ConnectionState" where
  "handle_play p c = (case pr_session p of
     None \<Rightarrow> (response S400 (pr_cseq p) [], c)
   | Some sid \<Rightarrow>
       (case lookup_session sid c of
          None \<Rightarrow> (response S454 (pr_cseq p) [], c)
        | Some e \<Rightarrow>
            (let c = mark_playing sid c
             in (response S200 (pr_cseq p)
                   ([(''Session'', sid), (''Range'', ''npt=now-'')] @
                    (case map_option so_first_rtp (map_of (cs_objs c) (se_obj e)) of
                       Some (Some (sq, ts)) \<Rightarrow>
                         [(''RTP-Info'', ''url='' @ pr_uri p @ '';seq='' @ show_nat (unat sq) @ '';rtptime='' @
                            show_nat (unat ts))]
                     | _ \<Rightarrow> [])), c))))"

definition handle_teardown :: "ParsedRequest \<Rightarrow> ConnectionState \<Rightarrow> Response \<times> ConnectionState" where
  "handle_teardown p c = (case pr_session p of
     None \<Rightarrow> (response S400 (pr_cseq p) [], c)
   | Some sid \<Rightarrow>
       (case lookup_session sid c of
          None \<Rightarrow> (response S454 (pr_cseq p) [], c)
        | Some _ \<Rightarrow> (response S200 (pr_cseq p) [(''Session'', sid)], remove_session sid c)))"

text \<open>The result says whether the connection goes on.\<close>

definition dispatch_request ::
  "rtsp_lib \<Rightarrow> req_io \<Rightarrow> bytes \<Rightarrow> ConnectionState \<Rightarrow> (bool \<times> Response \<times> ConnectionState) option" where
  "dispatch_request L io req c = (case parse_request (l_parse L) req of
     Inl _ \<Rightarrow> Some (False, response S400 0 [], c)
   | Inr p \<Rightarrow>
       if \<not> scheme_matches_transport (pr_uri p) (cs_is_tls c)
       then Some (True, response S400 (pr_cseq p) [], c)
       else
         (let c = (case pr_session p of Some sid \<Rightarrow> touch sid (io_now io) c | None \<Rightarrow> c)
          in map_option (Pair True) (case pr_method p of
               Options \<Rightarrow> Some (handle_options (pr_cseq p), c)
             | GetParameter \<Rightarrow> Some (handle_getparameter (pr_cseq p) p, c)
             | Pause \<Rightarrow> Some (handle_pause (pr_cseq p) p, c)
             | Describe \<Rightarrow> handle_describe L io p c
             | Setup \<Rightarrow> handle_setup L io p c
             | Play \<Rightarrow> Some (handle_play p c)
             | Teardown \<Rightarrow> Some (handle_teardown p c))))"

section \<open>The connection loop\<close>

lemma find_double_crlf_bound: "find_double_crlf buf = Some pos \<Longrightarrow> pos + 4 \<le> length buf"
  by (induction buf arbitrary: pos rule: find_double_crlf.induct) (auto split: if_splits)

lemma try_consume_shrinks: "try_consume_request buf = Ok (Some req, rest) \<Longrightarrow> length rest < length buf"
  by (auto simp: try_consume_request_def Let_def split: option.splits if_splits dest!: find_double_crlf_bound)

text \<open>
  Every complete request of the buffer is dispatched, the \<open>n\<close>-th in its environment \<open>io n\<close>. The
  result: whether the connection goes on, what is left in the buffer, and the responses.
\<close>

function drain ::
  "rtsp_lib \<Rightarrow> (nat \<Rightarrow> req_io) \<Rightarrow> nat \<Rightarrow> bytes \<Rightarrow> ConnectionState \<Rightarrow>
   (bool \<times> bytes \<times> Response list \<times> ConnectionState) option" where
  "drain L io n buf c = (case try_consume_request buf of
     Inl _ \<Rightarrow> Some (False, buf, [response S400 0 []], c)
   | Inr (None, buf) \<Rightarrow> Some (length buf \<le> MAX_REQUEST_BYTES, buf, [], c)
   | Inr (Some req, rest) \<Rightarrow>
       (case dispatch_request L (io n) req c of
          None \<Rightarrow> None
        | Some (False, r, c) \<Rightarrow> Some (False, rest, [r], c)
        | Some (True, r, c) \<Rightarrow>
            map_option (\<lambda>(go, buf, rs, c). (go, buf, r # rs, c)) (drain L io (n + 1) rest c)))"
  by pat_completeness auto
termination
  by (relation "measure (\<lambda>(_, _, _, buf, _). length buf)") (auto dest: try_consume_shrinks)

declare drain.simps [simp del]

text \<open>The read loop: every read is appended to the buffer and the buffer drained; an empty read is the end.\<close>

fun conn_reads ::
  "rtsp_lib \<Rightarrow> (nat \<Rightarrow> req_io) \<Rightarrow> nat \<Rightarrow> bytes \<Rightarrow> ConnectionState \<Rightarrow> bytes list \<Rightarrow>
   (bool \<times> Response list \<times> ConnectionState) option" where
  "conn_reads L io n buf c [] = Some (True, [], c)"
| "conn_reads L io n buf c (ch # chs) =
     (if ch = [] then Some (False, [], c)
      else case drain L io n (buf @ ch) c of
        None \<Rightarrow> None
      | Some (False, _, rs, c) \<Rightarrow> Some (False, rs, c)
      | Some (True, buf, rs, c) \<Rightarrow>
          map_option (\<lambda>(go, rs', c). (go, rs @ rs', c)) (conn_reads L io (n + length rs) buf c chs))"

text \<open>
  What happens to a connection: a request, the keepalive sweep, the end of a session task, the first
  packet of a task, the leases of other connections, and the end.
\<close>

datatype conn_event =
    Request req_io bytes
  | Sweep nat
  | TaskExit nat
  | FirstRtp nat "u16 \<times> u32"
  | Others "nat set"
  | CloseConn

definition own_ports :: "ConnectionState \<Rightarrow> nat list" where
  "own_ports c = concat (map (\<lambda>(_, x). udp_ports (so_tracks x)) (cs_objs c))"

fun conn_step :: "rtsp_lib \<Rightarrow> conn_event \<Rightarrow> ConnectionState \<Rightarrow> ConnectionState option" where
  "conn_step L (Request io req) c = map_option (\<lambda>(_, _, c). c) (dispatch_request L io req c)"
| "conn_step L (Sweep now) c = Some (sweep_expired (30 * 1000000000) now c)"
| "conn_step L (TaskExit oid) c = Some (task_exit oid c)"
| "conn_step L (FirstRtp oid v) c =
     Some (update_obj oid (\<lambda>x. x\<lparr>so_first_rtp := Some (case so_first_rtp x of Some w \<Rightarrow> w | None \<Rightarrow> v)\<rparr>) c)"
| "conn_step L (Others ports) c = Some (c\<lparr>cs_used := set (own_ports c) \<union> ports\<rparr>)"
| "conn_step L CloseConn c = Some (clear_sessions c)"

definition conn_run :: "rtsp_lib \<Rightarrow> conn_event list \<Rightarrow> ConnectionState \<Rightarrow> ConnectionState option" where
  "conn_run L es c = run_events (conn_step L) es c"

definition conn_init ::
  "UserCred list \<Rightarrow> string \<Rightarrow> Nonce \<Rightarrow> nat set \<Rightarrow> IpAddr \<Rightarrow> IpAddr \<Rightarrow> bool \<Rightarrow> ConnectionState" where
  "conn_init users realm nc used bind_ip local_ip is_tls =
     \<lparr>cs_users = users, cs_realm = realm, cs_nonce = nc, cs_sessions = [], cs_used = used,
      cs_bind_ip = bind_ip, cs_local_ip = local_ip, cs_is_tls = is_tls, cs_objs = [], cs_tasks = [],
      cs_next = 0, cs_guards = 0\<rparr>"

end
