(* ===== verification/Session_Task.thy ===== *)
theory Session_Task
  imports Rtsp_Server
begin

text \<open>
  The send loops of an RTSP session (\<open>src/rtsp/server/session_task.rs\<close>), the interleaved framing of
  \<open>src/rtsp/server/transport.rs\<close> and the sender reports of \<open>src/rtsp/server/rtcp.rs\<close>. What a loop has
  sent is the list of its packets; \<open>ok n\<close> says whether the \<open>n\<close>-th send succeeds. An outer \<open>None\<close> is
  the panic of the fragmenters. The random first sequence number is a parameter.
\<close>

section \<open>Tracks\<close>

record RuntimeTrack =
  rt_kind :: TrackKind
  rt_transport :: transport_impl
  rt_counters :: RtpCounters
  rt_packet_count :: u32
  rt_octet_count :: u32
  rt_last_ts :: u32
  rt_last_instant :: "nat option"
  rt_clock :: u32

definition fresh_track :: "TrackEntry \<Rightarrow> u16 \<Rightarrow> RuntimeTrack" where
  "fresh_track e rnd =
     \<lparr>rt_kind = tk_kind e, rt_transport = tk_transport e, rt_counters = \<lparr>ssrc = tk_ssrc e, seq = rnd\<rparr>,
      rt_packet_count = 0, rt_octet_count = 0, rt_last_ts = 0, rt_last_instant = None, rt_clock = tk_clock e\<rparr>"

definition carry_track :: "TrackEntry \<Rightarrow> RuntimeTrack \<Rightarrow> RuntimeTrack" where
  "carry_track e prev = prev\<lparr>rt_kind := tk_kind e, rt_transport := tk_transport e\<rparr>"

definition rebuild_runtime :: "TrackEntry list \<Rightarrow> RuntimeTrack list \<Rightarrow> (nat \<Rightarrow> u16) \<Rightarrow> RuntimeTrack list" where
  "rebuild_runtime shared existing rnd =
     map (\<lambda>(i, e). case find (\<lambda>p. ssrc (rt_counters p) = tk_ssrc e) existing of
            Some prev \<Rightarrow> carry_track e prev | None \<Rightarrow> fresh_track e (rnd i))
       (List.enumerate 0 shared)"

definition build_runtime_for_kind ::
  "TrackEntry list \<Rightarrow> TrackKind \<Rightarrow> RuntimeTrack option \<Rightarrow> u16 \<Rightarrow> RuntimeTrack option" where
  "build_runtime_for_kind shared kind prev rnd = (case find (\<lambda>t. tk_kind t = kind) shared of
     None \<Rightarrow> None
   | Some e \<Rightarrow>
       (case prev of
          Some p \<Rightarrow> if ssrc (rt_counters p) = tk_ssrc e then Some (carry_track e p) else Some (fresh_track e rnd)
        | None \<Rightarrow> Some (fresh_track e rnd)))"

section \<open>Sending\<close>

text \<open>Packets are sent until one fails.\<close>

fun send_all :: "(nat \<Rightarrow> bool) \<Rightarrow> bytes list \<Rightarrow> bytes list \<Rightarrow> bool \<times> bytes list" where
  "send_all ok sent [] = (True, sent)"
| "send_all ok sent (p # ps) = (if ok (length sent) then send_all ok (sent @ [p]) ps else (False, sent))"

definition count_packets :: "bytes list \<Rightarrow> RuntimeTrack \<Rightarrow> RuntimeTrack" where
  "count_packets ps t = t\<lparr>rt_packet_count := rt_packet_count t + of_nat (length ps),
     rt_octet_count := rt_octet_count t + of_nat (sum_list (map length ps))\<rparr>"

type_synonym first_slot = "(u16 \<times> u32) option"

fun frame_pts :: "Frame \<Rightarrow> u32" where
  "frame_pts (FVideo _ _ pts _ _) = pts"
| "frame_pts (FAudio _ pts) = pts"

text \<open>
  \<open>slot\<close> is \<open>None\<close> in the audio loop. The result: whether all packets went out, the track, the slot and
  what has been sent.
\<close>

definition dispatch_one ::
  "'z rtp_lib_scheme \<Rightarrow> (nat \<Rightarrow> bool) \<Rightarrow> nat \<Rightarrow> Frame \<Rightarrow> RuntimeTrack \<Rightarrow> first_slot option \<Rightarrow> bytes list \<Rightarrow>
   (bool \<times> RuntimeTrack \<times> first_slot option \<times> bytes list) option" where
  "dispatch_one R ok now frame track slot sent = (case dispatch R frame (rt_counters track) of
     None \<Rightarrow> None
   | Some (packets, counters) \<Rightarrow>
       (let seq_for_first = seq (rt_counters track);
            (done, sent') = send_all ok sent packets;
            track = count_packets (drop (length sent) sent') (track\<lparr>rt_counters := counters\<rparr>)
        in if \<not> done then Some (False, track, slot, sent')
           else Some (True,
             track\<lparr>rt_last_ts := frame_pts frame, rt_last_instant := Some now\<rparr>,
             (case slot of
                Some None \<Rightarrow>
                  (if rt_kind track = KVideo \<and> packets \<noteq> []
                   then (case frame of FVideo _ _ pts _ _ \<Rightarrow> Some (Some (seq_for_first, pts)) | _ \<Rightarrow> slot)
                   else slot)
              | _ \<Rightarrow> slot),
             sent')))"

text \<open>The cached key frame, unit by unit; the result says whether a packet went out.\<close>

fun replay_nals ::
  "'z rtp_lib_scheme \<Rightarrow> (nat \<Rightarrow> bool) \<Rightarrow> VideoCodec \<Rightarrow> bytes list \<Rightarrow> u32 \<Rightarrow> RtpCounters \<Rightarrow> bool \<Rightarrow> bytes list \<Rightarrow>
   (bool \<times> RtpCounters \<times> bytes list) option" where
  "replay_nals R ok codec [] ts c any sent = Some (any, c, sent)"
| "replay_nals R ok codec (nal # nals) ts c any sent =
     (case dispatch_nal R codec nal ts (nals = []) c of
        None \<Rightarrow> None
      | Some (pkts, c) \<Rightarrow>
          (let (done, sent') = send_all ok sent pkts; any = (any \<or> length sent < length sent')
           in if done then replay_nals R ok codec nals ts c any sent' else Some (any, c, sent')))"

definition replay_burst ::
  "'z rtp_lib_scheme \<Rightarrow> (nat \<Rightarrow> bool) \<Rightarrow> VideoBurst \<Rightarrow> RtpCounters \<Rightarrow> bytes list \<Rightarrow>
   (bool \<times> RtpCounters \<times> bytes list) option" where
  "replay_burst R ok burst c sent =
     replay_nals R ok (vb_codec burst) (iframe_nals burst) (captured_pts_90khz burst) c False sent"

section \<open>The loops\<close>

text \<open>
  What the select of a loop yields: a frame with the time and the session's tracks then, or the end
  (cancelled, lagged, closed).
\<close>

datatype recv = Recv Frame nat "TrackEntry list" | Stop

record loop_state =
  ls_track :: "RuntimeTrack option"
  ls_awaiting :: bool
  ls_slot :: first_slot
  ls_sent :: "bytes list"

fun video_live ::
  "'z rtp_lib_scheme \<Rightarrow> (nat \<Rightarrow> bool) \<Rightarrow> u16 \<Rightarrow> recv list \<Rightarrow> loop_state \<Rightarrow> loop_state option" where
  "video_live R ok rnd [] st = Some st"
| "video_live R ok rnd (Stop # es) st = Some st"
| "video_live R ok rnd (Recv (FAudio p pts) now tracks # es) st = video_live R ok rnd es st"
| "video_live R ok rnd (Recv (FVideo codec nals pts keyframe au_end) now tracks # es) st =
     (case (case ls_track st of
              None \<Rightarrow> build_runtime_for_kind tracks KVideo None rnd | Some t \<Rightarrow> Some t) of
        None \<Rightarrow> video_live R ok rnd es st
      | Some t \<Rightarrow>
          (let st = st\<lparr>ls_track := Some t\<rparr>
           in if ls_awaiting st \<and> \<not> keyframe then video_live R ok rnd es st
              else case dispatch_one R ok now (FVideo codec nals pts keyframe au_end) t (Some (ls_slot st)) (ls_sent st) of
                None \<Rightarrow> None
              | Some (go, t, slot, sent) \<Rightarrow>
                  (let st = \<lparr>ls_track = Some t, ls_awaiting = False,
                       ls_slot = (case slot of Some s \<Rightarrow> s | None \<Rightarrow> ls_slot st), ls_sent = sent\<rparr>
                   in if go then video_live R ok rnd es st else Some st)))"

definition video_dispatch_loop ::
  "'z rtp_lib_scheme \<Rightarrow> (nat \<Rightarrow> bool) \<Rightarrow> u16 \<Rightarrow> TrackEntry list \<Rightarrow> VideoBurst option \<Rightarrow> recv list \<Rightarrow>
   loop_state option" where
  "video_dispatch_loop R ok rnd tracks cached es =
     (let st = \<lparr>ls_track = build_runtime_for_kind tracks KVideo None rnd, ls_awaiting = False,
            ls_slot = None, ls_sent = []\<rparr>
      in case (ls_track st, cached) of
           (Some t, Some burst) \<Rightarrow>
             (case replay_burst R ok burst (rt_counters t) [] of
                None \<Rightarrow> None
              | Some (awaiting, c, sent) \<Rightarrow>
                  video_live R ok rnd es (st\<lparr>ls_track := Some (t\<lparr>rt_counters := c\<rparr>),
                    ls_awaiting := awaiting, ls_sent := sent\<rparr>))
         | _ \<Rightarrow> video_live R ok rnd es st)"

fun audio_live ::
  "'z rtp_lib_scheme \<Rightarrow> (nat \<Rightarrow> bool) \<Rightarrow> u16 \<Rightarrow> recv list \<Rightarrow> RuntimeTrack option \<Rightarrow> bytes list \<Rightarrow>
   (RuntimeTrack option \<times> bytes list) option" where
  "audio_live R ok rnd [] track sent = Some (track, sent)"
| "audio_live R ok rnd (Stop # es) track sent = Some (track, sent)"
| "audio_live R ok rnd (Recv (FVideo _ _ _ _ _) now tracks # es) track sent = audio_live R ok rnd es track sent"
| "audio_live R ok rnd (Recv (FAudio p pts) now tracks # es) track sent =
     (case (case track of None \<Rightarrow> build_runtime_for_kind tracks KAudio None rnd | Some t \<Rightarrow> Some t) of
        None \<Rightarrow> audio_live R ok rnd es track sent
      | Some t \<Rightarrow>
          (case dispatch_one R ok now (FAudio p pts) t None sent of
             None \<Rightarrow> None
           | Some (go, t, _, sent) \<Rightarrow>
               if go then audio_live R ok rnd es (Some t) sent else Some (Some t, sent)))"

definition audio_dispatch_loop ::
  "'z rtp_lib_scheme \<Rightarrow> (nat \<Rightarrow> bool) \<Rightarrow> u16 \<Rightarrow> TrackEntry list \<Rightarrow> recv list \<Rightarrow>
   (RuntimeTrack option \<times> bytes list) option" where
  "audio_dispatch_loop R ok rnd tracks es =
     audio_live R ok rnd es (build_runtime_for_kind tracks KAudio None rnd) []"

section \<open>Interleaved frames\<close>

text \<open>The writer of \<open>TcpInterleavedTransport\<close> takes one frame at a time.\<close>

definition write_framed :: "u8 \<Rightarrow> bytes \<Rightarrow> bytes option" where
  "write_framed channel packet =
     (if 65535 < length packet then None
      else Some ([0x24, channel] @ to_be16 (of_nat (length packet)) @ packet))"

section \<open>Sender reports\<close>

definition PT_SENDER_REPORT :: u8 where "PT_SENDER_REPORT = 200"

definition build_sender_report :: "u32 \<Rightarrow> u32 \<Rightarrow> u32 \<Rightarrow> u32 \<Rightarrow> u32 \<Rightarrow> u32 \<Rightarrow> bytes" where
  "build_sender_report sid ntp_sec ntp_frac rtp_timestamp packet_count octet_count =
     [0x80, PT_SENDER_REPORT] @ to_be16 6 @ to_be32 sid @ to_be32 ntp_sec @ to_be32 ntp_frac @
     to_be32 rtp_timestamp @ to_be32 packet_count @ to_be32 octet_count"

text \<open>\<open>dt\<close> in nanoseconds.\<close>

definition ntp_minus :: "u32 \<Rightarrow> u32 \<Rightarrow> nat \<Rightarrow> u32 \<times> u32" where
  "ntp_minus ntp_sec ntp_frac dt =
     (let dt_sec = of_nat (dt div 1000000000);
          dt_frac = of_nat (dt mod 1000000000 * 2 ^ 32 div 1000000000);
          frac = ntp_frac - dt_frac;
          sec = ntp_sec - dt_sec
      in (if ntp_frac < dt_frac then sec - 1 else sec, frac))"

section \<open>What a session sends\<close>

lemma send_all_ok: "\<forall>n. ok n \<Longrightarrow> send_all ok sent ps = (True, sent @ ps)"
  by (induction ps arbitrary: sent) auto

definition seq_run :: "u16 \<Rightarrow> bytes list \<Rightarrow> bool" where
  "seq_run s ps \<longleftrightarrow> map rtp_seq ps = map (\<lambda>i. s + of_nat i) [0..<length ps]"

lemma seq_run_append:
  "seq_run s ps \<Longrightarrow> seq_run (s + of_nat (length ps)) qs \<Longrightarrow> seq_run s (ps @ qs)"
proof -
  assume a: "seq_run s ps" "seq_run (s + of_nat (length ps)) qs"
  have "[0..<length ps + length qs] = [0..<length ps] @ map (\<lambda>i. length ps + i) [0..<length qs]"
    by (rule nth_equalityI) (auto simp: nth_append)
  with a show ?thesis by (simp add: seq_run_def add.assoc comp_def)
qed

fun frame_payloads :: "Frame \<Rightarrow> bytes list" where
  "frame_payloads (FVideo codec nals _ _ _) = concat (map (nal_payloads codec) nals)"
| "frame_payloads (FAudio _ _) = []"

fun is_key :: "Frame \<Rightarrow> bool" where
  "is_key (FVideo _ _ _ key _) = key"
| "is_key (FAudio _ _) = False"

text \<open>The video frames a loop receives before it stops, and the gate after a replay.\<close>

fun video_frames :: "recv list \<Rightarrow> Frame list" where
  "video_frames [] = []"
| "video_frames (Stop # es) = []"
| "video_frames (Recv (FAudio _ _) _ _ # es) = video_frames es"
| "video_frames (Recv (FVideo codec nals pts key au_end) _ _ # es) = FVideo codec nals pts key au_end # video_frames es"

definition gate :: "bool \<Rightarrow> Frame list \<Rightarrow> Frame list" where
  "gate awaiting fs = (if awaiting then dropWhile (\<lambda>f. \<not> is_key f) fs else fs)"

definition first_sent :: "first_slot \<Rightarrow> u16 \<Rightarrow> Frame list \<Rightarrow> first_slot" where
  "first_sent slot s fs = (case slot of
     Some x \<Rightarrow> Some x
   | None \<Rightarrow> (case filter (\<lambda>f. frame_payloads f \<noteq> []) fs of [] \<Rightarrow> None | f # _ \<Rightarrow> Some (s, frame_pts f)))"

lemma dispatch_one_video:
  assumes "rtp_codec R" "\<forall>n. ok n" "rt_kind t = KVideo" "f = FVideo codec nals pts key au_end"
  obtains t' pkts where
    "dispatch_one R ok now f t (Some slot) sent = Some (True, t', Some (first_sent slot (seq (rt_counters t)) [f]), sent @ pkts)"
    "rt_kind t' = KVideo" "seq (rt_counters t') = seq (rt_counters t) + of_nat (length pkts)"
    "map rtp_payload pkts = frame_payloads f" "seq_run (seq (rt_counters t)) pkts" "\<forall>p\<in>set pkts. length p \<le> DEFAULT_MTU"
proof -
  obtain pkts where "dispatch R (FVideo codec nals pts key au_end) (rt_counters t) =
       Some (pkts, (rt_counters t)\<lparr>seq := seq (rt_counters t) + of_nat (length pkts)\<rparr>)"
    "map rtp_payload pkts = concat (map (nal_payloads codec) nals)"
    "map rtp_seq pkts = map (\<lambda>i. seq (rt_counters t) + of_nat i) [0..<length pkts]"
    "map rtp_marker pkts = (if nals = [] then [] else replicate (length pkts - 1) False @ [au_end])"
    "\<forall>p\<in>set pkts. length p \<le> DEFAULT_MTU"
    by (rule dispatch_video_packets [OF assms(1)])
  then have p: "dispatch R f (rt_counters t) =
       Some (pkts, (rt_counters t)\<lparr>seq := seq (rt_counters t) + of_nat (length pkts)\<rparr>)"
    "map rtp_payload pkts = frame_payloads f"
    "seq_run (seq (rt_counters t)) pkts" "\<forall>p\<in>set pkts. length p \<le> DEFAULT_MTU"
    by (simp_all add: assms(4) seq_run_def)
  have e: "frame_payloads f = [] \<longleftrightarrow> pkts = []" using p(2) by (metis map_is_Nil_conv)
  let ?t = "count_packets pkts (t\<lparr>rt_counters := (rt_counters t)\<lparr>seq := seq (rt_counters t) + of_nat (length pkts)\<rparr>\<rparr>)"
  have k: "rt_kind ?t = KVideo" using assms(3) by (simp add: count_packets_def)
  show thesis
  proof (rule that)
    show "dispatch_one R ok now f t (Some slot) sent = Some (True,
        ?t\<lparr>rt_last_ts := frame_pts f, rt_last_instant := Some now\<rparr>,
        Some (first_sent slot (seq (rt_counters t)) [f]), sent @ pkts)"
      using p(1) e k assms(4)
      by (simp add: dispatch_one_def send_all_ok [OF assms(2)] first_sent_def Let_def split: option.split)
  qed (use p k in \<open>simp_all add: count_packets_def\<close>)
qed

lemma first_sent_Cons:
  "first_sent (first_sent slot s [f]) s' fs =
     first_sent slot s (f # fs)" if "frame_payloads f = [] \<Longrightarrow> s' = s"
  using that by (auto simp: first_sent_def split: option.splits list.splits)

lemma video_live_spec:
  assumes "rtp_codec R" "\<forall>n. ok n" "ls_track st = Some t" "rt_kind t = KVideo"
  shows "\<exists>st' new. video_live R ok rnd es st = Some st' \<and> ls_sent st' = ls_sent st @ new \<and>
    map rtp_payload new = concat (map frame_payloads (gate (ls_awaiting st) (video_frames es))) \<and>
    seq_run (seq (rt_counters t)) new \<and> (\<forall>p\<in>set new. length p \<le> DEFAULT_MTU) \<and>
    ls_slot st' = first_sent (ls_slot st) (seq (rt_counters t)) (gate (ls_awaiting st) (video_frames es))"
  using assms(3,4)
proof (induction es arbitrary: st t rule: video_frames.induct)
  case (4 codec nals pts key au_end now tracks es)
  let ?f = "FVideo codec nals pts key au_end"
  show ?case
  proof (cases "ls_awaiting st \<and> \<not> key")
    case True
    have upd: "st\<lparr>ls_track := Some t\<rparr> = st" using 4(2) by (cases st) simp
    have "video_live R ok rnd (Recv ?f now tracks # es) st = video_live R ok rnd es st"
      using True 4(2) by (simp add: upd)
    moreover have "gate (ls_awaiting st) (video_frames (Recv ?f now tracks # es)) =
        gate (ls_awaiting st) (video_frames es)" using True by (simp add: gate_def)
    ultimately show ?thesis using 4(1) [OF 4(2,3)] by metis
  next
    case False
    obtain t' pkts where d: "dispatch_one R ok now ?f t (Some (ls_slot st)) (ls_sent st) =
        Some (True, t', Some (first_sent (ls_slot st) (seq (rt_counters t)) [?f]), ls_sent st @ pkts)"
      "rt_kind t' = KVideo" "seq (rt_counters t') = seq (rt_counters t) + of_nat (length pkts)"
      "map rtp_payload pkts = frame_payloads ?f" "seq_run (seq (rt_counters t)) pkts" "\<forall>p\<in>set pkts. length p \<le> DEFAULT_MTU"
      by (rule dispatch_one_video [OF assms(1,2) 4(3) refl])
    let ?st = "\<lparr>ls_track = Some t', ls_awaiting = False, ls_slot = first_sent (ls_slot st) (seq (rt_counters t)) [?f],
      ls_sent = ls_sent st @ pkts\<rparr>"
    have g: "gate (ls_awaiting st) (video_frames (Recv ?f now tracks # es)) = ?f # video_frames es"
      "gate False fs = fs" for fs
      using False by (auto simp: gate_def)
    obtain st' new where i: "video_live R ok rnd es ?st = Some st'" "ls_sent st' = (ls_sent st @ pkts) @ new"
      "map rtp_payload new = concat (map frame_payloads (video_frames es))"
      "seq_run (seq (rt_counters t')) new" "\<forall>p\<in>set new. length p \<le> DEFAULT_MTU"
      "ls_slot st' = first_sent (ls_slot ?st) (seq (rt_counters t')) (video_frames es)"
      using 4(1) [of ?st t'] d(2) g(2) by auto
    have "frame_payloads ?f = [] \<Longrightarrow> seq (rt_counters t') = seq (rt_counters t)"
    proof -
      assume "frame_payloads ?f = []"
      then have "pkts = []" using d(4) by simp
      then show ?thesis using d(3) by simp
    qed
    then have "ls_slot st' = first_sent (ls_slot st) (seq (rt_counters t)) (?f # video_frames es)"
      using i(6) first_sent_Cons [of ?f "seq (rt_counters t')" "seq (rt_counters t)"] by simp
    moreover have "video_live R ok rnd (Recv ?f now tracks # es) st = Some st'"
      using 4(2) False d(1) i(1) by (auto simp: Let_def)
    moreover have "seq_run (seq (rt_counters t)) (pkts @ new)"
      using seq_run_append d(5) i(4) d(3) by simp
    ultimately show ?thesis
      using i d(4,6) g(1) by (intro exI [of _ st'] exI [of _ "pkts @ new"]) auto
  qed
qed (use assms in \<open>auto simp: gate_def seq_run_def first_sent_def split: option.splits\<close>)

lemma replay_nals_ok:
  assumes "\<forall>n. ok n"
  shows "replay_nals R ok codec nals ts c any sent =
    map_option (\<lambda>(pkts, c'). (any \<or> pkts \<noteq> [], c', sent @ pkts)) (dispatch_nals R codec nals ts True c)"
  by (induction nals arbitrary: c any sent)
     (auto simp: send_all_ok [OF assms] split: option.splits prod.splits)

text \<open>The cached key frame as a frame; nothing when the cache has no unit.\<close>

definition replay_frames :: "VideoBurst option \<Rightarrow> Frame list" where
  "replay_frames cached = (case cached of
     None \<Rightarrow> []
   | Some b \<Rightarrow> if iframe_nals b = [] then []
       else [FVideo (vb_codec b) (iframe_nals b) (captured_pts_90khz b) True True])"

text \<open>Where the loop stands when it turns to the live frames: after a replay it waits for a key frame.\<close>

lemma session_start:
  assumes "rtp_codec R" "\<forall>n. ok n" and e: "find (\<lambda>t. tk_kind t = KVideo) tracks = Some e"
  obtains t pkts where
    "video_dispatch_loop R ok rnd tracks cached es = video_live R ok rnd es
       \<lparr>ls_track = Some t, ls_awaiting = (replay_frames cached \<noteq> []), ls_slot = None, ls_sent = pkts\<rparr>"
    "rt_kind t = KVideo" "seq (rt_counters t) = rnd + of_nat (length pkts)"
    "map rtp_payload pkts = concat (map frame_payloads (replay_frames cached))" "seq_run rnd pkts"
    "\<forall>p\<in>set pkts. length p \<le> DEFAULT_MTU"
proof -
  let ?t = "fresh_track e rnd"
  have "tk_kind e = KVideo" using e by (auto simp: find_Some_iff)
  then have t: "build_runtime_for_kind tracks KVideo None rnd = Some ?t" "rt_kind ?t = KVideo" "seq (rt_counters ?t) = rnd"
    using e by (simp_all add: build_runtime_for_kind_def fresh_track_def)
  show ?thesis
  proof (cases "replay_frames cached = []")
    case True
    then have "video_dispatch_loop R ok rnd tracks cached es = video_live R ok rnd es
        \<lparr>ls_track = Some ?t, ls_awaiting = (replay_frames cached \<noteq> []), ls_slot = None, ls_sent = []\<rparr>"
      using t(1) by (cases cached) (auto simp: video_dispatch_loop_def replay_frames_def replay_burst_def split: if_splits)
    then show ?thesis by (rule that) (simp_all add: t True seq_run_def)
  next
    case False
    then obtain b where b: "cached = Some b" "iframe_nals b \<noteq> []"
      by (auto simp: replay_frames_def split: option.splits if_splits)
    let ?f = "FVideo (vb_codec b) (iframe_nals b) (captured_pts_90khz b) True True"
    obtain pkts where p: "dispatch R ?f (rt_counters ?t) =
       Some (pkts, (rt_counters ?t)\<lparr>seq := seq (rt_counters ?t) + of_nat (length pkts)\<rparr>)"
      "map rtp_payload pkts = concat (map (nal_payloads (vb_codec b)) (iframe_nals b))"
      "map rtp_seq pkts = map (\<lambda>i. seq (rt_counters ?t) + of_nat i) [0..<length pkts]"
      "map rtp_marker pkts = (if iframe_nals b = [] then [] else replicate (length pkts - 1) False @ [True])"
      "\<forall>p\<in>set pkts. length p \<le> DEFAULT_MTU"
      by (rule dispatch_video_packets [OF assms(1)])
    have payloads: "map rtp_payload pkts = concat (map frame_payloads (replay_frames cached))"
      using p(2) b by (simp add: replay_frames_def)
    have "pkts \<noteq> []" using payloads b by (auto simp: replay_frames_def)
    then have "video_dispatch_loop R ok rnd tracks cached es = video_live R ok rnd es
        \<lparr>ls_track = Some (?t\<lparr>rt_counters := (rt_counters ?t)\<lparr>seq := rnd + of_nat (length pkts)\<rparr>\<rparr>),
          ls_awaiting = (replay_frames cached \<noteq> []), ls_slot = None, ls_sent = pkts\<rparr>"
      using p(1) t b False by (auto simp: video_dispatch_loop_def replay_burst_def replay_nals_ok [OF assms(2)])
    then show ?thesis by (rule that) (use p(3,5) t payloads in \<open>simp_all add: seq_run_def\<close>)
  qed
qed

text \<open>
  C7. A session sends the cached key frame and then the live video from the next key frame on: a decoder
  that joins never gets a frame before its reference. The packets carry exactly the payloads of
  these frames, their sequence numbers are consecutive over the seam, and none exceeds the MTU. The
  slot that PLAY reports in \<open>RTP-Info\<close> names the first live packet.
\<close>

theorem session_video_stream:
  assumes "rtp_codec R" "\<forall>n. ok n" and "find (\<lambda>t. tk_kind t = KVideo) tracks = Some e"
  shows "\<exists>st. video_dispatch_loop R ok rnd tracks cached es = Some st \<and>
    (let replay = replay_frames cached; live = gate (replay \<noteq> []) (video_frames es)
     in map rtp_payload (ls_sent st) = concat (map frame_payloads (replay @ live)) \<and>
        map rtp_seq (ls_sent st) = map (\<lambda>i. rnd + of_nat i) [0..<length (ls_sent st)] \<and>
        (\<forall>p\<in>set (ls_sent st). length p \<le> DEFAULT_MTU) \<and>
        ls_slot st = first_sent None (rnd + of_nat (length (concat (map frame_payloads replay)))) live)"
proof -
  obtain t pkts where start: "video_dispatch_loop R ok rnd tracks cached es = video_live R ok rnd es
       \<lparr>ls_track = Some t, ls_awaiting = (replay_frames cached \<noteq> []), ls_slot = None, ls_sent = pkts\<rparr>"
    "rt_kind t = KVideo" "seq (rt_counters t) = rnd + of_nat (length pkts)"
    "map rtp_payload pkts = concat (map frame_payloads (replay_frames cached))" "seq_run rnd pkts"
    "\<forall>p\<in>set pkts. length p \<le> DEFAULT_MTU"
    by (rule session_start [OF assms])
  let ?st = "\<lparr>ls_track = Some t, ls_awaiting = (replay_frames cached \<noteq> []), ls_slot = None, ls_sent = pkts\<rparr>"
  obtain st' new where "video_live R ok rnd es ?st = Some st'" "ls_sent st' = pkts @ new"
    "map rtp_payload new = concat (map frame_payloads (gate (replay_frames cached \<noteq> []) (video_frames es)))"
    "seq_run (rnd + of_nat (length pkts)) new" "\<forall>p\<in>set new. length p \<le> DEFAULT_MTU"
    "ls_slot st' = first_sent None (rnd + of_nat (length pkts)) (gate (replay_frames cached \<noteq> []) (video_frames es))"
    using video_live_spec [OF assms(1,2), where st = ?st and t = t and rnd = rnd and es = es] start(2,3) by auto
  moreover have "length pkts = length (concat (map frame_payloads (replay_frames cached)))" using start(4) by (metis length_map)
  ultimately show ?thesis
    using seq_run_append [OF start(5)] start(1,4,6) by (intro exI [of _ st']) (auto simp: Let_def seq_run_def)
qed

definition std_track :: TrackEntry where
  "std_track = \<lparr>tk_kind = KVideo, tk_transport = TcpTransport 0 1, tk_ssrc = 7, tk_clock = 90000\<rparr>"

theorem session_video_stream_witness:
  "\<exists>st. video_dispatch_loop std_rtp (\<lambda>_. True) 0xffff [std_track] (Some (burst0\<lparr>iframe_nals := [[0x65, 1]]\<rparr>))
      [Recv (FVideo CH264 [[0x41, 2]] 10 False True) 0 [], Recv (FVideo CH264 [[0x65, 3]] 20 True True) 0 [],
       Recv (FVideo CH264 [[0x41, 4]] 30 False True) 0 [], Stop] = Some st \<and>
    map rtp_seq (ls_sent st) = map (\<lambda>i. 0xffff + of_nat i) [0..<length (ls_sent st)] \<and>
    map rtp_payload (ls_sent st) = [[0x65, 1], [0x65, 3], [0x41, 4]] \<and> ls_slot st = Some (0, 20)"
  using session_video_stream [OF std_rtp.rtp_codec_axioms, of "\<lambda>_. True" "[std_track]" std_track "0xffff"
      "Some (burst0\<lparr>iframe_nals := [[0x65, 1]]\<rparr>)"
      "[Recv (FVideo CH264 [[0x41, 2]] 10 False True) 0 [], Recv (FVideo CH264 [[0x65, 3]] 20 True True) 0 [],
       Recv (FVideo CH264 [[0x41, 4]] 30 False True) 0 [], Stop]"]
  by (auto simp: std_track_def replay_frames_def burst0_def gate_def first_sent_def nal_payloads_def DEFAULT_MTU_def Let_def)

section \<open>Interleaving on the TCP connection\<close>

text \<open>The client's reading of the connection: frames until the bytes do not start one.\<close>

function read_frames :: "bytes \<Rightarrow> (u8 \<times> bytes) list" where
  "read_frames bs =
     (case bs of
        m # ch # a # b # r \<Rightarrow>
          (let n = unat (from_le [b, a] :: u16)
           in if m = 0x24 \<and> n \<le> length r then (ch, take n r) # read_frames (drop n r) else [])
      | _ \<Rightarrow> [])"
  by pat_completeness auto
termination
  by (relation "measure length") auto

declare read_frames.simps [simp del]

lemma read_frames_write:
  assumes "write_framed ch p = Some f"
  shows "read_frames (f @ rest) = (ch, p) # read_frames rest"
proof -
  let ?w = "of_nat (length p) :: u16"
  have len: "length p \<le> 65535" and f: "f = [0x24, ch] @ to_be16 ?w @ p"
    using assms by (auto simp: write_framed_def split: if_splits)
  have "unat ?w = length p" using len by (simp add: unat_of_nat take_bit_nat_eq_self)
  moreover have "from_le [ucast ?w, ucast (drop_bit 8 ?w)] = ?w"
    using from_to_le16 [of ?w] by (simp add: to_le16_def)
  ultimately show ?thesis
    by (subst read_frames.simps) (simp add: f to_be16_def to_le16_def Let_def)
qed

text \<open>
  The frames of the video and the audio loop never tear each other. Whatever packets of at most 64
  KiB the loops of a connection send, in whatever order their sends take the writer, the client reads
  back exactly these packets with their channels, in that order; a larger packet is refused whole.
\<close>

theorem interleaved_roundtrip:
  "read_frames (concat (map (\<lambda>(ch, p). case write_framed ch p of Some f \<Rightarrow> f | None \<Rightarrow> []) sends)) =
   filter (\<lambda>(_, p). length p \<le> 65535) sends"
proof (induction sends)
  case Nil
  then show ?case by (simp add: read_frames.simps)
next
  case (Cons s sends)
  obtain ch p where s: "s = (ch, p)" by (cases s)
  show ?case
  proof (cases "write_framed ch p")
    case None
    then show ?thesis using Cons s by (simp add: write_framed_def split: if_splits)
  next
    case (Some f)
    then have "length p \<le> 65535" by (simp add: write_framed_def split: if_splits)
    then show ?thesis using Cons s Some read_frames_write [OF Some] by simp
  qed
qed

end
