(* ===== verification/Rust_Num.thy ===== *)
theory Rust_Num
  imports Rust_Str Complex_Main
begin

text \<open>
  Floating-point numbers, durations and numbers in text as the Rust standard library has them. A finite
  float is the rational it stands for (the sign of zero never matters here), a \<open>Duration\<close> its
  nanoseconds; what panics is \<open>None\<close>.
\<close>

section \<open>Floating-point numbers\<close>

datatype ieee = NaN | Inf bool | Fin rat

fun is_finite :: "ieee \<Rightarrow> bool" where
  "is_finite (Fin _) = True"
| "is_finite _ = False"

text \<open>Comparisons with a constant: with \<open>NaN\<close> they are all false. \<open>Inf True\<close> is negative infinity.\<close>

fun fl_less :: "ieee \<Rightarrow> rat \<Rightarrow> bool" where
  "fl_less NaN c = False"
| "fl_less (Inf neg) c = neg"
| "fl_less (Fin r) c = (r < c)"

fun fl_le :: "ieee \<Rightarrow> rat \<Rightarrow> bool" where
  "fl_le NaN c = False"
| "fl_le (Inf neg) c = neg"
| "fl_le (Fin r) c = (r \<le> c)"

text \<open>To the nearest integer, ties to the even one; \<open>f32::round\<close> takes ties away from zero.\<close>

definition round_even :: "rat \<Rightarrow> int" where
  "round_even x =
     (let f = \<lfloor>x\<rfloor>; d = x - of_int f
      in if d < 1/2 then f else if 1/2 < d then f + 1 else if even f then f else f + 1)"

lemma round_even_ge: "of_int k \<le> x \<Longrightarrow> k \<le> round_even x"
  using le_floor_iff [of k x] by (auto simp: round_even_def Let_def)

lemma round_even_of_int [simp]: "round_even (of_int k) = k"
  by (simp add: round_even_def)

definition round_away :: "rat \<Rightarrow> int" where
  "round_away x = (if 0 \<le> x then \<lfloor>x + 1/2\<rfloor> else - \<lfloor>1/2 - x\<rfloor>)"

function bits_of :: "int \<Rightarrow> nat" where
  "bits_of n = (if n \<le> 0 then 0 else Suc (bits_of (n div 2)))"
  by pat_completeness auto
termination by (relation "measure nat") auto

declare bits_of.simps [simp del]

text \<open>The nearest \<open>f32\<close> of a rational: 24 bits of precision, exponents from -149 on.\<close>

definition round32 :: "rat \<Rightarrow> ieee" where
  "round32 x =
     (let shift = bits_of \<lfloor>\<bar>x\<bar> * 2 ^ 149\<rfloor> - 24;
          m = round_even (\<bar>x\<bar> * 2 ^ 149 / 2 ^ shift);
          y = of_int m * 2 ^ shift / 2 ^ 149
      in if 2 ^ 128 \<le> y then Inf (x < 0) else Fin (if x < 0 then - y else y))"

text \<open>\<open>as u32\<close> saturates and sends \<open>NaN\<close> to zero.\<close>

fun as_u32 :: "ieee \<Rightarrow> nat" where
  "as_u32 NaN = 0"
| "as_u32 (Inf neg) = (if neg then 0 else 2 ^ 32 - 1)"
| "as_u32 (Fin r) = min (2 ^ 32 - 1) (nat \<lfloor>r\<rfloor>)"

section \<open>Durations\<close>

definition NANOS_PER_SEC :: nat where "NANOS_PER_SEC = 1000000000"

definition DURATION_MAX :: nat where "DURATION_MAX = 2 ^ 64 * NANOS_PER_SEC - 1"

text \<open>\<open>Duration::from_secs_f64\<close> and \<open>from_secs_f32\<close>.\<close>

fun from_secs_float :: "ieee \<Rightarrow> nat option" where
  "from_secs_float (Fin r) =
     (if r < 0 \<or> 2 ^ 64 \<le> r then None else Some (nat (round_even (r * 1000000000))))"
| "from_secs_float _ = None"

definition duration_add :: "nat \<Rightarrow> nat \<Rightarrow> nat option" where
  "duration_add a b = (if a + b \<le> DURATION_MAX then Some (a + b) else None)"

lemma from_secs_float_iff: "(\<exists>d. from_secs_float x = Some d) \<longleftrightarrow> is_finite x \<and> \<not> fl_less x 0 \<and> fl_less x (2 ^ 64)"
  by (cases x) auto

section \<open>Numbers in text\<close>

definition is_digit :: "char \<Rightarrow> bool" where "is_digit c \<longleftrightarrow> 48 \<le> code c \<and> code c \<le> 57"

definition digits_value :: "string \<Rightarrow> nat" where
  "digits_value s = fold (\<lambda>c n. 10 * n + (code c - 48)) s 0"

text \<open>An optional sign and what follows it.\<close>

definition take_sign :: "string \<Rightarrow> bool \<times> string" where
  "take_sign s = (case s of
     [] \<Rightarrow> (False, [])
   | c # r \<Rightarrow> if c = CHR ''-'' then (True, r) else if c = CHR ''+'' then (False, r) else (False, s))"

text \<open>The exponent that ends a number: absent, or a sign and digits.\<close>

definition parse_exponent :: "string \<Rightarrow> int option" where
  "parse_exponent s = (case s of
     [] \<Rightarrow> Some 0
   | c # r \<Rightarrow>
       if c = CHR ''e'' \<or> c = CHR ''E''
       then (case take_sign r of (neg, ds) \<Rightarrow>
               if ds \<noteq> [] \<and> list_all is_digit ds
               then Some (if neg then - int (digits_value ds) else int (digits_value ds)) else None)
       else None)"

definition scale10 :: "rat \<Rightarrow> int \<Rightarrow> rat" where
  "scale10 m e = (if 0 \<le> e then m * 10 ^ nat e else m / 10 ^ nat (- e))"

definition parse_decimal :: "string \<Rightarrow> rat option" where
  "parse_decimal s =
     (let ip = takeWhile is_digit s; r = dropWhile is_digit s;
          dot = r \<noteq> [] \<and> hd r = CHR ''.'';
          fp = (if dot then takeWhile is_digit (tl r) else []);
          r' = (if dot then dropWhile is_digit (tl r) else r)
      in if ip = [] \<and> fp = [] then None
         else map_option (\<lambda>e. scale10 (of_nat (digits_value (ip @ fp))) (e - int (length fp))) (parse_exponent r'))"

text \<open>\<open>str::parse::<f32>\<close>.\<close>

definition parse_f32 :: "string \<Rightarrow> ieee option" where
  "parse_f32 s =
     (case take_sign s of (neg, r) \<Rightarrow>
        if to_ascii_lowercase r \<in> {''inf'', ''infinity''} then Some (Inf neg)
        else if to_ascii_lowercase r = ''nan'' then Some NaN
        else map_option (\<lambda>x. round32 (if neg then - x else x)) (parse_decimal r))"

end
