(* ===== verification/Config.thy ===== *)
theory Config
  imports Rust_Num Wake_Server
begin

text \<open>
  The configuration (\<open>src/config.rs\<close>): the parsed structures, the scanner for misplaced keys, the load
  pipeline, the validation and the start-up warnings. The TOML and JSON readers are parameters; error and
  warning texts are constructors that carry what the text names.
\<close>

section \<open>Structures\<close>

datatype TlsClientAuth = AuthNone | AuthRequest | AuthRequire

datatype StreamConfig = StreamNone | StreamAll | StreamMain | StreamSub | StreamExtern

datatype DiscoveryMethod = Local | Remote | Map | Relay | Cellular | Cloud

datatype MaxEncryption = EncNone | EncAes | EncBcEncrypt

datatype Feature = FFloodlight | FCamera | FMotion | FLed | FIr | FReboot | FPt | FPtPreset | FBattery | FSiren | FPir

definition Feature_ALL :: "Feature list" where
  "Feature_ALL = [FFloodlight, FCamera, FMotion, FLed, FIr, FReboot, FPt, FPtPreset, FBattery, FSiren, FPir]"

record PushListenerConfig =
  pl_enable :: bool
  push_listener_addr :: "string option"
  push_listener_port :: u16
  pl_motion_wake_hold_secs :: ieee

record UserConfig =
  user_name :: string
  user_pass :: string

record MqttDiscoveryConfig =
  disc_topic :: string
  features :: "Feature list"

record MqttServerConfig =
  broker_addr :: string
  broker_port :: u16
  credentials :: "(string \<times> string) option"
  ca :: "string option"
  client_auth :: "(string \<times> string) option"
  topic_prefix :: string
  mqtt_discovery :: "MqttDiscoveryConfig option"

record MqttConfig =
  enable_motion :: bool
  enable_light :: bool
  enable_battery :: bool
  battery_update :: u64
  enable_preview :: bool
  preview_update :: u64
  enable_floodlight :: bool
  floodlight_update :: u64
  enable_pir :: bool
  cam_discovery :: "MqttDiscoveryConfig option"

record PauseConfig =
  bridge_gaps :: bool
  gap_threshold_secs :: ieee
  preview_overlay :: bool
  on_motion :: "bool option"
  on_client :: "bool option"
  on_disconnect :: "bool option"
  motion_timeout :: "ieee option"
  pause_mode :: "string option"
  pause_timeout :: "ieee option"

text \<open>The fields that only serve migration are kept: the warnings read them.\<close>

record CameraConfig =
  cam_name :: string
  cam_address :: "string option"
  cam_uid :: "string option"
  cam_username :: string
  cam_password :: "string option"
  cam_cloud_account :: "string option"
  cam_cloud_password :: "string option"
  cloud_mfa_trust_token :: "string option"
  cloud_refresh_token :: "string option"
  channel_idx :: u8
  stream :: StreamConfig
  discovery :: DiscoveryMethod
  max_encryption :: MaxEncryption
  idle_disconnect :: bool
  idle_disconnect_timeout_secs :: "ieee option"
  motion_wake_hold_secs :: ieee
  cam_enabled :: bool
  cam_mqtt :: MqttConfig
  pause :: PauseConfig
  cam_permitted_users :: "string list"
  cam_debug :: "bool option"
  print_format :: "string option"
  update_time :: "bool option"
  buffer_duration :: "u64 option"
  use_splash :: "bool option"
  splash_pattern :: "string option"
  max_discovery_retries :: "u64 option"
  push_notifications :: "bool option"
  cam_strict :: "bool option"

record Config =
  bind_addr :: string
  bind_port :: u16
  certificate :: "string option"
  tls_client_auth :: TlsClientAuth
  tls_bind_port :: "u16 option"
  tls_client_ca :: "string option"
  users :: "UserConfig list"
  mqtt :: "MqttServerConfig option"
  wake_server :: "WakeServerConfig option"
  push_listener :: "PushListenerConfig option"
  tokio_console :: "bool option"
  stream_prune_grace_secs :: u64
  cloud_account :: "string option"
  cloud_password :: "string option"
  cameras :: "CameraConfig list"

definition default_motion_wake_hold_secs :: ieee where "default_motion_wake_hold_secs = Fin 30"

definition default_gap_threshold :: ieee where "default_gap_threshold = Fin 3"

definition default_topic_prefix :: string where "default_topic_prefix = ''bairelay''"

definition PushListenerConfig_default :: PushListenerConfig where
  "PushListenerConfig_default = \<lparr>pl_enable = False, push_listener_addr = None, push_listener_port = 443,
     pl_motion_wake_hold_secs = default_motion_wake_hold_secs\<rparr>"

definition MqttServerConfig_default :: MqttServerConfig where
  "MqttServerConfig_default = \<lparr>broker_addr = [], broker_port = 1883, credentials = None, ca = None, client_auth = None,
     topic_prefix = default_topic_prefix, mqtt_discovery = None\<rparr>"

definition MqttConfig_default :: MqttConfig where
  "MqttConfig_default = \<lparr>enable_motion = True, enable_light = True, enable_battery = True, battery_update = 2000,
     enable_preview = True, preview_update = 2000, enable_floodlight = False, floodlight_update = 2000,
     enable_pir = False, cam_discovery = None\<rparr>"

definition PauseConfig_default :: PauseConfig where
  "PauseConfig_default = \<lparr>bridge_gaps = True, gap_threshold_secs = default_gap_threshold, preview_overlay = True,
     on_motion = None, on_client = None, on_disconnect = None, motion_timeout = None, pause_mode = None,
     pause_timeout = None\<rparr>"

definition CameraConfig_default :: CameraConfig where
  "CameraConfig_default = \<lparr>cam_name = [], cam_address = None, cam_uid = None, cam_username = [], cam_password = None,
     cam_cloud_account = None, cam_cloud_password = None, cloud_mfa_trust_token = None, cloud_refresh_token = None,
     channel_idx = 0, stream = StreamAll, discovery = Relay, max_encryption = EncAes, idle_disconnect = False,
     idle_disconnect_timeout_secs = None, motion_wake_hold_secs = default_motion_wake_hold_secs, cam_enabled = True,
     cam_mqtt = MqttConfig_default, pause = PauseConfig_default, cam_permitted_users = [], cam_debug = None,
     print_format = None, update_time = None, buffer_duration = None, use_splash = None, splash_pattern = None,
     max_discovery_retries = None, push_notifications = None, cam_strict = None\<rparr>"

definition Config_default :: Config where
  "Config_default = \<lparr>bind_addr = ''0.0.0.0'', bind_port = 8554, certificate = None, tls_client_auth = AuthNone,
     tls_bind_port = None, tls_client_ca = None, users = [], mqtt = None, wake_server = None, push_listener = None,
     tokio_console = None, stream_prune_grace_secs = 30, cloud_account = None, cloud_password = None, cameras = []\<rparr>"

section \<open>Misplaced keys\<close>

datatype toml =
    TTable "(string \<times> toml) list"
  | TArray "toml list"
  | TString string
  | TInteger int
  | TFloat ieee
  | TBoolean bool
  | TDatetime string

fun is_table :: "toml \<Rightarrow> bool" where
  "is_table (TTable _) = True"
| "is_table _ = False"

fun is_scalar :: "toml \<Rightarrow> bool" where
  "is_scalar (TTable _) = False"
| "is_scalar (TArray _) = False"
| "is_scalar _ = True"

definition TOP_LEVEL_SCALAR_KEYS :: "string list" where
  "TOP_LEVEL_SCALAR_KEYS = [''bind'', ''bind_addr'', ''bind_port'', ''certificate'', ''tls_bind_port'',
     ''tls_client_auth'', ''tls_client_ca'', ''tokio_console'', ''stream_prune_grace_secs'']"

definition index_path :: "string \<Rightarrow> nat \<Rightarrow> string" where
  "index_path path i = path @ ''['' @ show_nat i @ '']''"

fun walk_for_misplaced :: "string \<Rightarrow> toml \<Rightarrow> (string \<times> string) list"
and walk_entries :: "string \<Rightarrow> (string \<times> toml) list \<Rightarrow> (string \<times> string) list"
and walk_items :: "string \<Rightarrow> nat \<Rightarrow> toml list \<Rightarrow> (string \<times> string) list" where
  "walk_for_misplaced path (TTable t) = walk_entries path t"
| "walk_for_misplaced path (TArray arr) = walk_items path 0 arr"
| "walk_for_misplaced path _ = []"
| "walk_entries path [] = []"
| "walk_entries path ((k, v) # t) =
     (case v of
        TTable _ \<Rightarrow> walk_for_misplaced (path @ ''.'' @ k) v
      | TArray arr \<Rightarrow> walk_items (path @ ''.'' @ k) 0 arr
      | _ \<Rightarrow> if k \<in> set TOP_LEVEL_SCALAR_KEYS then [(path, k)] else []) @ walk_entries path t"
| "walk_items path i [] = []"
| "walk_items path i (item # items) =
     (if is_table item then walk_for_misplaced (index_path path i) item else []) @ walk_items path (i + 1) items"

datatype invalid_config =
    Misplaced "(string \<times> string) list"
  | ParseFailed
  | BindPortZero
  | TlsPortZero
  | ListenPortsEqual u16 u16
  | ClientCaMissing TlsClientAuth
  | ClientAuthWithoutCertificate
  | TopicPrefixEmpty
  | TopicPrefixChars string
  | DiscoveryTopicEmpty
  | DiscoveryTopicSlash string
  | UserNameEmpty nat
  | UserPassEmpty string
  | DuplicateUser string
  | CameraNameEmpty nat
  | CameraNameChars string
  | DuplicateCamera string
  | PasswordMissing string
  | CloudAccountMissing string
  | CloudUidMissing string
  | NoAddress string
  | BatteryUpdate string u64
  | PreviewUpdate string u64
  | FloodlightUpdate string u64
  | GapThreshold string ieee
  | IdleTimeout string ieee
  | PauseTimeout string ieee
  | MotionHold string ieee
  | PushHold ieee
  | PushPortZero
  | PushNeedsWakeServer
  | UnknownPermittedUser string string

definition validate_top_level_key_placement :: "toml \<Rightarrow> invalid_config + unit" where
  "validate_top_level_key_placement v = (case v of
     TTable entries \<Rightarrow>
       (let misplaced = concat (map (\<lambda>(key, child). walk_for_misplaced key child) entries)
        in if misplaced = [] then Ok () else Err (Misplaced misplaced))
   | _ \<Rightarrow> Ok ())"

section \<open>Loading\<close>

text \<open>\<open>toml_from_str\<close> and \<open>try_into\<close> are the TOML reader and the deserialiser.\<close>

definition parse_config ::
  "(string \<Rightarrow> toml option) \<Rightarrow> (toml \<Rightarrow> Config option) \<Rightarrow> string \<Rightarrow> invalid_config + Config" where
  "parse_config toml_from_str try_into s =
     (case toml_from_str s of
        None \<Rightarrow> Err ParseFailed
      | Some v \<Rightarrow>
          (case validate_top_level_key_placement v of
             Inl e \<Rightarrow> Err e
           | Inr _ \<Rightarrow>
               (case try_into v of
                  None \<Rightarrow> Err ParseFailed
                | Some config \<Rightarrow>
                    Ok (config\<lparr>cameras := map (\<lambda>cam. cam\<lparr>cam_cloud_account := cloud_account config,
                          cam_cloud_password := cloud_password config\<rparr>) (cameras config)\<rparr>))))"

record CloudAuth =
  account :: string
  mfa_trust_token :: "string option"
  refresh_token :: "string option"
  expiry_unix_s :: int

definition CACHE_MARGIN_SECS :: int where "CACHE_MARGIN_SECS = 120"

definition auth_is_valid :: "CloudAuth \<Rightarrow> int \<Rightarrow> bool" where
  "auth_is_valid a now \<longleftrightarrow> (mfa_trust_token a \<noteq> None \<or> refresh_token a \<noteq> None) \<and> expiry_unix_s a - CACHE_MARGIN_SECS > now"

text \<open>\<open>auth\<close> is what the file beside the configuration holds, \<open>None\<close> when it is missing or malformed.\<close>

definition apply_cloud_auth :: "CloudAuth option \<Rightarrow> int \<Rightarrow> Config \<Rightarrow> Config" where
  "apply_cloud_auth auth now config = (case auth of
     None \<Rightarrow> config
   | Some a \<Rightarrow>
       if cloud_account config \<noteq> Some (account a) then config
       else if \<not> auth_is_valid a now then config
       else config\<lparr>cameras := map (\<lambda>cam.
              if discovery cam = Cloud
              then cam\<lparr>cloud_mfa_trust_token := mfa_trust_token a, cloud_refresh_token := refresh_token a\<rparr>
              else cam) (cameras config)\<rparr>)"

datatype ConfigLoadError = NotFound | ReadError | ParseError invalid_config | ValidateError invalid_config

text \<open>Reading a file finds none, fails, or gives its text.\<close>

datatype file_read = FileMissing | FileError | FileText string

definition parse_config_file ::
  "(string \<Rightarrow> toml option) \<Rightarrow> (toml \<Rightarrow> Config option) \<Rightarrow> file_read \<Rightarrow> ConfigLoadError + Config" where
  "parse_config_file toml_from_str try_into f = (case f of
     FileMissing \<Rightarrow> Err NotFound
   | FileError \<Rightarrow> Err ReadError
   | FileText s \<Rightarrow> (case parse_config toml_from_str try_into s of Inl e \<Rightarrow> Err (ParseError e) | Inr c \<Rightarrow> Ok c))"

section \<open>Validation\<close>

text \<open>A sequence of checks that each return early with an error.\<close>

definition reject :: "bool \<Rightarrow> 'e \<Rightarrow> 'e + unit" where "reject b e = (if b then Err e else Ok ())"

fun checks :: "('e + unit) list \<Rightarrow> 'e + unit" where
  "checks [] = Ok ()"
| "checks (r # rs) = (case r of Inl e \<Rightarrow> Err e | Inr _ \<Rightarrow> checks rs)"

definition topic_safe :: "string \<Rightarrow> bool" where
  "topic_safe s \<longleftrightarrow> (\<forall>c\<in>set s. (48 \<le> code c \<and> code c \<le> 57) \<or> (65 \<le> code c \<and> code c \<le> 90) \<or>
     (97 \<le> code c \<and> code c \<le> 122) \<or> c = CHR ''_'' \<or> c = CHR ''-'')"

definition DEFAULT_TLS_BIND_PORT :: u16 where "DEFAULT_TLS_BIND_PORT = 8555"

definition tls_port :: "Config \<Rightarrow> u16" where
  "tls_port config = (case tls_bind_port config of Some p \<Rightarrow> p | None \<Rightarrow> DEFAULT_TLS_BIND_PORT)"

definition validate_tls :: "Config \<Rightarrow> invalid_config + unit" where
  "validate_tls config =
     (if certificate config \<noteq> None
      then checks
        [reject (tls_port config = 0) TlsPortZero,
         reject (bind_port config \<noteq> 0 \<and> bind_port config = tls_port config)
           (ListenPortsEqual (bind_port config) (tls_port config)),
         reject (tls_client_auth config \<in> {AuthRequest, AuthRequire} \<and> tls_client_ca config = None)
           (ClientCaMissing (tls_client_auth config))]
      else reject (tls_client_auth config \<in> {AuthRequest, AuthRequire}) ClientAuthWithoutCertificate)"

definition validate_mqtt :: "MqttServerConfig \<Rightarrow> invalid_config + unit" where
  "validate_mqtt m = checks
     ([reject (topic_prefix m = []) TopicPrefixEmpty,
       reject (\<not> topic_safe (topic_prefix m)) (TopicPrefixChars (topic_prefix m))] @
      (case mqtt_discovery m of
         None \<Rightarrow> []
       | Some d \<Rightarrow> [reject (disc_topic d = []) DiscoveryTopicEmpty,
                    reject (CHR ''/'' \<in> set (disc_topic d)) (DiscoveryTopicSlash (disc_topic d))]))"

fun validate_users :: "nat \<Rightarrow> string set \<Rightarrow> UserConfig list \<Rightarrow> invalid_config + unit" where
  "validate_users i seen [] = Ok ()"
| "validate_users i seen (u # us) =
     (case checks [reject (trim (user_name u) = []) (UserNameEmpty i),
                   reject (user_pass u = []) (UserPassEmpty (user_name u)),
                   reject (user_name u \<in> seen) (DuplicateUser (user_name u))] of
        Inl e \<Rightarrow> Err e
      | Inr _ \<Rightarrow> validate_users (i + 1) (insert (user_name u) seen) us)"

text \<open>A number of seconds that must be finite, and positive or not negative.\<close>

definition bad_positive :: "ieee \<Rightarrow> bool" where "bad_positive x \<longleftrightarrow> \<not> is_finite x \<or> fl_le x 0"

definition bad_nonneg :: "ieee \<Rightarrow> bool" where "bad_nonneg x \<longleftrightarrow> \<not> is_finite x \<or> fl_less x 0"

definition validate_camera :: "nat \<Rightarrow> string set \<Rightarrow> CameraConfig \<Rightarrow> invalid_config + unit" where
  "validate_camera i names cam =
     (let n = cam_name cam; m = cam_mqtt cam; p = pause cam
      in checks
        ([reject (trim n = []) (CameraNameEmpty i),
          reject (\<not> topic_safe n) (CameraNameChars n),
          reject (n \<in> names) (DuplicateCamera n),
          reject (cam_password cam = None \<and> discovery cam \<noteq> Cloud) (PasswordMissing n),
          reject (discovery cam = Cloud \<and> (cam_cloud_account cam = None \<or> cam_cloud_password cam = None))
            (CloudAccountMissing n),
          reject (discovery cam = Cloud \<and> cam_uid cam = None) (CloudUidMissing n),
          reject (cam_address cam = None \<and> cam_uid cam = None) (NoAddress n),
          reject (battery_update m < 500) (BatteryUpdate n (battery_update m)),
          reject (preview_update m < 500) (PreviewUpdate n (preview_update m)),
          reject (floodlight_update m < 500) (FloodlightUpdate n (floodlight_update m)),
          reject (bridge_gaps p \<and> bad_positive (gap_threshold_secs p)) (GapThreshold n (gap_threshold_secs p))] @
         (case idle_disconnect_timeout_secs cam of None \<Rightarrow> [] | Some t \<Rightarrow> [reject (bad_positive t) (IdleTimeout n t)]) @
         (case pause_timeout p of None \<Rightarrow> [] | Some t \<Rightarrow> [reject (bad_positive t) (PauseTimeout n t)]) @
         [reject (bad_nonneg (motion_wake_hold_secs cam)) (MotionHold n (motion_wake_hold_secs cam))]))"

fun validate_cameras :: "nat \<Rightarrow> string set \<Rightarrow> CameraConfig list \<Rightarrow> invalid_config + unit" where
  "validate_cameras i names [] = Ok ()"
| "validate_cameras i names (cam # cams) =
     (case validate_camera i names cam of
        Inl e \<Rightarrow> Err e
      | Inr _ \<Rightarrow> validate_cameras (i + 1) (insert (cam_name cam) names) cams)"

definition validate_push :: "Config \<Rightarrow> invalid_config + unit" where
  "validate_push config = (case push_listener config of
     None \<Rightarrow> Ok ()
   | Some pl \<Rightarrow>
       if pl_enable pl
       then checks
         [reject (bad_nonneg (pl_motion_wake_hold_secs pl)) (PushHold (pl_motion_wake_hold_secs pl)),
          reject (push_listener_port pl = 0) PushPortZero,
          reject (\<not> (case wake_server config of None \<Rightarrow> False | Some w \<Rightarrow> enable w)) PushNeedsWakeServer]
       else Ok ())"

definition validate_permitted :: "Config \<Rightarrow> invalid_config + unit" where
  "validate_permitted config =
     checks (concat (map (\<lambda>cam. map (\<lambda>pu.
       reject (pu \<notin> user_name ` set (users config)) (UnknownPermittedUser (cam_name cam) pu)) (cam_permitted_users cam))
       (cameras config)))"

definition validate_config :: "Config \<Rightarrow> invalid_config + unit" where
  "validate_config config = checks
     [reject (bind_port config = 0 \<and> certificate config = None) BindPortZero,
      validate_tls config,
      (case mqtt config of None \<Rightarrow> Ok () | Some m \<Rightarrow> validate_mqtt m),
      validate_users 0 {} (users config),
      validate_cameras 0 {} (cameras config),
      validate_push config,
      validate_permitted config]"

definition load_config ::
  "(string \<Rightarrow> toml option) \<Rightarrow> (toml \<Rightarrow> Config option) \<Rightarrow> file_read \<Rightarrow> CloudAuth option \<Rightarrow> int \<Rightarrow> ConfigLoadError + Config" where
  "load_config toml_from_str try_into f auth now =
     (case parse_config_file toml_from_str try_into f of
        Inl e \<Rightarrow> Err e
      | Inr parsed \<Rightarrow>
          (let config = apply_cloud_auth auth now parsed
           in case validate_config config of Inl e \<Rightarrow> Err (ValidateError e) | Inr _ \<Rightarrow> Ok config))"

section \<open>Warnings and the idle timeout\<close>

datatype warning_text =
    OnMotionDeprecated | OnClientDeprecated | OnDisconnectDeprecated | MotionTimeoutDeprecated | ModeDeprecated
  | TimeoutOverridden | TimeoutMapped ieee
  | TokioConsole | PrintFormat | UpdateTime | BufferDuration | UseSplash | SplashPattern | MaxDiscoveryRetries
  | PushNotifications | StrictMode | CameraDiscovery | WireDebug
  | IdleBelowPrune nat nat nat
  | UsersWithoutTls

record ConfigWarning =
  warn_camera :: "string option"
  warn_message :: warning_text

definition cam_warn :: "CameraConfig \<Rightarrow> warning_text \<Rightarrow> ConfigWarning" where
  "cam_warn cam msg = \<lparr>warn_camera = Some (cam_name cam), warn_message = msg\<rparr>"

definition warn_deprecated_pause_fields :: "Config \<Rightarrow> ConfigWarning list" where
  "warn_deprecated_pause_fields config = concat (map (\<lambda>cam.
     let p = pause cam
     in map (cam_warn cam)
       ((if on_motion p \<noteq> None then [OnMotionDeprecated] else []) @
        (if on_client p \<noteq> None then [OnClientDeprecated] else []) @
        (if on_disconnect p \<noteq> None then [OnDisconnectDeprecated] else []) @
        (if motion_timeout p \<noteq> None then [MotionTimeoutDeprecated] else []) @
        (if pause_mode p \<noteq> None then [ModeDeprecated] else []) @
        (case pause_timeout p of
           None \<Rightarrow> []
         | Some t \<Rightarrow> if idle_disconnect_timeout_secs cam \<noteq> None then [TimeoutOverridden] else [TimeoutMapped t])))
     (cameras config))"

definition warn_neolink_compat_fields :: "Config \<Rightarrow> ConfigWarning list" where
  "warn_neolink_compat_fields config =
     (if tokio_console config \<noteq> None then [\<lparr>warn_camera = None, warn_message = TokioConsole\<rparr>] else []) @
     concat (map (\<lambda>cam. map (cam_warn cam)
       ((if print_format cam \<noteq> None then [PrintFormat] else []) @
        (if update_time cam \<noteq> None then [UpdateTime] else []) @
        (if buffer_duration cam \<noteq> None then [BufferDuration] else []) @
        (if use_splash cam \<noteq> None then [UseSplash] else []) @
        (if splash_pattern cam \<noteq> None then [SplashPattern] else []) @
        (if max_discovery_retries cam \<noteq> None then [MaxDiscoveryRetries] else []) @
        (if push_notifications cam \<noteq> None then [PushNotifications] else []) @
        (if cam_strict cam \<noteq> None then [StrictMode] else []) @
        (if cam_discovery (cam_mqtt cam) \<noteq> None then [CameraDiscovery] else []))) (cameras config))"

definition warn_wire_debug_enabled :: "Config \<Rightarrow> ConfigWarning list" where
  "warn_wire_debug_enabled config =
     map (\<lambda>cam. cam_warn cam WireDebug) (filter (\<lambda>cam. cam_debug cam = Some True) (cameras config))"

definition warn_users_without_tls :: "Config \<Rightarrow> ConfigWarning list" where
  "warn_users_without_tls config =
     (if users config \<noteq> [] \<and> certificate config = None then [\<lparr>warn_camera = None, warn_message = UsersWithoutTls\<rparr>] else [])"

text \<open>The configured seconds before a camera may sleep.\<close>

definition idle_secs :: "CameraConfig \<Rightarrow> ieee" where
  "idle_secs cam = (case idle_disconnect_timeout_secs cam of
     Some t \<Rightarrow> t | None \<Rightarrow> (case pause_timeout (pause cam) of Some t \<Rightarrow> t | None \<Rightarrow> Fin 45))"

definition resolve_idle_disconnect_timeout :: "CameraConfig \<Rightarrow> nat \<Rightarrow> nat option" where
  "resolve_idle_disconnect_timeout cam prune_grace =
     (case from_secs_float (idle_secs cam) of
        None \<Rightarrow> None
      | Some configured \<Rightarrow>
          if configured < prune_grace then duration_add prune_grace (15 * NANOS_PER_SEC) else Some configured)"

definition prune_grace :: "Config \<Rightarrow> nat" where
  "prune_grace config = unat (stream_prune_grace_secs config) * NANOS_PER_SEC"

fun idle_warnings :: "nat \<Rightarrow> nat \<Rightarrow> CameraConfig list \<Rightarrow> ConfigWarning list option" where
  "idle_warnings prune safe_floor [] = Some []"
| "idle_warnings prune safe_floor (cam # cams) =
     (case from_secs_float (idle_secs cam) of
        None \<Rightarrow> None
      | Some configured \<Rightarrow>
          map_option (\<lambda>ws. (if configured < prune then [cam_warn cam (IdleBelowPrune configured prune safe_floor)] else []) @ ws)
            (idle_warnings prune safe_floor cams))"

definition warn_idle_timeout_below_prune_floor :: "Config \<Rightarrow> ConfigWarning list option" where
  "warn_idle_timeout_below_prune_floor config =
     (case duration_add (prune_grace config) (15 * NANOS_PER_SEC) of
        None \<Rightarrow> None
      | Some safe_floor \<Rightarrow> idle_warnings (prune_grace config) safe_floor (cameras config))"

definition config_warnings :: "Config \<Rightarrow> ConfigWarning list option" where
  "config_warnings config =
     map_option (\<lambda>idle. warn_deprecated_pause_fields config @ warn_neolink_compat_fields config @
       warn_wire_debug_enabled config @ idle @ warn_users_without_tls config)
     (warn_idle_timeout_below_prune_floor config)"

section \<open>What a valid configuration is\<close>

definition wf_tls :: "Config \<Rightarrow> bool" where
  "wf_tls c \<longleftrightarrow>
     (certificate c = None \<longrightarrow> bind_port c \<noteq> 0 \<and> tls_client_auth c = AuthNone) \<and>
     (certificate c \<noteq> None \<longrightarrow> tls_port c \<noteq> 0 \<and> bind_port c \<noteq> tls_port c \<and>
        (tls_client_auth c \<noteq> AuthNone \<longrightarrow> tls_client_ca c \<noteq> None))"

definition wf_mqtt :: "MqttServerConfig \<Rightarrow> bool" where
  "wf_mqtt m \<longleftrightarrow> topic_prefix m \<noteq> [] \<and> topic_safe (topic_prefix m) \<and>
     (\<forall>d. mqtt_discovery m = Some d \<longrightarrow> disc_topic d \<noteq> [] \<and> CHR ''/'' \<notin> set (disc_topic d))"

definition positive_secs :: "ieee \<Rightarrow> bool" where "positive_secs x \<longleftrightarrow> (\<exists>r>0. x = Fin r)"

definition wf_camera :: "CameraConfig \<Rightarrow> bool" where
  "wf_camera cam \<longleftrightarrow> cam_name cam \<noteq> [] \<and> topic_safe (cam_name cam) \<and>
     (discovery cam = Cloud \<longrightarrow> cam_cloud_account cam \<noteq> None \<and> cam_cloud_password cam \<noteq> None \<and> cam_uid cam \<noteq> None) \<and>
     (discovery cam \<noteq> Cloud \<longrightarrow> cam_password cam \<noteq> None \<and> (cam_address cam \<noteq> None \<or> cam_uid cam \<noteq> None)) \<and>
     500 \<le> battery_update (cam_mqtt cam) \<and> 500 \<le> preview_update (cam_mqtt cam) \<and> 500 \<le> floodlight_update (cam_mqtt cam) \<and>
     (bridge_gaps (pause cam) \<longrightarrow> positive_secs (gap_threshold_secs (pause cam))) \<and>
     (\<forall>t. idle_disconnect_timeout_secs cam = Some t \<longrightarrow> positive_secs t) \<and>
     (\<forall>t. pause_timeout (pause cam) = Some t \<longrightarrow> positive_secs t) \<and>
     (\<exists>r\<ge>0. motion_wake_hold_secs cam = Fin r)"

definition wf_push :: "Config \<Rightarrow> bool" where
  "wf_push c \<longleftrightarrow> (\<forall>pl. push_listener c = Some pl \<and> pl_enable pl \<longrightarrow>
     (\<exists>r\<ge>0. pl_motion_wake_hold_secs pl = Fin r) \<and> push_listener_port pl \<noteq> 0 \<and>
     (\<exists>w. wake_server c = Some w \<and> enable w))"

definition wf_config :: "Config \<Rightarrow> bool" where
  "wf_config c \<longleftrightarrow> wf_tls c \<and> (\<forall>m. mqtt c = Some m \<longrightarrow> wf_mqtt m) \<and>
     distinct (map user_name (users c)) \<and> (\<forall>u\<in>set (users c). trim (user_name u) \<noteq> [] \<and> user_pass u \<noteq> []) \<and>
     distinct (map cam_name (cameras c)) \<and> (\<forall>cam\<in>set (cameras c). wf_camera cam) \<and> wf_push c \<and>
     (\<forall>cam\<in>set (cameras c). set (cam_permitted_users cam) \<subseteq> user_name ` set (users c))"

lemma reject_Ok [simp]: "reject b e = Inr u \<longleftrightarrow> \<not> b"
  by (simp add: reject_def)

lemma checks_Ok: "checks rs = Inr u \<longleftrightarrow> (\<forall>r\<in>set rs. r = Inr ())"
  by (induction rs) (auto split: sum.splits)

declare checks.simps [simp del]

lemma case_check: "(case r of Inl e \<Rightarrow> Inl e | Inr _ \<Rightarrow> k) = Inr u \<longleftrightarrow> r = Inr () \<and> k = Inr (u :: unit)"
  by (cases r) auto

lemma bad_positive_iff: "\<not> bad_positive x \<longleftrightarrow> positive_secs x"
  by (cases x) (auto simp: bad_positive_def positive_secs_def)

lemma bad_nonneg_iff: "\<not> bad_nonneg x \<longleftrightarrow> (\<exists>r\<ge>0. x = Fin r)"
  by (cases x) (auto simp: bad_nonneg_def)

lemma validate_users_Ok:
  "validate_users i seen us = Inr () \<longleftrightarrow> distinct (map user_name us) \<and> user_name ` set us \<inter> seen = {} \<and>
     (\<forall>u\<in>set us. trim (user_name u) \<noteq> [] \<and> user_pass u \<noteq> [])"
  by (induction us arbitrary: i seen) (auto simp: case_check checks_Ok)

lemma topic_safe_visible: "topic_safe s \<Longrightarrow> visible s"
  by (auto simp: topic_safe_def visible_def)

lemma trim_topic_safe: "topic_safe s \<Longrightarrow> trim s = s"
  by (simp add: topic_safe_visible trim_visible)

lemma validate_camera_Ok: "validate_camera i names cam = Inr () \<longleftrightarrow> wf_camera cam \<and> cam_name cam \<notin> names"
proof -
  have name: "trim n \<noteq> [] \<and> topic_safe n \<longleftrightarrow> n \<noteq> [] \<and> topic_safe n" for n using trim_topic_safe by metis
  show ?thesis
    unfolding wf_camera_def validate_camera_def Let_def checks_Ok
    by (auto simp: bad_positive_iff bad_nonneg_iff not_less trim_topic_safe split: option.splits)
qed

lemma validate_cameras_Ok:
  "validate_cameras i names cams = Inr () \<longleftrightarrow> distinct (map cam_name cams) \<and> cam_name ` set cams \<inter> names = {} \<and>
     (\<forall>cam\<in>set cams. wf_camera cam)"
  by (induction cams arbitrary: i names) (auto simp: case_check validate_camera_Ok)

lemma validate_config_iff: "validate_config c = Ok () \<longleftrightarrow> wf_config c"
proof -
  have tls: "reject (bind_port c = 0 \<and> certificate c = None) BindPortZero = Inr () \<and> validate_tls c = Inr () \<longleftrightarrow> wf_tls c"
    by (cases "tls_client_auth c") (auto simp: validate_tls_def wf_tls_def checks_Ok)
  have mqtt: "(case mqtt c of None \<Rightarrow> Inr () | Some m \<Rightarrow> validate_mqtt m) = Inr () \<longleftrightarrow> (\<forall>m. mqtt c = Some m \<longrightarrow> wf_mqtt m)"
    by (cases "mqtt c") (auto simp: validate_mqtt_def wf_mqtt_def checks_Ok split: option.splits)
  have push: "validate_push c = Inr () \<longleftrightarrow> wf_push c"
    by (auto simp: validate_push_def wf_push_def checks_Ok bad_nonneg_iff split: option.splits)
  have permitted: "validate_permitted c = Inr () \<longleftrightarrow>
      (\<forall>cam\<in>set (cameras c). set (cam_permitted_users cam) \<subseteq> user_name ` set (users c))"
    by (auto simp: validate_permitted_def checks_Ok)
  show ?thesis
    unfolding validate_config_def wf_config_def checks_Ok
    using tls mqtt push permitted validate_users_Ok [of 0 "{}" "users c"] validate_cameras_Ok [of 0 "{}" "cameras c"]
    by auto
qed

text \<open>The tables below a value, as far as the scanner looks: not into arrays of arrays.\<close>

fun inner_tables :: "toml \<Rightarrow> (string \<times> toml) list list"
and inner_entries :: "(string \<times> toml) list \<Rightarrow> (string \<times> toml) list list"
and inner_items :: "toml list \<Rightarrow> (string \<times> toml) list list" where
  "inner_tables (TTable t) = t # inner_entries t"
| "inner_tables (TArray arr) = inner_items arr"
| "inner_tables _ = []"
| "inner_entries [] = []"
| "inner_entries ((k, v) # t) = inner_tables v @ inner_entries t"
| "inner_items [] = []"
| "inner_items (item # items) = (if is_table item then inner_tables item else []) @ inner_items items"

definition misplaced_in :: "(string \<times> toml) list \<Rightarrow> bool" where
  "misplaced_in t \<longleftrightarrow> (\<exists>(k, v)\<in>set t. is_scalar v \<and> k \<in> set TOP_LEVEL_SCALAR_KEYS)"

lemma misplaced_in_simps [simp]:
  "\<not> misplaced_in []"
  "misplaced_in ((k, v) # t) \<longleftrightarrow> is_scalar v \<and> k \<in> set TOP_LEVEL_SCALAR_KEYS \<or> misplaced_in t"
  by (auto simp: misplaced_in_def)

lemma walk_Nil:
  "walk_for_misplaced p v = [] \<longleftrightarrow> (\<forall>t\<in>set (inner_tables v). \<not> misplaced_in t)"
  "walk_entries p es = [] \<longleftrightarrow> \<not> misplaced_in es \<and> (\<forall>t\<in>set (inner_entries es). \<not> misplaced_in t)"
  "walk_items p i xs = [] \<longleftrightarrow> (\<forall>t\<in>set (inner_items xs). \<not> misplaced_in t)"
  by (induction p v and p es and p i xs rule: walk_for_misplaced_walk_entries_walk_items.induct)
    (auto split: toml.splits)


section \<open>Start-up on a valid configuration\<close>

lemma validatedD:
  assumes "validate_config c = Ok ()"
  shows "\<forall>cam\<in>set (cameras c). wf_camera cam" "distinct (map cam_name (cameras c))"
    "\<forall>cam\<in>set (cameras c). set (cam_permitted_users cam) \<subseteq> user_name ` set (users c)"
  using assms by (simp_all add: validate_config_iff wf_config_def)

lemma idle_secs_positive: "wf_camera cam \<Longrightarrow> positive_secs (idle_secs cam)"
  by (auto simp: wf_camera_def idle_secs_def positive_secs_def split: option.splits)

lemma positive_from_secs: "positive_secs x \<Longrightarrow> from_secs_float x = None \<longleftrightarrow> \<not> fl_less x (2 ^ 64)"
  by (auto simp: positive_secs_def)

lemma idle_warnings_None: "idle_warnings a b cams = None \<longleftrightarrow> (\<exists>cam\<in>set cams. from_secs_float (idle_secs cam) = None)"
  by (induction cams) (auto split: option.splits)

lemma idle_warnings_Some:
  assumes "idle_warnings a b cams = Some ws"
  shows "w \<in> set ws \<longleftrightarrow> (\<exists>cam\<in>set cams. \<exists>n. from_secs_float (idle_secs cam) = Some n \<and> n < a \<and> w = cam_warn cam (IdleBelowPrune n a b))"
  using assms
proof (induction cams arbitrary: ws)
  case (Cons k cams)
  then obtain n us where "from_secs_float (idle_secs k) = Some n" "idle_warnings a b cams = Some us"
    "ws = (if n < a then [cam_warn k (IdleBelowPrune n a b)] else []) @ us"
    by (auto split: option.splits)
  then show ?case using Cons.IH [of us] by auto
qed simp

lemma prune_floor: "duration_add (prune_grace c) (15 * NANOS_PER_SEC) = None \<longleftrightarrow> 2 ^ 64 - 15 \<le> unat (stream_prune_grace_secs c)"
  by (auto simp: duration_add_def prune_grace_def DURATION_MAX_def NANOS_PER_SEC_def)

lemma other_warnings:
  assumes "warn_idle_timeout_below_prune_floor c = Some idle" "config_warnings c = Some ws"
  shows "cam_warn cam (IdleBelowPrune n a b) \<in> set ws \<longleftrightarrow> cam_warn cam (IdleBelowPrune n a b) \<in> set idle"
  using assms
  by (auto simp: config_warnings_def warn_deprecated_pause_fields_def warn_neolink_compat_fields_def
      warn_wire_debug_enabled_def warn_users_without_tls_def cam_warn_def Let_def split: option.splits if_splits)

text \<open>
  C25. Start-up on an accepted configuration panics exactly when some camera's idle timeout is 2^64 seconds or
  more, which the validation takes for a positive finite number, or the prune grace is within 15 seconds of the
  largest 64-bit number.
\<close>

theorem config_startup_panics:
  assumes "validate_config c = Ok ()"
  shows "config_warnings c = None \<longleftrightarrow>
    (\<exists>cam\<in>set (cameras c). \<not> fl_less (idle_secs cam) (2 ^ 64)) \<or> 2 ^ 64 - 15 \<le> unat (stream_prune_grace_secs c)"
proof -
  have "from_secs_float (idle_secs cam) = None \<longleftrightarrow> \<not> fl_less (idle_secs cam) (2 ^ 64)" if "cam \<in> set (cameras c)" for cam
    using positive_from_secs idle_secs_positive validatedD(1) [OF assms] that by blast
  then show ?thesis
    using prune_floor [of c]
    by (auto simp: config_warnings_def warn_idle_timeout_below_prune_floor_def idle_warnings_None split: option.splits)
qed

text \<open>
  Otherwise every camera of an accepted configuration gets an idle timeout that is at least the prune grace,
  so that a cached stream source never outlives its session; it is the configured one unless that is shorter,
  and a start-up warning names the camera exactly when its timeout was raised.
\<close>

theorem idle_timeout_floor:
  assumes valid: "validate_config c = Ok ()" and ws: "config_warnings c = Some ws" and cam: "cam \<in> set (cameras c)"
  shows "\<exists>configured d. from_secs_float (idle_secs cam) = Some configured \<and>
    resolve_idle_disconnect_timeout cam (prune_grace c) = Some d \<and> prune_grace c \<le> d \<and>
    d = (if configured < prune_grace c then prune_grace c + 15 * NANOS_PER_SEC else configured) \<and>
    ((\<exists>w\<in>set ws. warn_camera w = Some (cam_name cam) \<and> (\<exists>n a b. warn_message w = IdleBelowPrune n a b)) \<longleftrightarrow> d \<noteq> configured)"
proof -
  obtain floor idle where fl: "duration_add (prune_grace c) (15 * NANOS_PER_SEC) = Some floor"
    and idle: "idle_warnings (prune_grace c) floor (cameras c) = Some idle" "warn_idle_timeout_below_prune_floor c = Some idle"
    using ws by (auto simp: config_warnings_def warn_idle_timeout_below_prune_floor_def split: option.splits)
  obtain n where n: "from_secs_float (idle_secs cam) = Some n"
    using idle(1) idle_warnings_None cam by (metis option.exhaust option.distinct(1))
  have floor: "floor = prune_grace c + 15 * NANOS_PER_SEC" using fl by (simp add: duration_add_def split: if_splits)
  let ?d = "if n < prune_grace c then floor else n"
  have resolved: "resolve_idle_disconnect_timeout cam (prune_grace c) = Some ?d"
    using n fl by (simp add: resolve_idle_disconnect_timeout_def)
  have same: "k = cam" if "k \<in> set (cameras c)" "cam_name k = cam_name cam" for k
    using validatedD(2) [OF valid] cam that by (metis distinct_map inj_onD)
  have "(\<exists>w\<in>set ws. warn_camera w = Some (cam_name cam) \<and> (\<exists>i a b. warn_message w = IdleBelowPrune i a b)) \<longleftrightarrow>
      n < prune_grace c" (is "?named \<longleftrightarrow> _")
  proof
    assume ?named
    then obtain i a b where "cam_warn cam (IdleBelowPrune i a b) \<in> set ws" by (auto simp: cam_warn_def) (metis (full_types) ConfigWarning.surjective old.unit.exhaust)
    then have "cam_warn cam (IdleBelowPrune i a b) \<in> set idle" using other_warnings [OF idle(2) ws] by simp
    then obtain k m where "k \<in> set (cameras c)" "from_secs_float (idle_secs k) = Some m" "m < prune_grace c" "cam_name k = cam_name cam"
      unfolding idle_warnings_Some [OF idle(1)] by (auto simp: cam_warn_def)
    then show "n < prune_grace c" using same [of k] n by simp
  next
    assume "n < prune_grace c"
    then have "cam_warn cam (IdleBelowPrune n (prune_grace c) floor) \<in> set ws"
      using other_warnings [OF idle(2) ws] idle_warnings_Some [OF idle(1)] cam n by blast
    then show ?named by (force simp: cam_warn_def)
  qed
  then show ?thesis using n resolved floor by (auto simp: NANOS_PER_SEC_def)
qed

section \<open>A concrete configuration\<close>

definition w_camera :: CameraConfig where
  "w_camera = CameraConfig_default\<lparr>cam_name := ''door'', cam_address := Some ''10.0.0.2'', cam_username := ''admin'',
     cam_password := Some ''pw'', cam_permitted_users := [''ann'']\<rparr>"

definition w_config :: "ieee option \<Rightarrow> Config" where
  "w_config idle = Config_default\<lparr>users := [\<lparr>user_name = ''ann'', user_pass = ''pw''\<rparr>],
     cameras := [w_camera\<lparr>idle_disconnect_timeout_secs := idle\<rparr>]\<rparr>"

lemma w_config_valid: "0 < r \<Longrightarrow> validate_config (w_config (Some (Fin r))) = Ok ()"
  unfolding validate_config_iff wf_config_def
  by (auto simp: w_config_def w_camera_def Config_default_def CameraConfig_default_def MqttConfig_default_def
      PauseConfig_default_def default_motion_wake_hold_secs_def default_gap_threshold_def wf_tls_def wf_push_def
      wf_camera_def topic_safe_def positive_secs_def trim_visible)


theorem config_startup_panics_witness:
  "validate_config (w_config (Some (Fin (10 ^ 300)))) = Ok () \<and> config_warnings (w_config (Some (Fin (10 ^ 300)))) = None"
  using config_startup_panics [OF w_config_valid [of "10 ^ 300"]] w_config_valid [of "10 ^ 300"]
  by (simp add: w_config_def w_camera_def idle_secs_def)

lemma w_config_warns:
  "config_warnings (w_config (Some (Fin 10))) =
    Some [cam_warn w_camera (IdleBelowPrune 10000000000 30000000000 45000000000), \<lparr>warn_camera = None, warn_message = UsersWithoutTls\<rparr>]"
  using round_even_of_int [of 10000000000]
  by (simp add: config_warnings_def w_config_def w_camera_def Config_default_def CameraConfig_default_def MqttConfig_default_def
      PauseConfig_default_def warn_deprecated_pause_fields_def warn_neolink_compat_fields_def warn_wire_debug_enabled_def
      warn_users_without_tls_def warn_idle_timeout_below_prune_floor_def duration_add_def prune_grace_def NANOS_PER_SEC_def
      DURATION_MAX_def idle_secs_def cam_warn_def)

theorem idle_timeout_floor_witness:
  "resolve_idle_disconnect_timeout (w_camera\<lparr>idle_disconnect_timeout_secs := Some (Fin 10)\<rparr>) (prune_grace (w_config (Some (Fin 10)))) =
    Some 45000000000"
proof -
  let ?c = "w_config (Some (Fin 10))"
  have cam: "w_camera\<lparr>idle_disconnect_timeout_secs := Some (Fin 10)\<rparr> \<in> set (cameras ?c)" by (simp add: w_config_def)
  have grace: "prune_grace ?c = 30000000000" by (simp add: prune_grace_def w_config_def Config_default_def NANOS_PER_SEC_def)
  show ?thesis
    using idle_timeout_floor [OF w_config_valid w_config_warns cam] round_even_of_int [of 10000000000] grace
    by (auto simp: idle_secs_def NANOS_PER_SEC_def)
qed

end
