(* ===== verification/Rtsp_Framing.thy ===== *)
theory Rtsp_Framing
  imports Rtsp_Server
begin

text \<open>
  The byte stream of an RTSP connection: whatever way the bytes arrive, the requests cut out of them
  are the requests sent, and what an interleaved frame of the client does to the connection.
\<close>

section \<open>Requests out of reads\<close>

text \<open>Reference: the requests dispatched one after the other.\<close>

fun serve ::
  "rtsp_lib \<Rightarrow> (nat \<Rightarrow> req_io) \<Rightarrow> nat \<Rightarrow> bytes list \<Rightarrow> ConnectionState \<Rightarrow>
   (bool \<times> Response list \<times> ConnectionState) option" where
  "serve L io n [] c = Some (True, [], c)"
| "serve L io n (r # rs) c = (case dispatch_request L (io n) r c of
     None \<Rightarrow> None
   | Some (False, x, c) \<Rightarrow> Some (False, [x], c)
   | Some (True, x, c) \<Rightarrow> map_option (\<lambda>(go, xs, c). (go, x # xs, c)) (serve L io (n + 1) rs c))"

text \<open>A complete request: headers up to the first blank line, and the body they announce.\<close>

definition complete_request :: "bytes \<Rightarrow> bool" where
  "complete_request r \<longleftrightarrow> (case find_double_crlf r of
     None \<Rightarrow> False
   | Some pos \<Rightarrow>
       length r \<le> MAX_REQUEST_BYTES \<and>
       length r = pos + 4 + (case parse_content_length (take (pos + 4) r) of Some n \<Rightarrow> n | None \<Rightarrow> 0))"

lemma find_double_crlf_append:
  "find_double_crlf r = Some pos \<Longrightarrow> find_double_crlf (r @ rest) = Some pos"
  by (induction r arbitrary: pos rule: find_double_crlf.induct) (auto split: if_splits)

definition body_len :: "bytes \<Rightarrow> nat \<Rightarrow> nat" where
  "body_len r pos = (case parse_content_length (take (pos + 4) r) of Some n \<Rightarrow> n | None \<Rightarrow> 0)"

lemma body_len_append: "pos + 4 \<le> length r \<Longrightarrow> body_len (r @ rest) pos = body_len r pos"
  by (simp add: body_len_def)

lemma complete_requestD:
  assumes "complete_request r"
  obtains pos where "find_double_crlf r = Some pos" "length r \<le> MAX_REQUEST_BYTES"
    "length r = pos + 4 + body_len r pos"
proof (cases "find_double_crlf r")
  case (Some pos)
  from that[OF Some] assms Some show ?thesis by (simp add: complete_request_def body_len_def)
qed (use assms in \<open>simp add: complete_request_def\<close>)

lemma try_consume_eq:
  "find_double_crlf buf = Some pos \<Longrightarrow> try_consume_request buf =
     (let total = pos + 4 + body_len buf pos
      in if MAX_REQUEST_BYTES < total then Err ()
         else if length buf < total then Ok (None, buf) else Ok (Some (take total buf), drop total buf))"
  by (simp add: try_consume_request_def body_len_def Let_def)

lemma consume_complete:
  assumes "complete_request r"
  shows "try_consume_request (r @ rest) = Ok (Some r, rest)"
proof -
  from assms obtain pos where p: "find_double_crlf r = Some pos" "length r \<le> MAX_REQUEST_BYTES"
    "length r = pos + 4 + body_len r pos" by (rule complete_requestD)
  have "pos + 4 \<le> length r" using p(3) by simp
  then show ?thesis
    using p by (simp add: try_consume_eq[OF find_double_crlf_append[OF p(1)]] body_len_append Let_def)
qed

lemma consume_prefix:
  assumes "complete_request (buf @ rest)" "rest \<noteq> []"
  shows "try_consume_request buf = Ok (None, buf)"
proof (cases "find_double_crlf buf")
  case (Some pos)
  from assms(1) obtain pos' where p: "find_double_crlf (buf @ rest) = Some pos'"
    "length (buf @ rest) \<le> MAX_REQUEST_BYTES" "length (buf @ rest) = pos' + 4 + body_len (buf @ rest) pos'"
    by (rule complete_requestD)
  have "pos' = pos" using p(1) find_double_crlf_append[OF Some, of rest] by simp
  then have "length buf < pos + 4 + body_len buf pos" "pos + 4 + body_len buf pos \<le> MAX_REQUEST_BYTES"
    using p(2,3) assms(2) find_double_crlf_bound[OF Some] by (cases rest; simp add: body_len_append)+
  then show ?thesis by (simp add: try_consume_eq[OF Some] Let_def)
qed (simp add: try_consume_request_def)

lemma complete_pos:
  assumes "complete_request r"
  shows "0 < length r" "length r \<le> MAX_REQUEST_BYTES"
proof -
  from assms obtain pos where "length r \<le> MAX_REQUEST_BYTES" "length r = pos + 4 + body_len r pos"
    by (rule complete_requestD)
  then show "0 < length r" "length r \<le> MAX_REQUEST_BYTES" by linarith+
qed

lemma serve_append:
  "serve L io n (rs @ rs') c = (case serve L io n rs c of
     None \<Rightarrow> None
   | Some (False, xs, c) \<Rightarrow> Some (False, xs, c)
   | Some (True, xs, c) \<Rightarrow>
       map_option (\<lambda>(go, ys, c). (go, xs @ ys, c)) (serve L io (n + length rs) rs' c))"
proof (induction rs arbitrary: n c)
  case Nil
  then show ?case by (simp add: option.map_ident split_def)
next
  case (Cons r rs)
  then show ?case
    by (auto simp: option.map_comp comp_def split_def split: option.splits bool.splits)
qed

lemma serve_length: "serve L io n rs c = Some (True, xs, c') \<Longrightarrow> length xs = length rs"
  by (induction rs arbitrary: n c xs) (auto split: option.splits bool.splits)

lemma drain_serve:
  assumes "buf @ rest = concat reqs" "\<forall>r\<in>set reqs. complete_request r"
  shows "\<exists>now later. reqs = now @ later \<and> (case serve L io n now c of
       None \<Rightarrow> drain L io n buf c = None
     | Some (False, xs, c') \<Rightarrow> \<exists>b. drain L io n buf c = Some (False, b, xs, c')
     | Some (True, xs, c') \<Rightarrow> \<exists>b. drain L io n buf c = Some (True, b, xs, c') \<and>
         b @ rest = concat later \<and> (later = [] \<or> length b < length (hd later)))"
  using assms
proof (induction reqs arbitrary: buf n c)
  case Nil
  then show ?case
    by (intro exI[of _ "[]"]) (simp add: drain.simps try_consume_request_def)
next
  case (Cons r reqs)
  have r: "complete_request r" using Cons.prems by simp
  show ?case
  proof (cases "length buf < length r")
    case True
    then obtain more where m: "r = buf @ more" "more \<noteq> []"
      using Cons.prems(1) by (auto simp: append_eq_append_conv2)
    then have "try_consume_request buf = Ok (None, buf)" using consume_prefix r by blast
    moreover have "length buf \<le> MAX_REQUEST_BYTES" using True complete_pos[OF r] by simp
    ultimately show ?thesis
      using Cons.prems(1) True by (intro exI[of _ "[]"] exI[of _ "r # reqs"]) (simp add: drain.simps)
  next
    case False
    then obtain buf1 where b: "buf = r @ buf1" "buf1 @ rest = concat reqs"
      using Cons.prems(1) by (auto simp: append_eq_append_conv2)
    have cons: "try_consume_request buf = Ok (Some r, buf1)" using consume_complete r b by simp
    show ?thesis
    proof (cases "dispatch_request L (io n) r c")
      case None
      with cons show ?thesis by (intro exI[of _ "[r]"] exI[of _ reqs]) (simp add: drain.simps)
    next
      case (Some y)
      obtain go x c1 where y: "y = (go, x, c1)" by (cases y)
      from Cons.IH[OF b(2), of "n + 1" c1] Cons.prems(2)
      obtain now later where IH: "reqs = now @ later"
        "case serve L io (n + 1) now c1 of
           None \<Rightarrow> drain L io (n + 1) buf1 c1 = None
         | Some (False, xs, c') \<Rightarrow> \<exists>b. drain L io (n + 1) buf1 c1 = Some (False, b, xs, c')
         | Some (True, xs, c') \<Rightarrow> \<exists>b. drain L io (n + 1) buf1 c1 = Some (True, b, xs, c') \<and>
             b @ rest = concat later \<and> (later = [] \<or> length b < length (hd later))" by auto
      then show ?thesis
        using Some y cons
        by (intro exI[of _ "r # now"] exI[of _ later])
          (cases go; auto simp: drain.simps[of L io n buf c] split: option.splits bool.splits)
    qed
  qed
qed

lemma conn_reads_serve:
  assumes "buf @ concat chs = concat reqs" "\<forall>r\<in>set reqs. complete_request r" "[] \<notin> set chs"
    "reqs = [] \<or> length buf < length (hd reqs)"
  shows "conn_reads L io n buf c chs = serve L io n reqs c"
  using assms
proof (induction chs arbitrary: buf reqs n c)
  case Nil
  then have "reqs = []" by (cases reqs) auto
  then show ?case by simp
next
  case (Cons ch chs)
  have "(buf @ ch) @ concat chs = concat reqs" using Cons.prems by simp
  from drain_serve[OF this Cons.prems(2), of L io n c] obtain now later where
    d: "reqs = now @ later"
      "case serve L io n now c of
         None \<Rightarrow> drain L io n (buf @ ch) c = None
       | Some (False, xs, c') \<Rightarrow> \<exists>b. drain L io n (buf @ ch) c = Some (False, b, xs, c')
       | Some (True, xs, c') \<Rightarrow> \<exists>b. drain L io n (buf @ ch) c = Some (True, b, xs, c') \<and>
           b @ concat chs = concat later \<and> (later = [] \<or> length b < length (hd later))" by auto
  have later: "\<forall>r\<in>set later. complete_request r" "[] \<notin> set chs" "ch \<noteq> []" using Cons.prems d(1) by auto
  show ?case
  proof (cases "serve L io n now c")
    case None
    then show ?thesis using d(2) later by (simp add: d(1) serve_append)
  next
    case (Some y)
    obtain go xs c1 where y: "y = (go, xs, c1)" by (cases y)
    show ?thesis
    proof (cases go)
      case True
      then obtain b where b: "drain L io n (buf @ ch) c = Some (True, b, xs, c1)"
        "b @ concat chs = concat later" "later = [] \<or> length b < length (hd later)"
        using d(2) Some y by auto
      then show ?thesis
        using Cons.IH[OF b(2) later(1,2) b(3)] Some y True later(3) serve_length
        by (simp add: d(1) serve_append)
    qed (use d(2) Some y later in \<open>auto simp: d(1) serve_append\<close>)
  qed
qed

text \<open>
  C6. However the bytes of pipelined requests are cut into reads, the connection dispatches exactly those
  requests in their order, up to the first that ends the connection.
\<close>

theorem rtsp_pipelining:
  assumes "\<forall>r\<in>set reqs. complete_request r" "concat reads = concat reqs" "[] \<notin> set reads"
  shows "conn_reads L io 0 [] c reads = serve L io 0 reqs c"
proof (rule conn_reads_serve)
  show "reqs = [] \<or> length ([]::bytes) < length (hd reqs)"
    using assms(1) complete_pos by (cases reqs) auto
qed (use assms in auto)


definition options_bytes :: bytes where
  "options_bytes = [79, 80, 13, 10, 67, 58, 49, 13, 10, 13, 10]"

lemma options_complete: "complete_request options_bytes"
proof -
  have "parse_content_length options_bytes = None" by code_simp
  then show ?thesis by (simp add: complete_request_def options_bytes_def MAX_REQUEST_BYTES_def)
qed

theorem rtsp_pipelining_witness:
  "complete_request options_bytes \<and> (\<forall>L io c.
     conn_reads L io 0 [] c [take 7 options_bytes, drop 7 options_bytes @ take 3 options_bytes,
       drop 3 options_bytes] = serve L io 0 [options_bytes, options_bytes] c)"
proof -
  have "[] \<notin> set [take 7 options_bytes, drop 7 options_bytes @ take 3 options_bytes, drop 3 options_bytes]"
    by (simp add: options_bytes_def)
  then have "conn_reads L io 0 [] c [take 7 options_bytes, drop 7 options_bytes @ take 3 options_bytes,
       drop 3 options_bytes] = serve L io 0 [options_bytes, options_bytes] c" for L io c
    using options_complete by (intro rtsp_pipelining) auto
  then show ?thesis using options_complete by blast
qed

lemma try_consume_hd:
  assumes "try_consume_request (x # buf) = Ok (Some req, rest)"
  shows "\<exists>req'. req = x # req'"
proof (cases "find_double_crlf (x # buf)")
  case (Some pos)
  then show ?thesis
    using assms by (auto simp: try_consume_eq[OF Some] Let_def numeral_eq_Suc split: if_splits)
qed (use assms in \<open>simp add: try_consume_request_def\<close>)

lemma try_consume_None:
  "try_consume_request buf = Ok (None, rest) \<Longrightarrow> rest = buf"
  by (auto simp: try_consume_request_def Let_def split: option.splits if_splits)

lemma drain_dollar:
  assumes "\<And>b. l_parse L (0x24 # b) = None"
  shows "drain L io n (0x24 # buf) c = Some (length buf < MAX_REQUEST_BYTES, 0x24 # buf, [], c) \<or>
    (\<exists>b. drain L io n (0x24 # buf) c = Some (False, b, [response S400 0 []], c))"
proof (cases "try_consume_request (0x24 # buf)")
  case (Inr y)
  obtain r rest where y: "y = (r, rest)" by (cases y)
  show ?thesis
  proof (cases r)
    case None
    then have "try_consume_request (0x24 # buf) = Ok (None, 0x24 # buf)"
      using Inr y try_consume_None by auto
    then show ?thesis by (simp add: drain.simps Suc_le_eq)
  next
    case (Some req)
    then obtain b where "req = 0x24 # b" using Inr y try_consume_hd by blast
    then show ?thesis
      using Inr y Some assms by (simp add: drain.simps dispatch_request_def parse_request_def)
  qed
qed (simp add: drain.simps)

lemma conn_reads_dollar:
  assumes "\<And>b. l_parse L (0x24 # b) = None" "length buf < MAX_REQUEST_BYTES"
  shows "\<exists>go rs. conn_reads L io n (0x24 # buf) c reads = Some (go, rs, c) \<and>
    rs \<in> {[], [response S400 0 []]} \<and> (go \<longrightarrow> length (buf @ concat reads) < MAX_REQUEST_BYTES)"
  using assms(2)
proof (induction reads arbitrary: buf n)
  case (Cons ch reads)
  show ?case
    using drain_dollar[OF assms(1), of io n "buf @ ch" c] Cons.IH[of "buf @ ch" n] 
    by (cases "length (buf @ ch) < MAX_REQUEST_BYTES") auto
qed auto

text \<open>
  RTCP that a client interleaves on the connection is never skipped: once a read begins with
  the \<open>$\<close> of a frame, no later request is dispatched, whatever is read. The connection stays silent,
  or answers 400 with CSeq 0 and closes, and it always closes before more than 64 KiB were read.
  \<open>rtsp-types\<close> parses what begins with \<open>$\<close> as data, not as a request.
\<close>

theorem interleaved_frame_closes:
  assumes "\<And>b. l_parse L (0x24 # b) = None"
  shows "\<exists>go rs. conn_reads L io 0 [] c ((0x24 # frame) # reads) = Some (go, rs, c) \<and>
    rs \<in> {[], [response S400 0 []]} \<and> (go \<longrightarrow> length ((0x24 # frame) @ concat reads) \<le> MAX_REQUEST_BYTES)"
proof (cases "length frame < MAX_REQUEST_BYTES")
  case True
  from drain_dollar[OF assms, of io 0 frame c] True conn_reads_dollar[OF assms True, of io 0 c reads]
  show ?thesis by (auto simp: Suc_le_eq)
next
  case False
  with drain_dollar[OF assms, of io 0 frame c] show ?thesis by auto
qed


text \<open>A library that knows one request, and an environment whose provider accepts everything.\<close>

definition std_lib :: "(bytes \<rightharpoonup> rtsp_request) \<Rightarrow> rtsp_lib" where
  "std_lib parse = \<lparr>l_parse = (\<lambda>b. case b of x # _ \<Rightarrow> if x = 0x24 then None else parse b | [] \<Rightarrow> None),
     l_md5 = std_md5, l_b64_text = (\<lambda>_. None), l_b64 = (\<lambda>_. []), l_show_ip = (\<lambda>_. ''10.0.0.1'')\<rparr>"

definition std_sdp :: SdpParams where
  "std_sdp = \<lparr>server_ip = [], session_id = [], session_name = ''cam'', sp_video = None, sp_audio = None\<rparr>"

definition std_io :: "nat \<Rightarrow> req_io" where
  "std_io n = \<lparr>io_now = n, io_epoch = n, io_ssrc = of_nat n, io_session_id = ''s'' @ show_nat n,
     io_nonce = ''00fe'', io_subscribe = (\<lambda>_ _ _. Ok std_sdp), io_bind = (\<lambda>_. Bound)\<rparr>"

definition std_conn :: ConnectionState where
  "std_conn = conn_init [std_user] ''bairelay'' \<lparr>nonce_value = ''00ff'', nonce_created = 0\<rparr> {40000}
     (V4 0) (V4 0x0a000001) False"

theorem interleaved_frame_closes_witness:
  "\<exists>go rs. conn_reads (std_lib (\<lambda>_. None)) std_io 0 [] std_conn
     [[0x24, 1, 0, 8, 0x80, 0xc9, 0, 1, 0, 0, 0, 7], options_bytes, options_bytes] = Some (go, rs, std_conn) \<and>
     rs \<in> {[], [response S400 0 []]}"
  using interleaved_frame_closes [where L = "std_lib (\<lambda>_. None)" and io = std_io and c = std_conn and
      frame = "[1, 0, 8, 0x80, 0xc9, 0, 1, 0, 0, 0, 7]" and reads = "[options_bytes, options_bytes]"]
  by (auto simp: std_lib_def)

end
