(* ===== verification/Rtsp_Sessions.thy ===== *)
theory Rtsp_Sessions
  imports Rtsp_Framing "HOL-Library.Multiset"
begin

text \<open>
  What an RTSP connection owns: the invariant of its sessions, tasks, wake-lock guards and UDP ports,
  who may have a session, and the race of a session ID that is used again.
\<close>

section \<open>Resources\<close>

definition transport_ports :: "transport_impl \<Rightarrow> nat list" where
  "transport_ports t = (case t of TcpTransport _ _ \<Rightarrow> [] | UdpTransport p _ _ \<Rightarrow> [p])"

text \<open>
  What a connection owns. Every session has its running task, every running task its object, and
  there are as many wake-lock guards as sessions. The pool holds exactly the ports \<open>others\<close>, the ports
  of the tracks and the ports \<open>ps\<close> in the hands of the current handler, all apart.
\<close>

definition ids_ok ::
  "(string \<times> SessionEntry) list \<Rightarrow> (nat \<times> string) list \<Rightarrow> nat list \<Rightarrow> nat \<Rightarrow> nat \<Rightarrow> bool" where
  "ids_ok sessions tasks objs nxt guards \<longleftrightarrow>
     distinct (map fst sessions) \<and> distinct objs \<and> map fst tasks = objs \<and> (\<forall>i\<in>set objs. i < nxt) \<and>
     (\<forall>(sid, e)\<in>set sessions. (se_obj e, sid) \<in> set tasks) \<and> guards = length sessions"

definition ports_ok :: "nat set \<Rightarrow> nat list \<Rightarrow> nat set \<Rightarrow> bool" where
  "ports_ok others ps used \<longleftrightarrow>
     distinct ps \<and> set ps \<subseteq> pool_ports \<and> used = others \<union> set ps \<and> others \<inter> set ps = {}"

definition conn_owns :: "nat set \<Rightarrow> nat list \<Rightarrow> ConnectionState \<Rightarrow> bool" where
  "conn_owns others ps c \<longleftrightarrow>
     ids_ok (cs_sessions c) (cs_tasks c) (map fst (cs_objs c)) (cs_next c) (cs_guards c) \<and>
     ports_ok others (ps @ own_ports c) (cs_used c)"

lemma ports_ok_mset: "mset ps = mset ps' \<Longrightarrow> ports_ok others ps used = ports_ok others ps' used"
  unfolding ports_ok_def by (metis mset_eq_imp_distinct_iff mset_eq_setD)

lemma ports_ok_insert:
  "ports_ok others ps used \<Longrightarrow> p \<in> pool_ports \<Longrightarrow> p \<notin> used \<Longrightarrow> ports_ok others (p # ps) (insert p used)"
  by (auto simp: ports_ok_def)

lemma ports_ok_remove:
  "ports_ok others (ps @ qs) used \<Longrightarrow> ports_ok others qs (used - set ps)"
  by (auto simp: ports_ok_def)

lemma udp_ports_simps [simp]:
  "udp_ports [] = []" "udp_ports (t # ts) = transport_ports (tk_transport t) @ udp_ports ts"
  "udp_ports (ts @ ts') = udp_ports ts @ udp_ports ts'"
  by (auto simp: udp_ports_def transport_ports_def map_filter_def split: transport_impl.splits)

lemma own_ports_simps [simp]:
  "own_ports (c\<lparr>cs_sessions := ss\<rparr>) = own_ports c" "own_ports (c\<lparr>cs_used := u\<rparr>) = own_ports c"
  "own_ports (c\<lparr>cs_nonce := nc\<rparr>) = own_ports c" "own_ports (c\<lparr>cs_guards := g\<rparr>) = own_ports c"
  "own_ports (c\<lparr>cs_tasks := ts\<rparr>) = own_ports c"
  by (simp_all add: own_ports_def)

lemma conn_owns_nonce [simp]: "conn_owns others ps (c\<lparr>cs_nonce := nc\<rparr>) = conn_owns others ps c"
  by (simp add: conn_owns_def)

lemma ids_ok_touch:
  assumes "ids_ok ss ts os n g" "\<And>e. se_obj (f e) = se_obj e"
  shows "ids_ok (map (\<lambda>(i, e). (i, if i = sid then f e else e)) ss) ts os n g"
proof -
  have "map fst (map (\<lambda>(i, e). (i, if i = sid then f e else e)) ss) = map fst ss" by (induction ss) auto
  then show ?thesis using assms by (auto simp: ids_ok_def split: if_splits simp del: map_map)
qed

lemma conn_owns_touch: "conn_owns others ps c \<Longrightarrow> conn_owns others ps (touch sid now c)"
  by (simp add: conn_owns_def touch_def ids_ok_touch)

lemma ids_ok_drop:
  assumes "ids_ok ss ts os n g"
  shows "ids_ok (filter (\<lambda>x. \<not> gone x) ss) ts os n (g - length (filter gone ss))"
proof -
  have "length ss = length (filter gone ss) + length (filter (\<lambda>x. \<not> gone x) ss)"
    by (simp add: sum_length_filter_compl)
  then show ?thesis using assms by (auto simp: ids_ok_def distinct_map_filter)
qed

lemma conn_owns_drop: "conn_owns others ps c \<Longrightarrow> conn_owns others ps (drop_sessions gone c)"
  by (simp add: conn_owns_def drop_sessions_def ids_ok_drop)

lemma update_obj_ids [simp]: "map fst (cs_objs (update_obj oid f c)) = map fst (cs_objs c)"
  by (auto simp: update_obj_def split_def)

lemma update_obj_frame [simp]:
  "cs_sessions (update_obj oid f c) = cs_sessions c" "cs_tasks (update_obj oid f c) = cs_tasks c"
  "cs_next (update_obj oid f c) = cs_next c" "cs_guards (update_obj oid f c) = cs_guards c"
  "cs_used (update_obj oid f c) = cs_used c"
  by (simp_all add: update_obj_def)

lemma own_ports_update_same:
  "(\<And>x. udp_ports (so_tracks (f x)) = udp_ports (so_tracks x)) \<Longrightarrow> own_ports (update_obj oid f c) = own_ports c"
  by (auto simp: own_ports_def update_obj_def split_def comp_def intro!: arg_cong[where f = concat])

lemma conn_owns_update_same:
  "conn_owns others ps c \<Longrightarrow> (\<And>x. udp_ports (so_tracks (f x)) = udp_ports (so_tracks x)) \<Longrightarrow>
   conn_owns others ps (update_obj oid f c)"
  by (simp add: conn_owns_def own_ports_update_same)

lemma own_ports_add_track:
  assumes "distinct (map fst os)" "oid \<in> set (map fst os)"
  shows "mset (concat (map (\<lambda>(_, x). udp_ports (so_tracks x))
      (map (\<lambda>(i, x). (i, if i = oid then x\<lparr>so_tracks := so_tracks x @ [t]\<rparr> else x)) os))) =
    mset (transport_ports (tk_transport t)) + mset (concat (map (\<lambda>(_, x). udp_ports (so_tracks x)) os))"
  using assms
proof (induction os)
  case (Cons a os)
  obtain i x where a: "a = (i, x)" by (cases a)
  show ?case
  proof (cases "i = oid")
    case True
    then have "map (\<lambda>(i, x). (i, if i = oid then x\<lparr>so_tracks := so_tracks x @ [t]\<rparr> else x)) os = os"
      using Cons.prems a by (intro map_idI) (force simp: image_iff)
    then show ?thesis using a True by (simp del: map_map)
  qed (use Cons a in \<open>simp del: map_map\<close>)
qed simp

lemma conn_owns_append:
  assumes "conn_owns others (transport_ports (tk_transport t)) c" "lookup_session sid c \<noteq> None"
  shows "conn_owns others [] (append_track sid t c)"
proof -
  obtain e where e: "lookup_session sid c = Some e" using assms(2) by auto
  then have "(sid, e) \<in> set (cs_sessions c)" by (simp add: lookup_session_def map_of_SomeD)
  then have "(se_obj e, sid) \<in> set (cs_tasks c)" "distinct (map fst (cs_objs c))"
    "map fst (cs_tasks c) = map fst (cs_objs c)" using assms(1) by (auto simp: conn_owns_def ids_ok_def)
  then have "se_obj e \<in> set (map fst (cs_objs c))" "distinct (map fst (cs_objs c))"
    by (metis fst_conv image_eqI list.set_map)+
  from own_ports_add_track[OF this(2,1), of t]
  have "mset (own_ports (append_track sid t c)) = mset (transport_ports (tk_transport t) @ own_ports c)"
    by (simp add: append_track_def e update_obj_def own_ports_def del: map_map)
  then show ?thesis
    using assms(1) ports_ok_mset[of "own_ports (append_track sid t c)"
        "transport_ports (tk_transport t) @ own_ports c" others "cs_used c"]
    by (simp add: conn_owns_def) (simp add: append_track_def e)
qed

lemma conn_owns_start:
  assumes "conn_owns others (transport_ports (tk_transport t)) c" "lookup_session sid c = None"
  shows "conn_owns others [] (start_session sid sub t now (c\<lparr>cs_guards := cs_guards c + 1\<rparr>))"
proof -
  have "sid \<notin> fst ` set (cs_sessions c)" using assms(2) by (simp add: lookup_session_def map_of_eq_None_iff)
  then have "ids_ok ((sid, e\<lparr>se_obj := cs_next c\<rparr>) # cs_sessions c) ((cs_next c, sid) # cs_tasks c)
      (cs_next c # map fst (cs_objs c)) (cs_next c + 1) (cs_guards c + 1)" for e
    using assms(1) by (auto simp: conn_owns_def ids_ok_def)
  from this[of "\<lparr>se_obj = 0, se_sub = sub, se_last = now\<rparr>"] show ?thesis
    using assms(1) by (simp add: conn_owns_def start_session_def own_ports_def)
qed

lemma udp_bind_port:
  "udp_bind bind used parked = Some port \<Longrightarrow> port \<in> pool_ports \<and> port \<notin> used"
proof (induction bind used parked rule: udp_bind.induct)
  case (1 bind used parked)
  then show ?case
    by (subst (asm) udp_bind.simps)
       (auto dest: pool_acquire_Ok split: sum.splits prod.splits bind_result.splits)
qed

lemma conn_owns_build:
  assumes "conn_owns others [] c" "build_transport io spec c = (Inr (t, r), c')"
  shows "conn_owns others (transport_ports t) c'"
proof (cases spec)
  case (UdpUnicast crtp crtcp)
  then obtain port where "udp_bind (io_bind io) (cs_used c) {} = Some port"
    "t = UdpTransport port crtp crtcp" "c' = c\<lparr>cs_used := insert port (cs_used c)\<rparr>"
    using assms(2) by (auto simp: build_transport_def split: option.splits)
  then show ?thesis
    using assms(1) udp_bind_port ports_ok_insert by (auto simp: conn_owns_def transport_ports_def)
qed (use assms in \<open>auto simp: build_transport_def transport_ports_def\<close>)

lemma build_Inl: "build_transport io spec c = (Inl st, c') \<Longrightarrow> c' = c"
  by (auto simp: build_transport_def split: TransportSpec.splits option.splits)

lemma conn_owns_drop_transport:
  "conn_owns others (transport_ports t) c \<Longrightarrow> conn_owns others [] (drop_transport t c)"
  using ports_ok_remove[of others "transport_ports t" "own_ports c" "cs_used c"]
  by (auto simp: conn_owns_def drop_transport_def transport_ports_def pool_release_def split: transport_impl.splits)

lemma authenticate_nonce: "authenticate L io p m c = Some (r, c') \<Longrightarrow> \<exists>nc. c' = c\<lparr>cs_nonce := nc\<rparr>"
proof -
  have same: "\<exists>nc. c = c\<lparr>cs_nonce := nc\<rparr>" by (rule exI[of _ "cs_nonce c"]) simp
  assume "authenticate L io p m c = Some (r, c')"
  then show ?thesis using same
    by (auto simp: authenticate_def Let_def split: option.splits if_splits sum.splits AuthError.splits)
qed

lemma auth_gate_nonce: "auth_gate L io p m c = Some (r, c') \<Longrightarrow> \<exists>nc. c' = c\<lparr>cs_nonce := nc\<rparr>"
  using authenticate_nonce[of L io p "method_str m" c]
  by (auto simp: auth_gate_def split: if_splits option.splits AuthOutcome.splits intro: exI[of _ "cs_nonce c"])


lemma conn_owns_describe:
  assumes "conn_owns others [] c" "handle_describe L io p c = Some (r, c')"
  shows "conn_owns others [] c'"
  using assms auth_gate_nonce[of L io p Describe c]
  by (fastforce simp: handle_describe_def Let_def split: option.splits prod.splits sum.splits StreamError.splits)

lemma conn_owns_setup_session:
  assumes "conn_owns others (transport_ports t) c"
  shows "conn_owns others [] (snd (setup_session io p r n user t resp c))"
  using assms
  by (auto simp: setup_session_def Let_def conn_owns_drop_transport conn_owns_append conn_owns_start[simplified]
      split: option.splits sum.splits StreamError.splits)

lemma handle_setup_cases:
  assumes "handle_setup L io p c = Some (resp, c')"
  obtains "c' = c" | nc where "c' = c\<lparr>cs_nonce := nc\<rparr>"
  | c1 c2 r n user spec t tr where "auth_gate L io p Setup c = Some (Inr user, c1)"
    "build_transport io spec c1 = (Inr (t, tr), c2)" "setup_session io p r n user t tr c2 = (resp, c')"
proof -
  consider "c' = c" | g c1 where "auth_gate L io p Setup c = Some (g, c1)" "c' = c1"
  | c1 c2 r n user spec t tr where "auth_gate L io p Setup c = Some (Inr user, c1)"
    "build_transport io spec c1 = (Inr (t, tr), c2)" "setup_session io p r n user t tr c2 = (resp, c')"
    using assms unfolding handle_setup_def Let_def
    by (auto split: prod.splits option.splits sum.splits dest: build_Inl)
  then show thesis using that auth_gate_nonce by cases blast+
qed

lemma conn_owns_setup:
  assumes "conn_owns others [] c" "handle_setup L io p c = Some (r, c')"
  shows "conn_owns others [] c'"
  using assms(2)
proof (cases rule: handle_setup_cases)
  case (3 c1 c2 r' n user spec t tr)
  have "conn_owns others [] c1" using auth_gate_nonce[OF 3(1)] assms(1) by auto
  from conn_owns_setup_session[OF conn_owns_build[OF this 3(2)]] 3(3) show ?thesis by (metis snd_conv)
qed (use assms in auto)

lemma conn_owns_dispatch:
  assumes "conn_owns others [] c" "dispatch_request L io req c = Some (go, r, c')"
  shows "conn_owns others [] c'"
  using assms conn_owns_touch[of others "[]" c]
  by (auto simp: dispatch_request_def handle_play_def handle_teardown_def mark_playing_def
        remove_session_def Let_def conn_owns_drop conn_owns_update_same conn_owns_touch
      split: sum.splits if_splits option.splits RtspMethod.splits
      dest: conn_owns_describe conn_owns_setup conn_owns_describe[OF conn_owns_touch]
        conn_owns_setup[OF conn_owns_touch])

lemma assoc_keys_filter: "map fst (filter (\<lambda>(i, _). i \<noteq> k) xs) = filter (\<lambda>i. i \<noteq> k) (map fst xs)"
  by (induction xs) auto

lemma ids_ok_exit:
  assumes "ids_ok ss ts (map fst os) n g" "map_of ts oid = Some sid"
  shows "ids_ok (filter (\<lambda>(i, _). i \<noteq> sid) ss) (filter (\<lambda>(i, _). i \<noteq> oid) ts)
    (map fst (filter (\<lambda>(i, _). i \<noteq> oid) os)) n (g - length (filter (\<lambda>(i, _). i = sid) ss))"
proof -
  have "length ss = length (filter (\<lambda>(i, _). i = sid) ss) + length (filter (\<lambda>(i, _). i \<noteq> sid) ss)"
    using sum_length_filter_compl[of "\<lambda>(i, _). i = sid" ss] by (simp add: split_def)
  moreover have ts: "distinct (map fst ts)" "(oid, sid) \<in> set ts"
    "\<And>i e. (i, e) \<in> set ss \<Longrightarrow> (se_obj e, i) \<in> set ts"
    using assms by (auto simp: ids_ok_def dest: map_of_SomeD)
  have "se_obj e \<noteq> oid" if "(i, e) \<in> set ss" "i \<noteq> sid" for i e
    using ts that eq_key_imp_eq_value by metis
  then have "\<forall>(i, e)\<in>set (filter (\<lambda>(i, _). i \<noteq> sid) ss). (se_obj e, i) \<in> set (filter (\<lambda>(i, _). i \<noteq> oid) ts)"
    using ts(3) by auto
  ultimately show ?thesis
    using assms(1) by (auto simp: ids_ok_def assoc_keys_filter)
qed

lemma own_ports_exit:
  assumes "distinct (map fst os)" "map_of os oid = Some x"
  shows "mset (concat (map (\<lambda>(_, x). udp_ports (so_tracks x)) os)) =
    mset (udp_ports (so_tracks x) @ concat (map (\<lambda>(_, x). udp_ports (so_tracks x)) (filter (\<lambda>(i, _). i \<noteq> oid) os)))"
  using assms
proof (induction os)
  case (Cons a os)
  obtain i y where a: "a = (i, y)" by (cases a)
  show ?case
  proof (cases "i = oid")
    case True
    then have "filter (\<lambda>(i, _). i \<noteq> oid) os = os" using Cons.prems a by (intro filter_True) force
    then show ?thesis using Cons.prems a True by simp
  qed (use Cons a in simp)
qed simp

lemma conn_owns_exit:
  assumes "conn_owns others [] c"
  shows "conn_owns others [] (task_exit oid c)"
proof (cases "map_of (cs_tasks c) oid")
  case (Some sid)
  then have "oid \<in> set (map fst (cs_objs c))" "distinct (map fst (cs_objs c))"
    using assms by (auto simp: conn_owns_def ids_ok_def dest!: map_of_SomeD) (metis fst_conv image_eqI list.set_map)
  moreover from this obtain x where x: "map_of (cs_objs c) oid = Some x"
    by (metis map_of_eq_None_iff not_None_eq list.set_map)
  ultimately have "mset (own_ports c) = mset (udp_ports (so_tracks x) @ own_ports (task_exit oid c))"
    using own_ports_exit[of "cs_objs c" oid x] Some x
    by (simp add: task_exit_def own_ports_def Let_def remove_session_def drop_sessions_def)
  then have "ports_ok others (udp_ports (so_tracks x) @ own_ports (task_exit oid c)) (cs_used c)"
    using assms ports_ok_mset[of "own_ports c" "udp_ports (so_tracks x) @ own_ports (task_exit oid c)" others "cs_used c"]
    by (simp add: conn_owns_def)
  from ports_ok_remove[OF this] show ?thesis
    using assms Some x ids_ok_exit[of "cs_sessions c" "cs_tasks c" "cs_objs c" "cs_next c" "cs_guards c" oid sid]
    by (simp add: conn_owns_def) (simp add: task_exit_def Let_def remove_session_def drop_sessions_def split_def)
qed (use assms in \<open>simp add: task_exit_def\<close>)


text \<open>
  What the connection keeps of the pool and the ports of the others: an event of its own leaves the
  others' ports alone.
\<close>

definition others_after :: "conn_event \<Rightarrow> ConnectionState \<Rightarrow> nat set \<Rightarrow> nat set" where
  "others_after e c others = (case e of Others ports \<Rightarrow> ports - set (own_ports c) | _ \<Rightarrow> others)"

lemma conn_owns_step:
  assumes "conn_owns others [] c" "conn_step L e c = Some c'"
  shows "conn_owns (others_after e c others) [] c'"
proof (cases e)
  case (Others ports)
  then have "c' = c\<lparr>cs_used := set (own_ports c) \<union> ports\<rparr>" using assms(2) by simp
  then show ?thesis using assms(1) Others by (auto simp: conn_owns_def ports_ok_def others_after_def)
qed (use assms in \<open>auto simp: others_after_def sweep_expired_def clear_sessions_def conn_owns_drop conn_owns_exit
      intro: conn_owns_dispatch conn_owns_update_same\<close>)

interpretation owns: step_invariant "conn_step L" "\<lambda>_. True" "\<lambda>c. \<exists>others. conn_owns others [] c" for L
  by unfold_locales (blast dest: conn_owns_step)

lemma conn_owns_run:
  "conn_owns others [] c \<Longrightarrow> conn_run L es c = Some c' \<Longrightarrow> \<exists>others'. conn_owns others' [] c'"
  unfolding conn_run_def by (rule owns.run_keeps [of c es L]) auto

lemma conn_owns_init: "conn_owns used [] (conn_init users realm nc used bind_ip local_ip is_tls)"
  by (simp add: conn_init_def conn_owns_def ids_ok_def ports_ok_def own_ports_def)

text \<open>The connection ends: the registry is cleared, then its tasks see the cancellation in any order.\<close>

definition close_connection :: "nat list \<Rightarrow> ConnectionState \<Rightarrow> ConnectionState" where
  "close_connection order c = fold task_exit order (clear_sessions c)"

lemma fold_exit:
  assumes "conn_owns others [] c" "cs_sessions c = []"
  shows "conn_owns others [] (fold task_exit order c)" "cs_sessions (fold task_exit order c) = []"
    "set (map fst (cs_tasks (fold task_exit order c))) = set (map fst (cs_tasks c)) - set order"
proof -
  have one: "cs_sessions (task_exit oid d) = [] \<and>
      set (map fst (cs_tasks (task_exit oid d))) = set (map fst (cs_tasks d)) - {oid}"
    if "cs_sessions d = []" for oid d
  proof (cases "map_of (cs_tasks d) oid")
    case None
    then have "task_exit oid d = d" by (simp add: task_exit_def)
    moreover have "oid \<notin> fst ` set (cs_tasks d)" using None by (simp add: map_of_eq_None_iff)
    ultimately show ?thesis using that by simp
  next
    case (Some sid)
    then show ?thesis
      using that by (simp add: task_exit_def Let_def remove_session_def drop_sessions_def assoc_keys_filter del: list.set_map) auto
  qed
  have "conn_owns others [] (fold task_exit order c) \<and> cs_sessions (fold task_exit order c) = [] \<and>
      set (map fst (cs_tasks (fold task_exit order c))) = set (map fst (cs_tasks c)) - set order"
    using assms
  proof (induction order arbitrary: c)
    case (Cons oid order)
    from Cons.IH[of "task_exit oid c"] conn_owns_exit[OF Cons.prems(1), of oid] one[OF Cons.prems(2), of oid]
    show ?case by auto
  qed simp
  then show "conn_owns others [] (fold task_exit order c)" "cs_sessions (fold task_exit order c) = []"
    "set (map fst (cs_tasks (fold task_exit order c))) = set (map fst (cs_tasks c)) - set order" by auto
qed

text \<open>
  C5. In every history of a connection (requests, sweeps, exits of tasks in any order, other
  connections' leases) there are as many wake-lock guards as sessions and every session has its
  running task; the UDP ports of its tracks are different, in the pool's range and leased, and no
  event of this connection touches a port of another. Once the connection ended and its tasks are
  gone, in whatever order, no guard, session or track is left and exactly the others' ports are leased.
\<close>

theorem rtsp_no_leak:
  assumes "conn_run L es (conn_init users realm nc used bind_ip local_ip is_tls) = Some c"
    and "set (map fst (cs_tasks c)) \<subseteq> set order"
  shows "cs_guards c = length (cs_sessions c) \<and>
    (\<forall>(sid, e)\<in>set (cs_sessions c). (se_obj e, sid) \<in> set (cs_tasks c)) \<and>
    distinct (own_ports c) \<and> set (own_ports c) \<subseteq> cs_used c \<inter> pool_ports \<and>
    (\<forall>io req go r c'. dispatch_request L io req c = Some (go, r, c') \<longrightarrow>
       cs_used c' - set (own_ports c') = cs_used c - set (own_ports c)) \<and>
    cs_guards (close_connection order c) = 0 \<and> cs_sessions (close_connection order c) = [] \<and>
    cs_tasks (close_connection order c) = [] \<and> cs_objs (close_connection order c) = [] \<and>
    cs_used (close_connection order c) = cs_used c - set (own_ports c)"
proof -
  from conn_owns_run[OF conn_owns_init assms(1)] obtain others where c: "conn_owns others [] c" by blast
  have used: "cs_used d - set (own_ports d) = others" if "conn_owns others [] d" for d
    using that by (auto simp: conn_owns_def ports_ok_def)
  let ?d = "clear_sessions c"
  have d: "conn_owns others [] ?d" "cs_sessions ?d = []" "cs_tasks ?d = cs_tasks c"
    using conn_owns_drop[OF c, of "\<lambda>_. True"] by (auto simp: clear_sessions_def drop_sessions_def)
  note f = fold_exit[OF d(1,2), of order, folded close_connection_def]
  have "set (map fst (cs_tasks (close_connection order c))) = {}" using f(3) assms(2) d(3) by auto
  then have "cs_tasks (close_connection order c) = []" by simp
  moreover from this have "cs_objs (close_connection order c) = []" "cs_guards (close_connection order c) = 0"
    using f(1,2) by (auto simp: conn_owns_def ids_ok_def)
  moreover from this have "cs_used (close_connection order c) = cs_used c - set (own_ports c)"
    using used[OF f(1)] used[OF c] by (simp add: own_ports_def)
  moreover have "cs_used c' - set (own_ports c') = cs_used c - set (own_ports c)"
    if "dispatch_request L io req c = Some (go, r, c')" for io req go r c'
    using conn_owns_dispatch[OF c that] used c by simp
  ultimately show ?thesis
    using f(2) c unfolding conn_owns_def ids_ok_def ports_ok_def by simp
qed


section \<open>Who gets a session\<close>

lemma verify_Ok_user:
  "verify_basic b64 authz users = Some (Ok n) \<Longrightarrow> n \<in> u_name ` set users"
  "verify_digest md5 authz m uri users realm ok = Some (Ok n) \<Longrightarrow> n \<in> u_name ` set users"
  by (auto simp: verify_basic_def verify_digest_def Let_def first_match_Ok find_Some_iff
      split: option.splits sum.splits if_splits)

lemma auth_gate_user:
  "auth_gate L io p m c = Some (Inr user, c') \<Longrightarrow>
   (if cs_users c = [] then user = None else \<exists>n. user = Some n \<and> n \<in> u_name ` set (cs_users c))"
  by (auto simp: auth_gate_def authenticate_def Let_def
      split: if_splits option.splits AuthOutcome.splits sum.splits AuthError.splits
      dest: verify_Ok_user)

text \<open>
  A user entitled to a session: one of the configured ones, admitted by \<open>permit\<close>; nobody when there
  are no users.
\<close>

definition entitled :: "UserCred list \<Rightarrow> (string \<Rightarrow> string option \<Rightarrow> bool) \<Rightarrow> SubscriptionHandle \<Rightarrow> bool" where
  "entitled users permit s \<longleftrightarrow> permit (sub_camera s) (sub_user s) \<and>
     (if users = [] then sub_user s = None else \<exists>n. sub_user s = Some n \<and> n \<in> u_name ` set users)"

definition all_entitled :: "(string \<Rightarrow> string option \<Rightarrow> bool) \<Rightarrow> ConnectionState \<Rightarrow> bool" where
  "all_entitled permit c \<longleftrightarrow> (\<forall>(_, e)\<in>set (cs_sessions c). entitled (cs_users c) permit (se_sub e))"

definition io_permits :: "(string \<Rightarrow> string option \<Rightarrow> bool) \<Rightarrow> req_io \<Rightarrow> bool" where
  "io_permits permit io \<longleftrightarrow> (\<forall>cam kind user sdp. io_subscribe io cam kind user = Ok sdp \<longrightarrow> permit cam user)"

lemma subscribe_permits:
  "io_permits permit io \<Longrightarrow> subscribe_with_extern_fallback io cam kind user = Ok s \<Longrightarrow>
   sub_user s = user \<and> sub_camera s = cam \<and> permit cam user"
  by (auto simp: subscribe_with_extern_fallback_def Let_def io_permits_def
      split: sum.splits StreamError.splits if_splits)

lemma frame_simps [simp]:
  "cs_users (drop_transport t c) = cs_users c" "cs_sessions (drop_transport t c) = cs_sessions c"
  "cs_users (append_track sid tk c) = cs_users c" "cs_sessions (append_track sid tk c) = cs_sessions c"
  "cs_users (mark_playing sid c) = cs_users c" "cs_sessions (mark_playing sid c) = cs_sessions c"
  "cs_users (update_obj oid f c) = cs_users c" "cs_users (touch sid now c) = cs_users c"
  "cs_users (drop_sessions gone c) = cs_users c"
  "set (cs_sessions (drop_sessions gone c)) = {x \<in> set (cs_sessions c). \<not> gone x}"
  by (auto simp: drop_transport_def append_track_def mark_playing_def update_obj_def touch_def drop_sessions_def
      split: transport_impl.splits option.splits)

lemma all_entitled_simps [simp]:
  "all_entitled permit (c\<lparr>cs_nonce := nc\<rparr>) = all_entitled permit c"
  "all_entitled permit (drop_transport t c) = all_entitled permit c"
  "all_entitled permit (append_track sid tk c) = all_entitled permit c"
  "all_entitled permit (mark_playing sid c) = all_entitled permit c"
  "all_entitled permit (update_obj oid f c) = all_entitled permit c"
  "all_entitled permit (touch sid now c) = all_entitled permit c"
  by (auto simp: all_entitled_def) (auto simp: touch_def split: if_splits)

lemma all_entitled_drop: "all_entitled permit c \<Longrightarrow> all_entitled permit (drop_sessions gone c)"
  by (auto simp: all_entitled_def)

lemma build_transport_frame:
  "build_transport io spec c = (x, c') \<Longrightarrow> cs_sessions c' = cs_sessions c \<and> cs_users c' = cs_users c"
  by (auto simp: build_transport_def split: TransportSpec.splits option.splits)

lemma all_entitled_setup_session:
  assumes "all_entitled permit c" "io_permits permit io"
    "if cs_users c = [] then user = None else \<exists>n. user = Some n \<and> n \<in> u_name ` set (cs_users c)"
  shows "all_entitled permit (snd (setup_session io p r n user t resp c))"
  using assms subscribe_permits[OF assms(2)]
  by (auto simp: setup_session_def Let_def start_session_def split: option.splits sum.splits StreamError.splits)
     (auto simp: all_entitled_def entitled_def)

lemma all_entitled_setup:
  assumes "all_entitled permit c" "io_permits permit io" "handle_setup L io p c = Some (r, c')"
  shows "all_entitled permit c' \<and> cs_users c' = cs_users c"
  using assms(3)
proof (cases rule: handle_setup_cases)
  case (3 c1 c2 r' n user spec t tr)
  obtain nc where c1: "c1 = c\<lparr>cs_nonce := nc\<rparr>" using auth_gate_nonce[OF 3(1)] by blast
  from build_transport_frame[OF 3(2)] c1 have c2: "cs_sessions c2 = cs_sessions c" "cs_users c2 = cs_users c" by auto
  then have "all_entitled permit c2" using assms(1) by (simp add: all_entitled_def)
  from all_entitled_setup_session[OF this assms(2), of user p r' n t tr] auth_gate_user[OF 3(1)] c2 3(3)
  have "all_entitled permit c'" by simp
  moreover have "cs_users (snd (setup_session io p r' n user t tr c2)) = cs_users c2"
    by (auto simp: setup_session_def Let_def start_session_def split: option.splits sum.splits StreamError.splits)
  ultimately show ?thesis using 3(3) c2 by simp
qed (use assms in auto)


lemma all_entitled_describe:
  assumes "all_entitled permit c" "handle_describe L io p c = Some (r, c')"
  shows "all_entitled permit c' \<and> cs_users c' = cs_users c"
  using assms auth_gate_nonce[of L io p Describe c]
  by (fastforce simp: handle_describe_def Let_def split: option.splits prod.splits sum.splits StreamError.splits)

lemma all_entitled_dispatch:
  assumes "all_entitled permit c" "io_permits permit io" "dispatch_request L io req c = Some (go, r, c')"
  shows "all_entitled permit c' \<and> cs_users c' = cs_users c"
proof -
  have d: "all_entitled permit c' \<and> cs_users c' = cs_users c"
    if "handle_describe L io p (touch sid now c) = Some (r, c')" for p sid now
    using all_entitled_describe[OF _ that] assms(1) by simp
  have s: "all_entitled permit c' \<and> cs_users c' = cs_users c"
    if "handle_setup L io p (touch sid now c) = Some (r, c')" for p sid now
    using all_entitled_setup[OF _ assms(2) that] assms(1) by simp
  have s': "all_entitled permit c' \<and> cs_users c' = cs_users c"
    if "handle_setup L io p c = Some (r, c')" for p
    using all_entitled_setup[OF assms(1,2) that] .
  have d': "all_entitled permit c' \<and> cs_users c' = cs_users c"
    if "handle_describe L io p c = Some (r, c')" for p
    using all_entitled_describe[OF assms(1) that] .
  show ?thesis
    using assms(1,3)
    by (auto simp: dispatch_request_def handle_play_def handle_teardown_def remove_session_def Let_def all_entitled_drop
        split: sum.splits if_splits option.splits RtspMethod.splits dest: d d' s s')
qed

lemma all_entitled_step:
  assumes "all_entitled permit c" "\<And>io req. e = Request io req \<Longrightarrow> io_permits permit io" "conn_step L e c = Some c'"
  shows "all_entitled permit c' \<and> cs_users c' = cs_users c"
proof (cases e)
  case (TaskExit oid)
  then show ?thesis
    using assms(1,3)
    by (auto simp: task_exit_def Let_def remove_session_def all_entitled_def split: option.splits)
next
  case (Others ports)
  then show ?thesis using assms(1,3) by (auto simp: all_entitled_def)
qed (use assms in \<open>auto simp: sweep_expired_def clear_sessions_def all_entitled_drop dest!: all_entitled_dispatch[rotated 2]\<close>)

interpretation entitled: step_invariant "conn_step L"
  "\<lambda>e. \<forall>io req. e = Request io req \<longrightarrow> io_permits permit io"
  "\<lambda>c. all_entitled permit c \<and> cs_users c = users" for L permit users
proof
  fix s e s'
  assume "all_entitled permit s \<and> cs_users s = users" "\<forall>io req. e = Request io req \<longrightarrow> io_permits permit io"
    "conn_step L e s = Some s'"
  then show "all_entitled permit s' \<and> cs_users s' = users"
    using all_entitled_step [of permit s e L s'] by simp
qed

lemma all_entitled_run:
  assumes "conn_run L es c = Some c'" "all_entitled permit c" "\<And>io req. Request io req \<in> set es \<Longrightarrow> io_permits permit io"
  shows "all_entitled permit c' \<and> cs_users c' = cs_users c"
proof (rule entitled.run_keeps)
  show "run_events (conn_step L) es c = Some c'" using assms(1) by (simp add: conn_run_def)
qed (use assms(2,3) in blast)+

lemma filter_key:
  "distinct (map fst xs) \<Longrightarrow> (k, v) \<in> set xs \<Longrightarrow> filter (\<lambda>(i, _). i = k) xs = [(k, v)]"
  by (induction xs) (force simp: filter_empty_conv)+

text \<open>
  C38. A session ID that is used again while the task of the old session is still ending is lost: when the
  old task exits it removes the new session of the same ID, whose guard goes and whose PLAY is then
  answered with 454, although its own task still runs.
\<close>

theorem stale_task_removes_session:
  assumes "conn_run L es (conn_init users realm nc used bind_ip local_ip is_tls) = Some c"
    and "(oid, sid) \<in> set (cs_tasks c)" and "lookup_session sid c = Some e" and "se_obj e \<noteq> oid"
  shows "lookup_session sid (task_exit oid c) = None \<and>
    (se_obj e, sid) \<in> set (cs_tasks (task_exit oid c)) \<and>
    cs_guards (task_exit oid c) + 1 = cs_guards c \<and>
    (\<forall>p. pr_session p = Some sid \<longrightarrow> rs_status (fst (handle_play p (task_exit oid c))) = S454)"
proof -
  from conn_owns_run[OF conn_owns_init assms(1)] obtain others where c: "conn_owns others [] c" by blast
  then have ids: "distinct (map fst (cs_tasks c))" "distinct (map fst (cs_sessions c))"
    "cs_guards c = length (cs_sessions c)" by (auto simp: conn_owns_def ids_ok_def)
  have e: "(sid, e) \<in> set (cs_sessions c)" using assms(3) by (simp add: lookup_session_def map_of_SomeD)
  then have run: "(se_obj e, sid) \<in> set (cs_tasks c)" using c by (auto simp: conn_owns_def ids_ok_def)
  have t: "map_of (cs_tasks c) oid = Some sid" using assms(2) ids(1) by simp
  have "lookup_session sid (task_exit oid c) = None"
    by (auto simp: lookup_session_def task_exit_def t Let_def remove_session_def map_of_eq_None_iff)
  moreover have "(se_obj e, sid) \<in> set (cs_tasks (task_exit oid c))"
    using run assms(4) by (simp add: task_exit_def t Let_def remove_session_def drop_sessions_def)
  moreover have "filter (\<lambda>(i, _). i = sid) (cs_sessions c) = [(sid, e)]"
    using filter_key[OF ids(2) e] .
  moreover have "0 < length (cs_sessions c)" using e by (cases "cs_sessions c") auto
  ultimately show ?thesis
    using ids(3) e by (auto simp: handle_play_def task_exit_def t Let_def remove_session_def drop_sessions_def response_def)
qed


text \<open>A connection without users, and three requests on the session \<open>abc\<close>.\<close>

definition std_request :: "bytes \<rightharpoonup> rtsp_request" where
  "std_request b =
     (if b = [1] then Some \<lparr>rq_method = ''SETUP'', rq_uri = Some ''rtsp://h/cam/main'',
        rq_headers = [(''CSeq'', ''1''), (''Session'', ''abc''),
          (''Transport'', ''RTP/AVP/TCP;unicast;interleaved=0-1'')]\<rparr>
      else if b = [2] then Some \<lparr>rq_method = ''TEARDOWN'', rq_uri = Some ''rtsp://h/cam/main'',
        rq_headers = [(''CSeq'', ''2''), (''Session'', ''abc'')]\<rparr>
      else None)"

abbreviation open_conn :: ConnectionState where
  "open_conn \<equiv> conn_init [] ''bairelay'' \<lparr>nonce_value = ''00ff'', nonce_created = 0\<rparr> {}
     (V4 0) (V4 0x0a000001) False"

definition std_run :: "conn_event list \<Rightarrow> ConnectionState option" where
  "std_run es = conn_run (std_lib std_request) es open_conn"

lemma std_parse:
  "parse_request (l_parse (std_lib std_request)) [1] =
     Ok \<lparr>pr_method = Setup, pr_uri = ''rtsp://h/cam/main'', pr_cseq = 1, pr_session = Some ''abc'',
         pr_authorization = None, pr_user_agent = None,
         pr_transport = Some ''RTP/AVP/TCP;unicast;interleaved=0-1'', pr_range = None\<rparr>"
  "parse_request (l_parse (std_lib std_request)) [2] =
     Ok \<lparr>pr_method = Teardown, pr_uri = ''rtsp://h/cam/main'', pr_cseq = 2, pr_session = Some ''abc'',
         pr_authorization = None, pr_user_agent = None, pr_transport = None, pr_range = None\<rparr>"
  by (simp_all add: parse_request_def std_lib_def std_request_def from_rtsp_types_def method_str_def
      header_str_def parse_uint_def lower_Cons to_lower_def eq_ignore_ascii_case_def)

lemma std_path:
  "split_track (extract_path ''rtsp://h/cam/main'') = (''/cam/main'', 0)"
  "resolve ''/cam/main'' = Some \<lparr>rp_camera = ''cam'', rp_stream = Main\<rparr>"
  "transport_parse ''RTP/AVP/TCP;unicast;interleaved=0-1'' = Some (Ok (TcpInterleaved 0 1))"
  by (simp_all add: split_track_def extract_path_def rsplit_once_def strip_prefix_def resolve_def
      trim_slashes_def trim_matches_def parse_stream_suffix_def transport_parse_def parse_range_u8_def parse_range_def
      parse_bound_def parse_uint_def strip_prefix_ignore_case_def split_at_def is_char_boundary_def
      lower_Cons to_lower_def Let_def)

lemma std_reuse:
  "map_option (\<lambda>c. (cs_tasks c, map_option se_obj (lookup_session ''abc'' c)))
     (std_run [Request (std_io 1) [1], Request (std_io 2) [2], Request (std_io 3) [1]]) =
   Some ([(1, ''abc''), (0, ''abc'')], Some 1)"
  by (simp add: std_run_def conn_run_def dispatch_request_def std_parse scheme_matches_transport_def handle_setup_def std_path
      auth_gate_def conn_init_def touch_def build_transport_def setup_session_def lookup_session_def
      subscribe_with_extern_fallback_def std_io_def start_session_def handle_teardown_def
      remove_session_def drop_sessions_def Let_def)

theorem stale_task_removes_session_witness:
  "\<exists>c. std_run [Request (std_io 1) [1], Request (std_io 2) [2], Request (std_io 3) [1]] = Some c \<and>
     lookup_session ''abc'' c \<noteq> None \<and> lookup_session ''abc'' (task_exit 0 c) = None"
proof -
  obtain c e where c: "std_run [Request (std_io 1) [1], Request (std_io 2) [2], Request (std_io 3) [1]] = Some c"
    and t: "(0, ''abc'') \<in> set (cs_tasks c)" and e: "lookup_session ''abc'' c = Some e" "se_obj e \<noteq> 0"
    using std_reuse by auto
  from stale_task_removes_session[OF c[unfolded std_run_def] t e] c e show ?thesis by auto
qed

theorem rtsp_no_leak_witness:
  "\<exists>c. std_run [Request (std_io 1) [1], Request (std_io 2) [2], Request (std_io 3) [1]] = Some c \<and>
     length (cs_tasks c) = 2 \<and> cs_guards c = length (cs_sessions c) \<and>
     cs_guards (close_connection [0, 1] c) = 0 \<and> cs_tasks (close_connection [0, 1] c) = []"
proof -
  obtain c where c: "std_run [Request (std_io 1) [1], Request (std_io 2) [2], Request (std_io 3) [1]] = Some c"
    and t: "cs_tasks c = [(1, ''abc''), (0, ''abc'')]"
    using std_reuse by auto
  have "set (map fst (cs_tasks c)) \<subseteq> set [0, 1]" by (simp add: t)
  from rtsp_no_leak[OF c[unfolded std_run_def] this] c t show ?thesis by auto
qed

end
