(* ===== verification/Camera_Provider.thy ===== *)
theory Camera_Provider
  imports Rtsp_Sessions
begin

text \<open>
  The provider behind the RTSP server (\<open>src/camera_provider.rs\<close>) with the waits for SDP parameters of
  \<open>src/stream_source.rs\<close>: access control, the wait for video or for both tracks, and the bonus
  window for audio. Times are milliseconds; a sleep lasts exactly the poll interval.
\<close>

section \<open>Waiting for parameters\<close>

definition SDP_POLL_INTERVAL :: nat where "SDP_POLL_INTERVAL = 100"

definition SDP_READY_TIMEOUT :: nat where "SDP_READY_TIMEOUT = 15000"

text \<open>
  The poll loop. \<open>sdp t\<close> is what the reader task has published at time \<open>t\<close>; the result has the
  snapshot, \<open>None\<close> after the deadline, and the time.
\<close>

function await_until ::
  "(SdpParams \<Rightarrow> bool) \<Rightarrow> (nat \<Rightarrow> SdpParams) \<Rightarrow> nat \<Rightarrow> nat \<Rightarrow> nat \<Rightarrow> SdpParams option \<times> nat" where
  "await_until ready sdp start timeout now =
     (if ready (sdp now) then (Some (sdp now), now)
      else if timeout < now - start then (None, now)
      else await_until ready sdp start timeout (now + SDP_POLL_INTERVAL))"
  by pat_completeness auto
termination
  by (relation "measure (\<lambda>(_, _, start, timeout, now). start + timeout + 1 - now)")
     (auto simp: SDP_POLL_INTERVAL_def)

declare await_until.simps [simp del]

definition await_sdp_ready :: "(nat \<Rightarrow> SdpParams) \<Rightarrow> nat \<Rightarrow> nat \<Rightarrow> (string + SdpParams) \<times> nat" where
  "await_sdp_ready sdp timeout now =
     (case await_until (\<lambda>p. sp_video p \<noteq> None) sdp now timeout now of
        (Some p, t) \<Rightarrow> (Ok p, t)
      | (None, t) \<Rightarrow> (Err ''SDP video parameters not ready'', t))"

definition await_sdp_both :: "(nat \<Rightarrow> SdpParams) \<Rightarrow> nat \<Rightarrow> nat \<Rightarrow> (string + SdpParams) \<times> nat" where
  "await_sdp_both sdp timeout now =
     (case await_until (\<lambda>p. sp_video p \<noteq> None \<and> sp_audio p \<noteq> None) sdp now timeout now of
        (Some p, t) \<Rightarrow> (Ok p, t)
      | (None, t) \<Rightarrow> (Err ''SDP video+audio parameters not ready'', t))"

definition await_audio_or_deadline :: "(nat \<Rightarrow> SdpParams) \<Rightarrow> nat \<Rightarrow> nat \<Rightarrow> (string + unit) \<times> nat" where
  "await_audio_or_deadline sdp timeout now =
     (case await_until (\<lambda>p. sp_audio p \<noteq> None) sdp now timeout now of
        (Some _, t) \<Rightarrow> (Ok (), t)
      | (None, t) \<Rightarrow> (Err ''audio SDP not observed before deadline'', t))"

section \<open>Subscribing\<close>

definition classify_presence :: "AudioPresence \<Rightarrow> bool \<times> nat" where
  "classify_presence p = (case p of Present _ \<Rightarrow> (True, 0) | Absent \<Rightarrow> (False, 0) | Unknown \<Rightarrow> (False, 2000))"

text \<open>
  A camera of the registry: its allowlist, its \<open>stream_source\<close> (when it has a source, and what the
  source publishes), and the audio presence.
\<close>

record camera_entry =
  permitted_users :: "string list"
  stream_source :: "StreamKind \<Rightarrow> nat \<Rightarrow> StreamError + (nat \<times> (nat \<Rightarrow> SdpParams))"
  presence_at :: "nat \<Rightarrow> AudioPresence"

definition access_denied :: "camera_entry \<Rightarrow> string option \<Rightarrow> bool" where
  "access_denied cam user = (case user of
     None \<Rightarrow> False
   | Some u \<Rightarrow> permitted_users cam \<noteq> [] \<and> u \<notin> set (permitted_users cam))"

definition await_params :: "(nat \<Rightarrow> SdpParams) \<Rightarrow> AudioPresence \<Rightarrow> nat \<Rightarrow> (StreamError + SdpParams) \<times> nat" where
  "await_params sdp presence now =
     (let (wait_audio, bonus_window) = classify_presence presence
      in if wait_audio then
           (case await_sdp_both sdp SDP_READY_TIMEOUT now of
              (Inl e, t) \<Rightarrow> (Err (Unavailable e), t)
            | (Inr p, t) \<Rightarrow> (Ok p, t))
         else
           (case await_sdp_ready sdp SDP_READY_TIMEOUT now of
              (Inl e, t) \<Rightarrow> (Err (Unavailable e), t)
            | (Inr p, t) \<Rightarrow>
                (let t = (if bonus_window = 0 then t else snd (await_audio_or_deadline sdp bonus_window t))
                 in (Ok (sdp t), t))))"

definition provider_subscribe ::
  "(string \<rightharpoonup> camera_entry) \<Rightarrow> nat \<Rightarrow> string \<Rightarrow> StreamKind \<Rightarrow> string option \<Rightarrow> (StreamError + SdpParams) \<times> nat" where
  "provider_subscribe cameras now camera kind authenticated_user = (case cameras camera of
     None \<Rightarrow> (Err UnknownCamera, now)
   | Some handle \<Rightarrow>
       if access_denied handle authenticated_user then (Err AccessDenied, now)
       else (case stream_source handle kind now of
          Inl e \<Rightarrow> (Err e, now)
        | Inr (t, sdp) \<Rightarrow> await_params sdp (presence_at handle t) t))"

section \<open>Properties\<close>

lemma await_until_spec:
  assumes "start \<le> now" "now \<le> start + timeout + SDP_POLL_INTERVAL" "await_until ready sdp start timeout now = (r, t)"
  shows "now \<le> t \<and> t \<le> start + timeout + SDP_POLL_INTERVAL \<and>
    (case r of Some p \<Rightarrow> p = sdp t \<and> ready p | None \<Rightarrow> start + timeout < t \<and> \<not> ready (sdp t))"
  using assms
proof (induction ready sdp start timeout now rule: await_until.induct)
  case (1 ready sdp start timeout now)
  show ?case
  proof (cases "ready (sdp now) \<or> timeout < now - start")
    case True
    then show ?thesis using 1(2-) by (auto simp: await_until.simps [of ready sdp start timeout now] split: if_splits)
  next
    case False
    with 1(4) have "await_until ready sdp start timeout (now + SDP_POLL_INTERVAL) = (r, t)"
      by (simp add: await_until.simps [of ready sdp start timeout now])
    moreover have "now \<le> start + timeout" using False 1(2) by linarith
    ultimately show ?thesis using 1(1) False 1(2) by auto
  qed
qed

lemmas await_from_now = await_until_spec [where start = n and now = n for n, OF le_refl trans_le_add1 [OF le_add1]]

lemma await_params_spec:
  assumes "await_params sdp presence now = (r, t)"
    and "\<And>t t'. t \<le> t' \<Longrightarrow> sp_video (sdp t) \<noteq> None \<Longrightarrow> sp_video (sdp t') \<noteq> None"
  shows "now \<le> t \<and> t \<le> now + SDP_READY_TIMEOUT + 2000 + 2 * SDP_POLL_INTERVAL \<and>
    (case r of
       Inr p \<Rightarrow> p = sdp t \<and> sp_video p \<noteq> None \<and> (\<forall>c. presence = Present c \<longrightarrow> sp_audio p \<noteq> None)
     | Inl e \<Rightarrow> \<exists>m. e = Unavailable m)"
proof (cases presence)
  case (Present c)
  obtain q u where a: "await_until (\<lambda>p. sp_video p \<noteq> None \<and> sp_audio p \<noteq> None) sdp now SDP_READY_TIMEOUT now = (q, u)"
    by fastforce
  from await_from_now [OF a] show ?thesis
    using assms(1) a by (auto simp: await_params_def Present classify_presence_def await_sdp_both_def split: option.splits)
next
  case Absent
  obtain q u where a: "await_until (\<lambda>p. sp_video p \<noteq> None) sdp now SDP_READY_TIMEOUT now = (q, u)" by fastforce
  from await_from_now [OF a] show ?thesis
    using assms(1) a by (auto simp: await_params_def Absent classify_presence_def await_sdp_ready_def Let_def split: option.splits)
next
  case Unknown
  obtain q u where a: "await_until (\<lambda>p. sp_video p \<noteq> None) sdp now SDP_READY_TIMEOUT now = (q, u)" by fastforce
  obtain q' u' where b: "await_until (\<lambda>p. sp_audio p \<noteq> None) sdp u 2000 u = (q', u')" by fastforce
  from await_from_now [OF a] await_from_now [OF b] show ?thesis
    using assms(1) assms(2) [of u u'] a b
    by (auto simp: await_params_def Unknown classify_presence_def await_sdp_ready_def await_audio_or_deadline_def Let_def
        split: option.splits)
qed

text \<open>
  A subscription never waits longer than 17.2 s for the source, and what it hands out has video
  parameters, and audio parameters too when audio was seen before, so DESCRIBE never advertises a
  stream without video. Failing to get them in time is \<open>Unavailable\<close>, answered with 503. That the
  reader task never takes video parameters back is a hypothesis.
\<close>

theorem subscribe_ready:
  assumes "provider_subscribe cameras now camera kind user = (r, t)"
    and "cameras camera = Some cam" "\<not> access_denied cam user" "stream_source cam kind now = Ok (t0, sdp)"
    and "\<And>t t'. t \<le> t' \<Longrightarrow> sp_video (sdp t) \<noteq> None \<Longrightarrow> sp_video (sdp t') \<noteq> None"
  shows "t0 \<le> t \<and> t \<le> t0 + 17200 \<and>
    (case r of
       Inr p \<Rightarrow> p = sdp t \<and> sp_video p \<noteq> None \<and> (\<forall>c. presence_at cam t0 = Present c \<longrightarrow> sp_audio p \<noteq> None)
     | Inl e \<Rightarrow> \<exists>m. e = Unavailable m)"
  using await_params_spec [of sdp "presence_at cam t0" t0 r t] assms
  by (auto simp: provider_subscribe_def SDP_READY_TIMEOUT_def SDP_POLL_INTERVAL_def)

lemma provider_permits:
  assumes "\<And>cam kind user. io_subscribe io cam kind user = fst (provider_subscribe cameras now cam kind user)"
  shows "io_permits (\<lambda>cam user. \<exists>h. cameras cam = Some h \<and> \<not> access_denied h user) io"
  using assms by (auto simp: io_permits_def provider_subscribe_def split: option.splits if_splits)

text \<open>
  On a server with users every session, in every history, belongs to a configured user who authenticated for
  it, and whoever holds a session is admitted by the allowlist of its camera.
\<close>

lemma session_entitled:
  assumes "conn_run L es (conn_init users realm nc used bind_ip local_ip is_tls) = Some c"
    and "\<And>io req. Request io req \<in> set es \<Longrightarrow>
      (\<lambda>cam kind user. fst (provider_subscribe cameras (io_now io) cam kind user)) = io_subscribe io"
    and "(sid, e) \<in> set (cs_sessions c)"
  shows "entitled users (\<lambda>cam user. \<exists>h. cameras cam = Some h \<and> \<not> access_denied h user) (se_sub e)"
proof -
  let ?permit = "\<lambda>cam user. \<exists>h. cameras cam = Some h \<and> \<not> access_denied h user"
  have io: "io_permits ?permit io" if "Request io req \<in> set es" for io req
    by (rule provider_permits [where now = "io_now io"]) (simp add: assms(2) [OF that, symmetric])
  have "all_entitled ?permit (conn_init users realm nc used bind_ip local_ip is_tls)"
    by (simp add: all_entitled_def conn_init_def)
  from all_entitled_run [OF assms(1) this io] have "all_entitled ?permit c" "cs_users c = users"
    by (simp_all add: conn_init_def)
  then show ?thesis using assms(3) by (auto simp: all_entitled_def)
qed

text \<open>A login on a camera to which only that user is admitted.\<close>

definition ready_sdp :: SdpParams where
  "ready_sdp = std_sdp\<lparr>sp_video := Some \<lparr>vp_codec = CH264, vp_payload_type = 96, vp_sps = [0x67, 1, 2, 3],
     vp_pps = [0x68], vp_vps = None, profile_level_id = [1, 2, 3]\<rparr>\<rparr>"

definition std_cameras :: "string \<rightharpoonup> camera_entry" where
  "std_cameras = [''cam'' \<mapsto> \<lparr>permitted_users = [''admin''],
     stream_source = (\<lambda>_ now. Ok (now, \<lambda>t. if now + 250 \<le> t then ready_sdp else std_sdp)),
     presence_at = (\<lambda>_. Absent)\<rparr>]"

lemma std_await:
  "await_until (\<lambda>p. \<exists>y. sp_video p = Some y) (\<lambda>t. if now + 250 \<le> t then ready_sdp else std_sdp) now SDP_READY_TIMEOUT now =
     (Some ready_sdp, now + 300)"
  by (simp add: await_until.simps SDP_POLL_INTERVAL_def SDP_READY_TIMEOUT_def std_sdp_def ready_sdp_def)

lemma std_subscribe:
  "provider_subscribe std_cameras now ''cam'' kind (Some ''admin'') = (Ok ready_sdp, now + 300)"
  by (simp add: provider_subscribe_def std_cameras_def access_denied_def await_params_def classify_presence_def
      await_sdp_ready_def std_await)

theorem subscribe_ready_witness:
  "provider_subscribe std_cameras 7 ''cam'' Main (Some ''admin'') = (Ok ready_sdp, 307) \<and>
   (7::nat) \<le> 307 \<and> 307 \<le> (7::nat) + 17200 \<and> sp_video ready_sdp \<noteq> None"
proof -
  let ?sdp = "\<lambda>t. if (7::nat) + 250 \<le> t then ready_sdp else std_sdp" and ?cam = "the (std_cameras ''cam'')"
  have s: "provider_subscribe std_cameras 7 ''cam'' Main (Some ''admin'') = (Ok ready_sdp, 307)"
    by (simp add: std_subscribe)
  have "7 \<le> (307::nat) \<and> 307 \<le> 7 + (17200::nat) \<and> (case Ok ready_sdp of
       Inr p \<Rightarrow> p = ?sdp 307 \<and> sp_video p \<noteq> None \<and> (\<forall>c. presence_at ?cam 7 = Present c \<longrightarrow> sp_audio p \<noteq> None)
     | Inl e \<Rightarrow> \<exists>m. e = Unavailable m)"
    by (rule subscribe_ready [OF s])
       (auto simp: std_cameras_def access_denied_def std_sdp_def split: if_splits)
  then show ?thesis using s by simp
qed

definition login_request :: "bytes \<rightharpoonup> rtsp_request" where
  "login_request b = Some \<lparr>rq_method = ''SETUP'', rq_uri = Some ''rtsp://h/cam'',
     rq_headers = [(''CSeq'', ''1''), (''Authorization'', std_authz),
       (''Transport'', ''RTP/AVP/TCP;unicast;interleaved=0-1'')]\<rparr>"

definition login_io :: req_io where
  "login_io = (std_io 1)\<lparr>io_subscribe := (\<lambda>cam kind user. fst (provider_subscribe std_cameras 1 cam kind user))\<rparr>"

lemma login_run:
  "map_option (\<lambda>c. map (\<lambda>(sid, e). (sid, sub_user (se_sub e), sub_camera (se_sub e))) (cs_sessions c))
     (conn_run (std_lib login_request) [Request login_io [1]] std_conn) =
   Some [(''s1'', Some ''admin'', ''cam'')]"
proof -
  have "trim std_authz = std_authz" by (rule trim_id) (simp_all add: digest_header_def)
  then have p: "parse_request (l_parse (std_lib login_request)) [1] =
     Ok \<lparr>pr_method = Setup, pr_uri = ''rtsp://h/cam'', pr_cseq = 1, pr_session = None,
         pr_authorization = Some std_authz, pr_user_agent = None,
         pr_transport = Some ''RTP/AVP/TCP;unicast;interleaved=0-1'', pr_range = None\<rparr>"
    by (simp add: parse_request_def std_lib_def login_request_def from_rtsp_types_def method_str_def
      header_str_def parse_uint_def lower_Cons to_lower_def eq_ignore_ascii_case_def)
  have r: "split_track (extract_path ''rtsp://h/cam'') = (''/cam'', 0)"
    "resolve ''/cam'' = Some \<lparr>rp_camera = ''cam'', rp_stream = Main\<rparr>"
    by (simp_all add: split_track_def extract_path_def rsplit_once_def strip_prefix_def resolve_def
      trim_slashes_def trim_matches_def parse_stream_suffix_def lower_Cons to_lower_def Let_def)
  have "show_nat (Suc 0) = ''1''" by code_simp
  then show ?thesis using std_login p std_subscribe
    by (simp add: conn_run_def dispatch_request_def p r std_path scheme_matches_transport_def handle_setup_def
      auth_gate_def authenticate_def conn_init_def build_transport_def setup_session_def lookup_session_def
      subscribe_with_extern_fallback_def login_io_def std_io_def start_session_def std_conn_def is_stale_def
      NONCE_TTL_def method_str_def std_lib_def std_user_def Let_def)
qed

end
