(* ===== verification/App.thy ===== *)
theory App
  imports Config Camera_Provider
begin

text \<open>
  What the program is put together from at start-up (\<open>src/main.rs\<close>, \<open>src/orchestrator.rs\<close>,
  \<open>src/mqtt_loop.rs\<close>): the cameras and the users the configuration gives, and access control from the
  configuration file to the RTSP session.
\<close>

section \<open>From the configuration\<close>

definition build_rtsp_users :: "Config \<Rightarrow> UserCred list" where
  "build_rtsp_users config = map (\<lambda>u. \<lparr>u_name = user_name u, u_password = user_pass u\<rparr>) (users config)"

definition resolve_topic_prefix :: "Config \<Rightarrow> string" where
  "resolve_topic_prefix config = (case mqtt config of Some m \<Rightarrow> topic_prefix m | None \<Rightarrow> ''bairelay'')"

record broker_config =
  bc_addr :: string
  bc_port :: u16
  bc_credentials :: "(string \<times> string) option"
  bc_ca :: "string option"
  bc_client_auth :: "(string \<times> string) option"

definition build_broker_config :: "Config \<Rightarrow> broker_config option" where
  "build_broker_config config = map_option (\<lambda>m. \<lparr>bc_addr = broker_addr m, bc_port = broker_port m,
     bc_credentials = credentials m, bc_ca = ca m, bc_client_auth = None\<rparr>) (mqtt config)"

text \<open>The map of the orchestrator: a later camera of the same name would replace an earlier one.\<close>

definition orchestrator_cameras :: "Config \<Rightarrow> string \<rightharpoonup> CameraConfig" where
  "orchestrator_cameras config = map_of (rev (map (\<lambda>c. (cam_name c, c)) (filter cam_enabled (cameras config))))"

text \<open>
  What the RTSP provider sees of a camera. \<open>dev\<close> stands for the camera itself: how its stream source and its
  audio presence turn out over time.
\<close>

definition handle_entry ::
  "(string \<Rightarrow> (StreamKind \<Rightarrow> nat \<Rightarrow> StreamError + (nat \<times> (nat \<Rightarrow> SdpParams))) \<times> (nat \<Rightarrow> AudioPresence)) \<Rightarrow>
   CameraConfig \<Rightarrow> camera_entry" where
  "handle_entry dev cam = \<lparr>permitted_users = cam_permitted_users cam, stream_source = fst (dev (cam_name cam)),
     presence_at = snd (dev (cam_name cam))\<rparr>"

definition app_cameras ::
  "(string \<Rightarrow> (StreamKind \<Rightarrow> nat \<Rightarrow> StreamError + (nat \<times> (nat \<Rightarrow> SdpParams))) \<times> (nat \<Rightarrow> AudioPresence)) \<Rightarrow>
   Config \<Rightarrow> string \<rightharpoonup> camera_entry" where
  "app_cameras dev config name = map_option (handle_entry dev) (orchestrator_cameras config name)"

section \<open>Access control\<close>

lemma orchestrator_camerasD:
  "orchestrator_cameras c name = Some cam \<Longrightarrow> cam \<in> set (cameras c) \<and> cam_enabled cam \<and> cam_name cam = name"
  by (auto simp: orchestrator_cameras_def dest!: map_of_SomeD)

lemma orchestrator_cameras_iff:
  assumes "validate_config c = Ok ()"
  shows "orchestrator_cameras c name = Some cam \<longleftrightarrow> cam \<in> set (cameras c) \<and> cam_enabled cam \<and> cam_name cam = name"
proof -
  have "distinct (map fst (rev (map (\<lambda>c. (cam_name c, c)) (filter cam_enabled (cameras c)))))"
    using distinct_map_filter [OF validatedD(2) [OF assms], of cam_enabled] by (simp add: rev_map [symmetric] comp_def)
  then show ?thesis by (auto simp: orchestrator_cameras_def)
qed


definition app_config :: Config where
  "app_config = Config_default\<lparr>users := [\<lparr>user_name = ''admin'', user_pass = ''s, e=c''\<rparr>],
     cameras := [CameraConfig_default\<lparr>cam_name := ''cam'', cam_address := Some ''10.0.0.2'', cam_password := Some ''pw'',
       cam_permitted_users := [''admin'']\<rparr>]\<rparr>"

lemma app_config_valid: "validate_config app_config = Ok ()"
  unfolding validate_config_iff wf_config_def
  by (auto simp: app_config_def Config_default_def CameraConfig_default_def MqttConfig_default_def
      PauseConfig_default_def default_motion_wake_hold_secs_def default_gap_threshold_def wf_tls_def wf_push_def
      wf_camera_def topic_safe_def positive_secs_def trim_visible)

definition app_dev :: "string \<Rightarrow> (StreamKind \<Rightarrow> nat \<Rightarrow> StreamError + (nat \<times> (nat \<Rightarrow> SdpParams))) \<times> (nat \<Rightarrow> AudioPresence)" where
  "app_dev _ = ((\<lambda>_ now. Ok (now, \<lambda>t. if now + 250 \<le> t then ready_sdp else std_sdp)), \<lambda>_. Absent)"

lemma app_cameras_std: "app_cameras app_dev app_config = std_cameras"
  by (rule ext)
    (simp add: app_cameras_def orchestrator_cameras_def app_config_def Config_default_def CameraConfig_default_def
      handle_entry_def app_dev_def std_cameras_def)


end
