(* ===== verification/Mqtt_Control.thy ===== *)
theory Mqtt_Control
  imports Config
begin

text \<open>
  MQTT topics (\<open>src/mqtt/topics.rs\<close>), the parser of control messages (\<open>src/mqtt/control.rs\<close>), the
  dispatcher (\<open>src/mqtt_dispatch.rs\<close>) and the status reports with their cache (\<open>src/mqtt/status.rs\<close>,
  \<open>src/mqtt_status.rs\<close>, \<open>src/status_cache.rs\<close>). A dispatched command is the list of its effects, in
  order; the camera's answers are part of the state it runs in.
\<close>

section \<open>Topics\<close>

text \<open>\<open>{prefix}/{cam}/{category}/{leaf}\<close>.\<close>

definition cam_topic :: "string \<Rightarrow> string \<Rightarrow> string \<Rightarrow> string \<Rightarrow> string" where
  "cam_topic p cam category leaf = p @ ''/'' @ cam @ ''/'' @ category @ ''/'' @ leaf"

definition topic_status :: "string \<Rightarrow> string \<Rightarrow> string" where
  "topic_status p cam = p @ ''/'' @ cam @ ''/status''"

definition status_motion :: "string \<Rightarrow> string \<Rightarrow> string" where "status_motion p cam = cam_topic p cam ''status'' ''motion''"
definition status_battery_level :: "string \<Rightarrow> string \<Rightarrow> string" where
  "status_battery_level p cam = cam_topic p cam ''status'' ''battery_level''"
definition status_battery :: "string \<Rightarrow> string \<Rightarrow> string" where "status_battery p cam = cam_topic p cam ''status'' ''battery''"
definition status_preview :: "string \<Rightarrow> string \<Rightarrow> string" where "status_preview p cam = cam_topic p cam ''status'' ''preview''"
definition status_floodlight :: "string \<Rightarrow> string \<Rightarrow> string" where
  "status_floodlight p cam = cam_topic p cam ''status'' ''floodlight''"
definition status_floodlight_tasks :: "string \<Rightarrow> string \<Rightarrow> string" where
  "status_floodlight_tasks p cam = cam_topic p cam ''status'' ''floodlight_tasks''"
definition status_pir :: "string \<Rightarrow> string \<Rightarrow> string" where "status_pir p cam = cam_topic p cam ''status'' ''pir''"
definition status_ptz_preset :: "string \<Rightarrow> string \<Rightarrow> string" where
  "status_ptz_preset p cam = cam_topic p cam ''status'' ''ptz/preset''"

text \<open>The topics a camera is subscribed to, in their order.\<close>

definition subscribe_topics :: "string \<Rightarrow> string \<Rightarrow> string list" where
  "subscribe_topics p cam =
     map (cam_topic p cam ''control'') [''floodlight'', ''floodlight_tasks'', ''led'', ''ir'', ''pir'', ''reboot'', ''ptz'',
       ''ptz/preset'', ''ptz/assign'', ''zoom'', ''siren'', ''wakeup''] @
     map (cam_topic p cam ''query'') [''battery'', ''preview'', ''pir'', ''ptz/preset'']"

section \<open>Control messages\<close>

datatype PtzDirection = Up | Down | Left | Right

datatype IrMode = IrOn | IrOff | IrAuto

datatype ControlCommand =
    Floodlight string bool
  | FloodlightTasks string bool
  | Led string bool
  | Ir string IrMode
  | Pir string bool
  | Reboot string
  | Ptz string PtzDirection ieee
  | PtzPreset string nat
  | PtzPresetByName string string
  | PtzAssign string nat string
  | Zoom string ieee
  | Siren string bool
  | Wakeup string nat
  | QueryBattery string
  | QueryPreview string
  | QueryPir string
  | QueryPtzPreset string

fun camera_name :: "ControlCommand \<Rightarrow> string" where
  "camera_name (Floodlight cam _) = cam"
| "camera_name (FloodlightTasks cam _) = cam"
| "camera_name (Led cam _) = cam"
| "camera_name (Ir cam _) = cam"
| "camera_name (Pir cam _) = cam"
| "camera_name (Reboot cam) = cam"
| "camera_name (Ptz cam _ _) = cam"
| "camera_name (PtzPreset cam _) = cam"
| "camera_name (PtzPresetByName cam _) = cam"
| "camera_name (PtzAssign cam _ _) = cam"
| "camera_name (Zoom cam _) = cam"
| "camera_name (Siren cam _) = cam"
| "camera_name (Wakeup cam _) = cam"
| "camera_name (QueryBattery cam) = cam"
| "camera_name (QueryPreview cam) = cam"
| "camera_name (QueryPir cam) = cam"
| "camera_name (QueryPtzPreset cam) = cam"

definition control_topic :: "string \<Rightarrow> ControlCommand \<Rightarrow> string" where
  "control_topic p cmd =
     (let c = cam_topic p (camera_name cmd) ''control''; q = cam_topic p (camera_name cmd) ''query''
      in case cmd of
           Floodlight _ _ \<Rightarrow> c ''floodlight'' | FloodlightTasks _ _ \<Rightarrow> c ''floodlight_tasks'' | Led _ _ \<Rightarrow> c ''led''
         | Ir _ _ \<Rightarrow> c ''ir'' | Pir _ _ \<Rightarrow> c ''pir'' | Reboot _ \<Rightarrow> c ''reboot'' | Ptz _ _ _ \<Rightarrow> c ''ptz''
         | PtzPreset _ _ \<Rightarrow> c ''ptz/preset'' | PtzPresetByName _ _ \<Rightarrow> c ''ptz/preset'' | PtzAssign _ _ _ \<Rightarrow> c ''ptz/assign''
         | Zoom _ _ \<Rightarrow> c ''zoom'' | Siren _ _ \<Rightarrow> c ''siren'' | Wakeup _ _ \<Rightarrow> c ''wakeup''
         | QueryBattery _ \<Rightarrow> q ''battery'' | QueryPreview _ \<Rightarrow> q ''preview'' | QueryPir _ \<Rightarrow> q ''pir''
         | QueryPtzPreset _ \<Rightarrow> q ''ptz/preset'')"

text \<open>
  \<open>to_lowercase\<close> is compared with ASCII words without a \<open>k\<close> only; no other character has an ASCII
  letter of theirs as its lower case, so the ASCII lower case decides.
\<close>

definition parse_on_off :: "string \<Rightarrow> bool option" where
  "parse_on_off s = (let l = to_ascii_lowercase s
     in if l \<in> {''on'', ''true'', ''1''} then Some True else if l \<in> {''off'', ''false'', ''0''} then Some False else None)"

definition parse_ir_mode :: "string \<Rightarrow> IrMode option" where
  "parse_ir_mode s = (let l = to_ascii_lowercase s
     in if l \<in> {''on'', ''true'', ''1''} then Some IrOn else if l \<in> {''off'', ''false'', ''0''} then Some IrOff
        else if l = ''auto'' then Some IrAuto else None)"

definition parse_ptz_direction :: "string \<Rightarrow> PtzDirection option" where
  "parse_ptz_direction s = (let l = to_ascii_lowercase s
     in if l = ''up'' then Some Up else if l = ''down'' then Some Down else if l = ''left'' then Some Left
        else if l = ''right'' then Some Right else None)"

definition is_reserved_reply_token :: "string \<Rightarrow> bool" where
  "is_reserved_reply_token s \<longleftrightarrow> eq_ignore_ascii_case s ''OK'' \<or> eq_ignore_ascii_case s ''FAIL''"

text \<open>The first two items of \<open>split_whitespace\<close>, which are all that is looked at.\<close>

definition starts_ws :: "string \<Rightarrow> bool" where "starts_ws s \<longleftrightarrow> (\<exists>w\<in>set whitespace. prefix w s)"

fun take_word :: "string \<Rightarrow> string \<times> string" where
  "take_word [] = ([], [])"
| "take_word (c # s) = (if starts_ws (c # s) then ([], c # s) else case take_word s of (w, r) \<Rightarrow> (c # w, r))"

definition first_words :: "string \<Rightarrow> string list" where
  "first_words s = (case take_word (trim_start s) of
     (w, r) \<Rightarrow> if w = [] then [] else w # (case take_word (trim_start r) of (v, _) \<Rightarrow> if v = [] then [] else [v]))"

definition finite_nonneg :: "ieee \<Rightarrow> bool" where "finite_nonneg x \<longleftrightarrow> is_finite x \<and> \<not> fl_less x 0"

definition parse_ptz :: "string \<Rightarrow> string \<Rightarrow> ControlCommand option" where
  "parse_ptz cam payload = (case first_words payload of
     [] \<Rightarrow> None
   | d # rest \<Rightarrow>
       (case (parse_ptz_direction d, case rest of [] \<Rightarrow> Some (Fin 32) | a # _ \<Rightarrow> parse_f32 a) of
          (Some dir, Some amount) \<Rightarrow> if finite_nonneg amount then Some (Ptz cam dir amount) else None
        | _ \<Rightarrow> None))"

definition parse_control_action :: "string \<Rightarrow> string \<Rightarrow> string \<Rightarrow> ControlCommand option" where
  "parse_control_action cam action payload =
     (if is_reserved_reply_token payload then None
      else if action = ''floodlight'' then map_option (Floodlight cam) (parse_on_off payload)
      else if action = ''floodlight_tasks'' then map_option (FloodlightTasks cam) (parse_on_off payload)
      else if action = ''led'' then map_option (Led cam) (parse_on_off payload)
      else if action = ''ir'' then map_option (Ir cam) (parse_ir_mode payload)
      else if action = ''pir'' then map_option (Pir cam) (parse_on_off payload)
      else if action = ''reboot'' then Some (Reboot cam)
      else if action = ''ptz'' then parse_ptz cam payload
      else if action = ''zoom'' then
        (case parse_f32 payload of None \<Rightarrow> None | Some l \<Rightarrow> if finite_nonneg l then Some (Zoom cam l) else None)
      else if action = ''siren'' then map_option (Siren cam) (parse_on_off payload)
      else if action = ''wakeup'' then
        (case parse_uint (2 ^ 32 - 1) payload of
           Inl _ \<Rightarrow> None | Inr m \<Rightarrow> if m = 0 \<or> 1440 < m then None else Some (Wakeup cam m))
      else None)"

definition parse_query_action :: "string \<Rightarrow> string \<Rightarrow> ControlCommand option" where
  "parse_query_action cam action =
     (if action = ''battery'' then Some (QueryBattery cam) else if action = ''preview'' then Some (QueryPreview cam)
      else if action = ''pir'' then Some (QueryPir cam) else None)"

definition parse_control_ptz_sub :: "string \<Rightarrow> string \<Rightarrow> string \<Rightarrow> ControlCommand option" where
  "parse_control_ptz_sub cam sub payload =
     (if sub = ''preset'' then
        (case parse_uint 255 payload of
           Inr i \<Rightarrow> Some (PtzPreset cam i)
         | Inl _ \<Rightarrow>
             (let name = trim payload
              in if name = [] then None else if is_reserved_reply_token name then None else Some (PtzPresetByName cam name)))
      else if sub = ''assign'' then
        (case split_once CHR '' '' payload of
           None \<Rightarrow> None
         | Some (i, name) \<Rightarrow>
             (case parse_uint 255 i of
                Inl _ \<Rightarrow> None
              | Inr preset \<Rightarrow> if trim name = [] then None else Some (PtzAssign cam preset (trim name))))
      else None)"

definition parse_query_ptz_sub :: "string \<Rightarrow> string \<Rightarrow> ControlCommand option" where
  "parse_query_ptz_sub cam sub = (if sub = ''preset'' then Some (QueryPtzPreset cam) else None)"

definition parse_control_message :: "string \<Rightarrow> string \<Rightarrow> bytes \<Rightarrow> ControlCommand option" where
  "parse_control_message p topic payload =
     (let parts = split CHR ''/'' topic
      in if length parts < 3 \<or> parts ! 0 \<noteq> p then None
         else if parts ! 1 = [] \<or> \<not> topic_safe (parts ! 1) then None
         else case from_utf8 payload of
           None \<Rightarrow> None
         | Some s \<Rightarrow>
             (let cam = parts ! 1; t = trim s
              in if length parts = 5 \<and> parts ! 2 = ''control'' \<and> parts ! 3 = ''ptz'' then parse_control_ptz_sub cam (parts ! 4) t
                 else if length parts = 5 \<and> parts ! 2 = ''query'' \<and> parts ! 3 = ''ptz''
                 then (if is_reserved_reply_token t then None else parse_query_ptz_sub cam (parts ! 4))
                 else if length parts = 4 \<and> parts ! 2 = ''control'' then parse_control_action cam (parts ! 3) t
                 else if length parts = 4 \<and> parts ! 2 = ''query''
                 then (if is_reserved_reply_token t then None else parse_query_action cam (parts ! 3))
                 else None))"

section \<open>Status reports\<close>

datatype CameraEvent =
    Connection bool
  | Motion bool
  | MotionUnknown
  | BatteryLevel u8
  | EvFloodlight bool
  | EvFloodlightTasks bool
  | EvPir bool
  | Preview bytes

definition on_off :: "bool \<Rightarrow> string" where "on_off b = (if b then ''on'' else ''off'')"

definition floodlight_state_json :: "bool \<Rightarrow> string" where
  "floodlight_state_json on = ''{'' @ [CHR 0x22] @ ''state'' @ [CHR 0x22] @ '':'' @ [CHR 0x22] @ on_off on @ [CHR 0x22] @ ''}''"

text \<open>Topic and payload of an event; every report is retained. \<open>b64\<close> is the Base64 encoder.\<close>

definition event_topic :: "string \<Rightarrow> string \<Rightarrow> CameraEvent \<Rightarrow> string" where
  "event_topic p cam ev = (case ev of
     Connection _ \<Rightarrow> topic_status p cam
   | Motion _ \<Rightarrow> status_motion p cam
   | MotionUnknown \<Rightarrow> status_motion p cam
   | BatteryLevel _ \<Rightarrow> status_battery_level p cam
   | EvFloodlight _ \<Rightarrow> status_floodlight p cam
   | EvFloodlightTasks _ \<Rightarrow> status_floodlight_tasks p cam
   | EvPir _ \<Rightarrow> status_pir p cam
   | Preview _ \<Rightarrow> status_preview p cam)"

definition event_payload :: "(bytes \<Rightarrow> string) \<Rightarrow> CameraEvent \<Rightarrow> string" where
  "event_payload b64 ev = (case ev of
     Connection online \<Rightarrow> (if online then ''connected'' else ''disconnected'')
   | Motion detected \<Rightarrow> on_off detected
   | MotionUnknown \<Rightarrow> ''unknown''
   | BatteryLevel percent \<Rightarrow> show_nat (min (unat percent) 100)
   | EvFloodlight on \<Rightarrow> floodlight_state_json on
   | EvFloodlightTasks enabled \<Rightarrow> on_off enabled
   | EvPir enabled \<Rightarrow> on_off enabled
   | Preview jpeg \<Rightarrow> b64 jpeg)"

record StatusCache =
  sc_battery_level :: "u8 option"
  sc_motion :: "bool option"
  sc_floodlight :: "bool option"
  sc_floodlight_tasks :: "bool option"
  sc_pir :: "bool option"

definition StatusCache_default :: StatusCache where
  "StatusCache_default = \<lparr>sc_battery_level = None, sc_motion = None, sc_floodlight = None, sc_floodlight_tasks = None,
     sc_pir = None\<rparr>"

definition cache_event :: "CameraEvent \<Rightarrow> StatusCache \<Rightarrow> StatusCache" where
  "cache_event ev c = (case ev of
     Motion detected \<Rightarrow> c\<lparr>sc_motion := Some detected\<rparr>
   | BatteryLevel percent \<Rightarrow> c\<lparr>sc_battery_level := Some percent\<rparr>
   | EvFloodlight on \<Rightarrow> c\<lparr>sc_floodlight := Some on\<rparr>
   | EvFloodlightTasks enabled \<Rightarrow> c\<lparr>sc_floodlight_tasks := Some enabled\<rparr>
   | EvPir enabled \<Rightarrow> c\<lparr>sc_pir := Some enabled\<rparr>
   | _ \<Rightarrow> c)"

definition is_cacheable :: "CameraEvent \<Rightarrow> bool" where
  "is_cacheable ev = (case ev of
     Motion _ \<Rightarrow> True | BatteryLevel _ \<Rightarrow> True | EvFloodlight _ \<Rightarrow> True | EvFloodlightTasks _ \<Rightarrow> True | EvPir _ \<Rightarrow> True
   | _ \<Rightarrow> False)"

text \<open>The retained store of the broker, and a report: the publish may fail, and then nothing is cached.\<close>

type_synonym retained = "string \<rightharpoonup> string"

definition report ::
  "(bytes \<Rightarrow> string) \<Rightarrow> string \<Rightarrow> string \<Rightarrow> bool \<Rightarrow> CameraEvent \<Rightarrow> retained \<times> StatusCache \<Rightarrow> bool \<times> retained \<times> StatusCache" where
  "report b64 p cam sent ev = (\<lambda>(store, cache).
     if sent then (True, store(event_topic p cam ev \<mapsto> event_payload b64 ev), cache_event ev cache) else (False, store, cache))"

definition cached_events :: "StatusCache \<Rightarrow> CameraEvent list" where
  "cached_events c =
     (case sc_battery_level c of Some v \<Rightarrow> [BatteryLevel v] | None \<Rightarrow> []) @
     (case sc_motion c of Some v \<Rightarrow> [Motion v] | None \<Rightarrow> []) @
     (case sc_floodlight c of Some v \<Rightarrow> [EvFloodlight v] | None \<Rightarrow> []) @
     (case sc_floodlight_tasks c of Some v \<Rightarrow> [EvFloodlightTasks v] | None \<Rightarrow> []) @
     (case sc_pir c of Some v \<Rightarrow> [EvPir v] | None \<Rightarrow> [])"

text \<open>The first failing report ends the republication. \<open>sent\<close> tells how the publishes turn out.\<close>

fun report_all ::
  "(bytes \<Rightarrow> string) \<Rightarrow> string \<Rightarrow> string \<Rightarrow> (CameraEvent \<Rightarrow> bool) \<Rightarrow> CameraEvent list \<Rightarrow> retained \<times> StatusCache \<Rightarrow> bool \<times> retained \<times> StatusCache" where
  "report_all b64 p cam sent [] sc = (True, sc)"
| "report_all b64 p cam sent (ev # evs) sc =
     (case report b64 p cam (sent ev) ev sc of
        (True, sc') \<Rightarrow> report_all b64 p cam sent evs sc' | (False, sc') \<Rightarrow> (False, sc'))"

definition republish_cached_status ::
  "(bytes \<Rightarrow> string) \<Rightarrow> string \<Rightarrow> string \<Rightarrow> (CameraEvent \<Rightarrow> bool) \<Rightarrow> retained \<times> StatusCache \<Rightarrow> bool \<times> retained \<times> StatusCache" where
  "republish_cached_status b64 p cam sent sc = report_all b64 p cam sent (cached_events (snd sc)) sc"

section \<open>Dispatch\<close>

datatype Direction = DUp | DDown | DLeft | DRight | DStop

datatype bc_error = BcOther string | BcError nat

text \<open>A call of the camera under a timeout.\<close>

datatype 'a outcome = Elapsed | Returned "bc_error + 'a"

definition timeout_to_result :: "'a outcome \<Rightarrow> bc_error + 'a" where
  "timeout_to_result r = (case r of Elapsed \<Rightarrow> Err (BcOther ''Command timed out'') | Returned x \<Rightarrow> x)"

datatype camera_call =
    set_floodlight_manual bool nat
  | floodlight_tasks_enable bool
  | led_light_set bool
  | irled_light_set IrMode
  | pir_set bool
  | reboot
  | send_ptz Direction ieee
  | moveto_ptz_preset nat
  | set_ptz_preset nat string
  | zoom_to nat
  | siren
  | battery_status
  | snapshot
  | pir_config
  | ptz_presets

record BatteryStatus =
  bat_percent :: u8
  bat_voltage :: int
  charge_status :: string
  low_power :: bool

record PresetSlot =
  slot_id :: nat
  slot_name :: "string option"

text \<open>
  What the camera answers, what the XML writer and the preview renderer make of it, and whether the publishes
  that are looked at succeed. \<open>'r\<close> is the PIR configuration.
\<close>

record 'r driver =
  drv_unit :: "camera_call \<Rightarrow> unit outcome"
  drv_battery :: "BatteryStatus outcome"
  drv_snapshot :: "bytes outcome"
  drv_pir :: "'r outcome"
  drv_presets :: "PresetSlot list outcome"

record 'r handle =
  hd_camera :: "'r driver option"
  hd_wait :: "'r driver option"
  hd_presets :: "(nat \<times> string) list"
  hd_render :: "bytes \<Rightarrow> bytes"
  hd_sent :: "string \<Rightarrow> bool"
  hd_discovery_ok :: bool
  hd_battery_xml :: "BatteryStatus \<Rightarrow> string option"
  hd_pir_xml :: "'r \<Rightarrow> string option"

datatype effect =
    AcquireWake
  | ReleaseWake
  | SpawnWakeup nat
  | Call camera_call
  | Sleep nat
  | Publish string string bool
  | ReplacePresets "(nat \<times> string) list"
  | PublishDiscovery

definition preset_id_for_name :: "(nat \<times> string) list \<Rightarrow> string \<Rightarrow> nat option" where
  "preset_id_for_name cache name = map_option fst (find (\<lambda>(_, n). eq_ignore_ascii_case n name) cache)"

definition preset_name_for_id :: "(nat \<times> string) list \<Rightarrow> nat \<Rightarrow> string option" where
  "preset_name_for_id cache i = map_option snd (find (\<lambda>(j, _). j = i) cache)"

text \<open>\<open>ZoomLevel::from_factor\<close>; the factor is not negative here.\<close>

definition from_factor :: "ieee \<Rightarrow> nat" where
  "from_factor x = (case x of
     Fin r \<Rightarrow> (case round32 (max r 0 * 1000) of Fin y \<Rightarrow> as_u32 (Fin (of_int (round_away y))) | z \<Rightarrow> as_u32 z)
   | Inf neg \<Rightarrow> as_u32 (Inf neg)
   | NaN \<Rightarrow> 0)"

text \<open>The time of a PTZ move in nanoseconds: \<open>amount / 32\<close> seconds, at most ten.\<close>

definition ptz_sleep :: "ieee \<Rightarrow> nat" where
  "ptz_sleep amount = (case amount of
     Fin r \<Rightarrow> (case round32 (r / 32) of
        Fin s \<Rightarrow> (case from_secs_float (Fin (min 10 (max 0 s))) of Some d \<Rightarrow> d | None \<Rightarrow> 0)
      | _ \<Rightarrow> 10000000000)
   | _ \<Rightarrow> 10000000000)"

definition ptz_dir :: "PtzDirection \<Rightarrow> Direction" where
  "ptz_dir d = (case d of Up \<Rightarrow> DUp | Down \<Rightarrow> DDown | Left \<Rightarrow> DLeft | Right \<Rightarrow> DRight)"

definition unit_call :: "'r driver \<Rightarrow> camera_call \<Rightarrow> effect list \<times> (bc_error + unit)" where
  "unit_call bc c = ([Call c], timeout_to_result (drv_unit bc c))"

text \<open>The command on a connected camera: effects and result.\<close>

fun run_command :: "(bytes \<Rightarrow> string) \<Rightarrow> string \<Rightarrow> 'r handle \<Rightarrow> 'r driver \<Rightarrow> ControlCommand \<Rightarrow> effect list \<times> (bc_error + unit)" where
  "run_command b64 p h bc (Floodlight cam on) = unit_call bc (set_floodlight_manual on 30)"
| "run_command b64 p h bc (FloodlightTasks cam on) = unit_call bc (floodlight_tasks_enable on)"
| "run_command b64 p h bc (Led cam on) = unit_call bc (led_light_set on)"
| "run_command b64 p h bc (Ir cam mode) = unit_call bc (irled_light_set mode)"
| "run_command b64 p h bc (Pir cam on) =
     (case unit_call bc (pir_set on) of
        (fx, Inr u) \<Rightarrow> (fx @ [Publish (event_topic p cam (EvPir on)) (event_payload b64 (EvPir on)) True], Inr u)
      | (fx, Inl e) \<Rightarrow> (fx, Inl e))"
| "run_command b64 p h bc (Reboot cam) = unit_call bc reboot"
| "run_command b64 p h bc (Ptz cam dir amount) =
     (case unit_call bc (send_ptz (ptz_dir dir) (Fin 32)) of
        (fx, r) \<Rightarrow> (fx @ (if is_ok r then [Sleep (ptz_sleep amount)] else []) @ [Call (send_ptz DStop (Fin 32))], r))"
| "run_command b64 p h bc (PtzPreset cam i) =
     (case unit_call bc (moveto_ptz_preset i) of
        (fx, Inr u) \<Rightarrow>
          (fx @ (case preset_name_for_id (hd_presets h) i of
                   Some n \<Rightarrow> [Publish (status_ptz_preset p cam) n True] | None \<Rightarrow> []), Inr u)
      | (fx, Inl e) \<Rightarrow> (fx, Inl e))"
| "run_command b64 p h bc (PtzPresetByName cam name) =
     (case preset_id_for_name (hd_presets h) name of
        Some i \<Rightarrow>
          (case unit_call bc (moveto_ptz_preset i) of
             (fx, Inr u) \<Rightarrow> (fx @ [Publish (status_ptz_preset p cam) name True], Inr u)
           | (fx, Inl e) \<Rightarrow> (fx, Inl e))
      | None \<Rightarrow> ([], Err (BcOther ''PTZ preset name not in cache'')))"
| "run_command b64 p h bc (PtzAssign cam i name) = unit_call bc (set_ptz_preset i name)"
| "run_command b64 p h bc (Zoom cam level) = unit_call bc (zoom_to (from_factor level))"
| "run_command b64 p h bc (Siren cam on) = (if on then unit_call bc siren else ([], Ok ()))"
| "run_command b64 p h bc (Wakeup cam m) = ([], Ok ())"
| "run_command b64 p h bc (QueryBattery cam) =
     (case timeout_to_result (drv_battery bc) of
        Inl e \<Rightarrow> ([Call battery_status], Inl e)
      | Inr st \<Rightarrow> (case hd_battery_xml h st of
          None \<Rightarrow> ([Call battery_status], Err (BcOther ''battery XML serialization failed''))
        | Some xml \<Rightarrow> ([Call battery_status, Publish (status_battery p cam) xml False], Ok ())))"
| "run_command b64 p h bc (QueryPreview cam) =
     (case timeout_to_result (drv_snapshot bc) of
        Inl e \<Rightarrow> ([Call snapshot], Inl e)
      | Inr jpeg \<Rightarrow>
          (let ev = Preview (hd_render h jpeg); pub = Publish (event_topic p cam ev) (event_payload b64 ev) True
           in ([Call snapshot, pub],
               if hd_sent h (event_topic p cam ev) then Ok () else Err (BcOther ''preview publish failed''))))"
| "run_command b64 p h bc (QueryPir cam) =
     (case timeout_to_result (drv_pir bc) of
        Inl e \<Rightarrow> ([Call pir_config], Inl e)
      | Inr st \<Rightarrow> (case hd_pir_xml h st of
          None \<Rightarrow> ([Call pir_config], Err (BcOther ''PIR XML serialization failed''))
        | Some xml \<Rightarrow> ([Call pir_config, Publish (status_pir p cam) xml False], Ok ())))"
| "run_command b64 p h bc (QueryPtzPreset cam) =
     (case timeout_to_result (drv_presets bc) of
        Inl e \<Rightarrow> ([Call ptz_presets], Inl e)
      | Inr slots \<Rightarrow>
          ([Call ptz_presets,
            ReplacePresets (List.map_filter (\<lambda>s. map_option (Pair (slot_id s)) (slot_name s)) slots), PublishDiscovery],
           if hd_discovery_ok h then Ok () else Err (BcOther ''discovery republish failed'')))"

text \<open>\<open>dispatch_control\<close>: a wake-up is only started; everything else holds the wake lock until its reply.\<close>

definition dispatch_control :: "(bytes \<Rightarrow> string) \<Rightarrow> string \<Rightarrow> (string \<rightharpoonup> 'r handle) \<Rightarrow> ControlCommand \<Rightarrow> effect list" where
  "dispatch_control b64 p cams cmd =
     (case cams (camera_name cmd) of
        None \<Rightarrow> []
      | Some h \<Rightarrow>
          (case cmd of
             Wakeup _ minutes \<Rightarrow> [SpawnWakeup minutes]
           | _ \<Rightarrow>
               (case (case hd_camera h of Some bc \<Rightarrow> Some bc | None \<Rightarrow> hd_wait h) of
                  None \<Rightarrow> [AcquireWake, ReleaseWake]
                | Some bc \<Rightarrow>
                    (case run_command b64 p h bc cmd of
                       (fx, r) \<Rightarrow> AcquireWake # fx @
                         [Publish (control_topic p cmd) (if is_ok r then ''OK'' else ''FAIL'') False, ReleaseWake]))))"

text \<open>A message from the broker.\<close>

definition mqtt_receive :: "(bytes \<Rightarrow> string) \<Rightarrow> string \<Rightarrow> (string \<rightharpoonup> 'r handle) \<Rightarrow> string \<Rightarrow> bytes \<Rightarrow> effect list" where
  "mqtt_receive b64 p cams topic payload =
     (case parse_control_message p topic payload of None \<Rightarrow> [] | Some cmd \<Rightarrow> dispatch_control b64 p cams cmd)"

section \<open>Topics and parsing\<close>

lemma split_slash_join: "split d s = x # xs \<Longrightarrow> s = x @ concat (map (\<lambda>y. d # y) xs)"
proof (induction s arbitrary: x xs)
  case (Cons c s)
  obtain y ys where y: "split d s = y # ys" by (cases "split d s") auto
  have s: "s = y @ concat (map (\<lambda>y. d # y) ys)" by (rule Cons.IH [OF y])
  show ?case
  proof (cases "c = d")
    case True
    then have "x = []" "xs = y # ys" using Cons.prems y by simp_all
    then show ?thesis using True s by simp
  next
    case False
    then have "x = c # y" "xs = ys" using Cons.prems y by simp_all
    then show ?thesis using s by simp
  qed
qed simp

lemma no_slash: "topic_safe s \<Longrightarrow> CHR ''/'' \<notin> set s"
  by (auto simp: topic_safe_def)

lemma split_cam_topic:
  assumes "topic_safe p" "topic_safe cam" "CHR ''/'' \<notin> set category"
  shows "split CHR ''/'' (cam_topic p cam category leaf) = p # cam # category # split CHR ''/'' leaf"
  using assms by (simp add: cam_topic_def split_append no_slash)

lemma split_topic_status:
  assumes "topic_safe p" "topic_safe cam"
  shows "split CHR ''/'' (topic_status p cam) = [p, cam, ''status'']"
  using assms by (simp add: topic_status_def split_append no_slash)

lemma reserved_simps [simp]: "is_reserved_reply_token ''OK''" "is_reserved_reply_token ''FAIL''"
  by (simp_all add: is_reserved_reply_token_def eq_ignore_ascii_case_def)

lemma reserved_ignored:
  assumes "s = ''OK'' \<or> s = ''FAIL''"
  shows "parse_control_message p t (string_bytes s) = None"
proof -
  have s: "from_utf8 (string_bytes s) = Some s" "trim s = s" "is_reserved_reply_token s"
    "split_once CHR '' '' s = None" "\<exists>e. parse_uint 255 s = Inl e"
    using assms by (auto simp: from_utf8_def) (auto simp: string_bytes_def parse_uint_def)
  then show ?thesis
    by (auto simp: parse_control_message_def parse_control_ptz_sub_def parse_control_action_def Let_def)
qed

lemma status_ignored:
  assumes "topic_safe p" "topic_safe cam"
  shows "parse_control_message p (cam_topic p cam ''status'' leaf) b = None" "parse_control_message p (topic_status p cam) b = None"
  using assms by (auto simp: parse_control_message_def split_cam_topic split_topic_status Let_def split: option.splits)

lemma event_ignored:
  "topic_safe p \<Longrightarrow> topic_safe cam \<Longrightarrow> parse_control_message p (event_topic p cam ev) b = None"
  by (cases ev)
    (simp_all add: event_topic_def status_ignored status_motion_def status_battery_level_def status_floodlight_def
      status_floodlight_tasks_def status_pir_def status_preview_def)

text \<open>The camera of a command, and the topic it came in on.\<close>

lemma parsed_camera: "parse_control_message p t b = Some cmd \<Longrightarrow> camera_name cmd \<noteq> [] \<and> topic_safe (camera_name cmd)"
  by (auto simp: parse_control_message_def parse_control_ptz_sub_def parse_control_action_def parse_query_action_def
      parse_query_ptz_sub_def parse_ptz_def Let_def split: if_splits option.splits sum.splits list.splits)

lemma parsed_topic:
  assumes "parse_control_message p t b = Some cmd"
  shows "control_topic p cmd = t"
proof -
  obtain x xs where sp: "split CHR ''/'' t = x # xs" by (cases "split CHR ''/'' t") auto
  have t: "t = x @ concat (map (\<lambda>y. CHR ''/'' # y) xs)" by (rule split_slash_join [OF sp])
  have len: "length xs = 3 \<or> length xs = 4" and x: "x = p"
    using assms sp by (auto simp: parse_control_message_def Let_def split: if_splits option.splits)
  then consider a b' c where "xs = [a, b', c]" | a b' c d where "xs = [a, b', c, d]"
    by (auto simp: numeral_eq_Suc length_Suc_conv)
  then show ?thesis
  proof cases
    case 1
    then show ?thesis
      using assms sp t x
      by (auto simp: parse_control_message_def parse_control_action_def parse_query_action_def parse_ptz_def control_topic_def
          cam_topic_def Let_def split: if_splits option.splits sum.splits list.splits)
  next
    case 2
    then show ?thesis
      using assms sp t x
      by (auto simp: parse_control_message_def parse_control_ptz_sub_def parse_query_ptz_sub_def control_topic_def cam_topic_def
          Let_def split: if_splits option.splits sum.splits)
  qed
qed

section \<open>Commands and replies\<close>

lemma unit_call_effects: "unit_call bc c = (fx, r) \<Longrightarrow> fx = [Call c]"
  by (simp add: unit_call_def)

lemma command_publishes:
  assumes "run_command b64 p h bc cmd = (fx, r)" "Publish t s rt \<in> set fx"
  shows "\<exists>leaf. t = cam_topic p (camera_name cmd) ''status'' leaf"
  using assms
  by (cases cmd)
    (auto simp: event_topic_def status_pir_def status_preview_def status_battery_def status_ptz_preset_def Let_def
      split: prod.splits sum.splits option.splits if_splits dest!: unit_call_effects)

lemma dispatch_cases:
  assumes "dispatch_control b64 p cams cmd \<noteq> []"
  obtains (wakeup) h m where "cams (camera_name cmd) = Some h" "\<exists>cam. cmd = Wakeup cam m"
      "dispatch_control b64 p cams cmd = [SpawnWakeup m]"
    | (offline) h where "cams (camera_name cmd) = Some h" "hd_camera h = None" "hd_wait h = None"
      "dispatch_control b64 p cams cmd = [AcquireWake, ReleaseWake]"
    | (run) h bc fx r where "cams (camera_name cmd) = Some h" "hd_camera h = Some bc \<or> hd_camera h = None \<and> hd_wait h = Some bc"
      "run_command b64 p h bc cmd = (fx, r)"
      "dispatch_control b64 p cams cmd = AcquireWake # fx @
         [Publish (control_topic p cmd) (if is_ok r then ''OK'' else ''FAIL'') False, ReleaseWake]"
proof -
  obtain h where h: "cams (camera_name cmd) = Some h" using assms by (auto simp: dispatch_control_def split: option.splits)
  show ?thesis
  proof (cases "\<exists>cam m. cmd = Wakeup cam m")
    case True
    then show ?thesis using wakeup h by (auto simp: dispatch_control_def)
  next
    case False
    then have d: "dispatch_control b64 p cams cmd =
        (case (case hd_camera h of Some bc \<Rightarrow> Some bc | None \<Rightarrow> hd_wait h) of
           None \<Rightarrow> [AcquireWake, ReleaseWake]
         | Some bc \<Rightarrow> (case run_command b64 p h bc cmd of (fx, r) \<Rightarrow> AcquireWake # fx @
             [Publish (control_topic p cmd) (if is_ok r then ''OK'' else ''FAIL'') False, ReleaseWake]))"
      using h by (cases cmd) (auto simp: dispatch_control_def simp del: run_command.simps)
    show ?thesis
    proof (cases "case hd_camera h of Some bc \<Rightarrow> Some bc | None \<Rightarrow> hd_wait h")
      case None
      then show ?thesis using offline [OF h] d by (auto split: option.splits)
    next
      case (Some bc)
      obtain fx r where "run_command b64 p h bc cmd = (fx, r)" by fastforce
      then show ?thesis using run [OF h] d Some by (auto split: option.splits)
    qed
  qed
qed

text \<open>
  C19. The program never takes its own messages for commands. Whatever arrives, everything published in
  response - status, query results and the OK or FAIL on the command's own topic - and every status report of a
  camera starts nothing when the broker delivers it back.
\<close>

theorem mqtt_no_self_loop:
  assumes "topic_safe p" "topic_safe cam"
  shows "(Publish t s rt \<in> set (mqtt_receive b64 p cams topic payload) \<longrightarrow> mqtt_receive b64 p cams t (string_bytes s) = []) \<and>
    mqtt_receive b64 p cams (event_topic p cam ev) (string_bytes (event_payload b64 ev)) = []"
proof (intro conjI impI)
  assume pub: "Publish t s rt \<in> set (mqtt_receive b64 p cams topic payload)"
  then obtain cmd where cmd: "parse_control_message p topic payload = Some cmd"
    and d: "Publish t s rt \<in> set (dispatch_control b64 p cams cmd)"
    by (cases "parse_control_message p topic payload") (auto simp: mqtt_receive_def)
  then have "dispatch_control b64 p cams cmd \<noteq> []" by auto
  then have "parse_control_message p t (string_bytes s) = None"
  proof (cases rule: dispatch_cases)
    case (run h bc fx r)
    then consider "Publish t s rt \<in> set fx" | "s = ''OK'' \<or> s = ''FAIL''" using d by (auto split: if_splits)
    then show ?thesis
    proof cases
      case 1
      then obtain leaf where "t = cam_topic p (camera_name cmd) ''status'' leaf" using command_publishes [OF run(3)] by blast
      then show ?thesis using status_ignored(1) assms(1) parsed_camera [OF cmd] by simp
    next
      case 2
      then show ?thesis by (rule reserved_ignored)
    qed
  qed (use d in auto)
  then show "mqtt_receive b64 p cams t (string_bytes s) = []" by (simp add: mqtt_receive_def)
next
  show "mqtt_receive b64 p cams (event_topic p cam ev) (string_bytes (event_payload b64 ev)) = []"
    using event_ignored assms by (simp add: mqtt_receive_def)
qed

text \<open>
  C22. A command is for the camera its topic names, and for a camera of that name that is or comes online it
  is run under the wake lock and answered exactly once, last, on the topic it came in on: OK or FAIL as the camera
  did or did not do it. A command for an unknown camera has no effect at all.
\<close>

theorem mqtt_reply:
  assumes "topic_safe p" "parse_control_message p topic payload = Some cmd" "\<not> (\<exists>m. cmd = Wakeup (camera_name cmd) m)"
  shows "control_topic p cmd = topic \<and>
    (cams (camera_name cmd) = None \<longrightarrow> mqtt_receive b64 p cams topic payload = []) \<and>
    (\<forall>h bc. cams (camera_name cmd) = Some h \<and> (case hd_camera h of None \<Rightarrow> hd_wait h | Some b \<Rightarrow> Some b) = Some bc \<longrightarrow>
      (\<exists>fx r. run_command b64 p h bc cmd = (fx, r) \<and>
        mqtt_receive b64 p cams topic payload = AcquireWake # fx @ [Publish topic (if is_ok r then ''OK'' else ''FAIL'') False, ReleaseWake] \<and>
        (\<forall>t s rt. Publish t s rt \<in> set fx \<longrightarrow> t \<noteq> topic)))"
proof (intro conjI impI allI)
  show topic: "control_topic p cmd = topic" by (rule parsed_topic [OF assms(2)])
  show "mqtt_receive b64 p cams topic payload = []" if "cams (camera_name cmd) = None"
    using that assms(2) by (simp add: mqtt_receive_def dispatch_control_def)
  fix h bc
  assume h: "cams (camera_name cmd) = Some h \<and> (case hd_camera h of None \<Rightarrow> hd_wait h | Some b \<Rightarrow> Some b) = Some bc"
  obtain fx r where run: "run_command b64 p h bc cmd = (fx, r)" by fastforce
  have "dispatch_control b64 p cams cmd = AcquireWake # fx @ [Publish topic (if is_ok r then ''OK'' else ''FAIL'') False, ReleaseWake]"
    using h assms(3) run topic by (cases cmd) (auto simp: dispatch_control_def simp del: run_command.simps)
  moreover have "t \<noteq> topic" if "Publish t s rt \<in> set fx" for t s rt
    using command_publishes [OF run that] status_ignored(1) assms(1,2) parsed_camera [OF assms(2)] by auto
  ultimately show "\<exists>fx r. run_command b64 p h bc cmd = (fx, r) \<and>
      mqtt_receive b64 p cams topic payload = AcquireWake # fx @ [Publish topic (if is_ok r then ''OK'' else ''FAIL'') False, ReleaseWake] \<and>
      (\<forall>t s rt. Publish t s rt \<in> set fx \<longrightarrow> t \<noteq> topic)"
    using run assms(2) by (auto simp: mqtt_receive_def)
qed

section \<open>The broker loses its retained messages\<close>

definition run_reports ::
  "(bytes \<Rightarrow> string) \<Rightarrow> string \<Rightarrow> string \<Rightarrow> (bool \<times> CameraEvent) list \<Rightarrow> retained \<times> StatusCache \<Rightarrow> retained \<times> StatusCache" where
  "run_reports b64 p cam hist sc = fold (\<lambda>(sent, ev) sc. snd (report b64 p cam sent ev sc)) hist sc"

lemmas status_topics = status_motion_def status_battery_level_def status_floodlight_def status_floodlight_tasks_def
  status_pir_def status_preview_def topic_status_def cam_topic_def

lemmas event_defs = event_topic_def cache_event_def cached_events_def is_cacheable_def

definition cache_ok :: "(bytes \<Rightarrow> string) \<Rightarrow> string \<Rightarrow> string \<Rightarrow> CameraEvent set \<Rightarrow> retained \<times> StatusCache \<Rightarrow> bool" where
  "cache_ok b64 p cam sent sc \<longleftrightarrow>
     (\<forall>ev\<in>set (cached_events (snd sc)). fst sc (event_topic p cam ev) = Some (event_payload b64 ev)) \<and>
     event_topic p cam ` set (cached_events (snd sc)) = event_topic p cam ` {ev \<in> sent. is_cacheable ev}"

lemma mem_cached [simp]:
  "Motion b \<in> set (cached_events c) \<longleftrightarrow> sc_motion c = Some b"
  "BatteryLevel v \<in> set (cached_events c) \<longleftrightarrow> sc_battery_level c = Some v"
  "EvFloodlight b \<in> set (cached_events c) \<longleftrightarrow> sc_floodlight c = Some b"
  "EvFloodlightTasks b \<in> set (cached_events c) \<longleftrightarrow> sc_floodlight_tasks c = Some b"
  "EvPir b \<in> set (cached_events c) \<longleftrightarrow> sc_pir c = Some b"
  "MotionUnknown \<notin> set (cached_events c)" "Connection b \<notin> set (cached_events c)" "Preview j \<notin> set (cached_events c)"
  by (auto simp: cached_events_def split: option.splits)

lemma cached_cacheable: "ev \<in> set (cached_events c) \<Longrightarrow> is_cacheable ev"
  by (auto simp: cached_events_def is_cacheable_def split: option.splits)

lemma cached_again: "ev \<in> set (cached_events c) \<Longrightarrow> cache_event ev c = c"
  by (auto simp: cached_events_def cache_event_def split: option.splits)

lemma cached_inj: "ev \<in> set (cached_events c) \<Longrightarrow> ev' \<in> set (cached_events c) \<Longrightarrow> event_topic p cam ev = event_topic p cam ev' \<Longrightarrow> ev = ev'"
  by (cases ev; cases ev') (auto simp: event_topic_def status_topics)

lemma cache_ok_report:
  assumes "cache_ok b64 p cam sent sc" "ev \<noteq> MotionUnknown"
  shows "cache_ok b64 p cam (insert ev sent) (snd (report b64 p cam True ev sc))"
proof -
  obtain store cache where sc: "sc = (store, cache)" by (cases sc)
  let ?T = "event_topic p cam" and ?c = "cache_event ev cache"
  have upd: "snd (report b64 p cam True ev sc) = (store(?T ev \<mapsto> event_payload b64 ev), ?c)" by (simp add: report_def sc)
  have cached: "x \<in> set (cached_events ?c) \<longleftrightarrow> x = ev \<and> is_cacheable ev \<or> x \<in> set (cached_events cache) \<and> ?T x \<noteq> ?T ev" for x
    using assms(2)
    by (cases ev; cases x) (auto simp: cache_event_def event_topic_def is_cacheable_def status_topics)
  have "?T ` set (cached_events ?c) = ?T ` set (cached_events cache) \<union> (if is_cacheable ev then {?T ev} else {})"
    (is "?l = ?r")
  proof
    show "?l \<subseteq> ?r" using cached by auto
    show "?r \<subseteq> ?l"
    proof
      fix t assume "t \<in> ?r"
      then consider "t = ?T ev" "is_cacheable ev" | x where "t = ?T x" "x \<in> set (cached_events cache)" "t \<noteq> ?T ev \<or> \<not> is_cacheable ev"
        by (auto split: if_splits)
      then show "t \<in> ?l"
      proof cases
        case 1
        then show ?thesis using cached by blast
      next
        case 2
        then have "?T x \<noteq> ?T ev"
          using cached_cacheable [OF 2(2)] assms(2) by (cases x; cases ev) (auto simp: event_topic_def is_cacheable_def status_topics)
        then show ?thesis using 2 cached by blast
      qed
    qed
  qed
  moreover have "{x \<in> insert ev sent. is_cacheable x} = {x \<in> sent. is_cacheable x} \<union> (if is_cacheable ev then {ev} else {})" by auto
  ultimately show ?thesis
    using assms(1) [unfolded sc] cached unfolding upd unfolding cache_ok_def by (auto simp: image_Un)
qed

lemma cache_ok_run:
  assumes "cache_ok b64 p cam sent sc" "\<forall>x\<in>set hist. snd x \<noteq> MotionUnknown"
  shows "cache_ok b64 p cam (sent \<union> {ev. (True, ev) \<in> set hist}) (run_reports b64 p cam hist sc)"
  using assms
proof (induction hist arbitrary: sent sc)
  case (Cons x hist)
  obtain s ev where x: "x = (s, ev)" by (cases x)
  let ?sc = "snd (report b64 p cam s ev sc)" and ?sent = "if s then insert ev sent else sent"
  have "cache_ok b64 p cam ?sent ?sc"
    using Cons.prems cache_ok_report [of b64 p cam sent sc ev] x by (auto simp: report_def split: prod.splits)
  then have "cache_ok b64 p cam (?sent \<union> {e. (True, e) \<in> set hist}) (run_reports b64 p cam hist ?sc)"
    using Cons.IH Cons.prems(2) by simp
  moreover have "?sent \<union> {e. (True, e) \<in> set hist} = sent \<union> {e. (True, e) \<in> set (x # hist)}" using x by auto
  ultimately show ?case using x by (simp add: run_reports_def)
qed (simp add: run_reports_def)

lemma report_all_cached:
  assumes "set evs \<subseteq> set (cached_events cache)"
  shows "report_all b64 p cam (\<lambda>_. True) evs (store, cache) =
    (True, (\<lambda>t. case find (\<lambda>ev. event_topic p cam ev = t) evs of Some ev \<Rightarrow> Some (event_payload b64 ev) | None \<Rightarrow> store t), cache)"
  using assms
proof (induction evs arbitrary: store)
  case (Cons ev evs)
  have "event_payload b64 x = event_payload b64 ev" if "find (\<lambda>x. event_topic p cam x = event_topic p cam ev) evs = Some x" for x
  proof -
    have "x \<in> set (cached_events cache)" "event_topic p cam x = event_topic p cam ev"
      using that Cons.prems by (auto simp: find_Some_iff)
    then show ?thesis using cached_inj [of x cache ev p cam] Cons.prems by auto
  qed
  then show ?case using Cons by (auto simp: report_def cached_again fun_eq_iff split: option.splits)
qed simp

text \<open>
  C24. A camera reports from its start on, the first two reports being \<open>disconnected\<close> and \<open>unknown\<close>; publishes
  may fail. When the broker then loses all retained messages and the program republishes its cache, the broker
  has again exactly what it had on every topic with a motion, battery, floodlight, schedule or PIR report, and
  nothing else: in particular the availability of the camera, which the discovery payloads refer to, is gone.
\<close>

theorem status_republish:
  assumes "\<forall>x\<in>set hist. snd x \<noteq> MotionUnknown"
    and "run_reports b64 p cam ((s1, Connection False) # (s2, MotionUnknown) # hist) (Map.empty, StatusCache_default) = (store, cache)"
  shows "republish_cached_status b64 p cam (\<lambda>_. True) (Map.empty, cache) =
    (True, (\<lambda>t. if \<exists>ev. (True, ev) \<in> set hist \<and> is_cacheable ev \<and> event_topic p cam ev = t then store t else None), cache) \<and>
    fst (snd (republish_cached_status b64 p cam (\<lambda>_. True) (Map.empty, cache))) (topic_status p cam) = None"
proof -
  let ?T = "event_topic p cam"
  obtain st where st: "run_reports b64 p cam hist (st, StatusCache_default) = (store, cache)"
    using assms(2) by (cases s1; cases s2) (auto simp: run_reports_def report_def cache_event_def)
  have "cache_ok b64 p cam {} (st, StatusCache_default)"
    by (simp add: cache_ok_def cached_events_def StatusCache_default_def)
  from cache_ok_run [OF this assms(1)] have ok: "cache_ok b64 p cam {ev. (True, ev) \<in> set hist} (store, cache)"
    using st by simp
  have eq: "(case find (\<lambda>ev. ?T ev = t) (cached_events cache) of Some ev \<Rightarrow> Some (event_payload b64 ev) | None \<Rightarrow> Map.empty t) =
      (if \<exists>ev. (True, ev) \<in> set hist \<and> is_cacheable ev \<and> ?T ev = t then store t else None)" for t
  proof (cases "find (\<lambda>ev. ?T ev = t) (cached_events cache)")
    case None
    then have "t \<notin> ?T ` set (cached_events cache)" by (auto simp: find_None_iff)
    then show ?thesis using ok None by (auto simp: cache_ok_def)
  next
    case (Some ev)
    then have "ev \<in> set (cached_events cache)" "?T ev = t" by (auto simp: find_Some_iff)
    moreover from this have "t \<in> ?T ` {ev. (True, ev) \<in> set hist \<and> is_cacheable ev}" using ok by (auto simp: cache_ok_def)
    ultimately show ?thesis using ok Some by (auto simp: cache_ok_def)
  qed
  have "\<not> (\<exists>ev. (True, ev) \<in> set hist \<and> is_cacheable ev \<and> ?T ev = topic_status p cam)"
    by (auto simp: is_cacheable_def event_topic_def status_topics split: CameraEvent.splits)
  then show ?thesis
    by (auto simp: republish_cached_status_def report_all_cached eq)
qed

section \<open>A concrete camera\<close>

definition w_driver :: "unit driver" where
  "w_driver = \<lparr>drv_unit = (\<lambda>_. Returned (Ok ())), drv_battery = Elapsed, drv_snapshot = Elapsed, drv_pir = Elapsed,
     drv_presets = Elapsed\<rparr>"

definition w_handle :: "unit handle" where
  "w_handle = \<lparr>hd_camera = Some w_driver, hd_wait = None, hd_presets = [(2, ''gate'')], hd_render = (\<lambda>j. j),
     hd_sent = (\<lambda>_. True), hd_discovery_ok = True, hd_battery_xml = (\<lambda>_. None), hd_pir_xml = (\<lambda>_. None)\<rparr>"

definition w_cams :: "string \<rightharpoonup> unit handle" where "w_cams = [''door'' \<mapsto> w_handle]"

lemma w_parse: "parse_control_message ''bairelay'' ''bairelay/door/control/reboot'' (string_bytes ''1'') = Some (Reboot ''door'')"
  by code_simp

lemma w_safe: "topic_safe ''bairelay''" "topic_safe ''door''"
  by code_simp+

lemma w_receive:
  "mqtt_receive (\<lambda>_. []) ''bairelay'' w_cams ''bairelay/door/control/reboot'' (string_bytes ''1'') =
    [AcquireWake, Call reboot, Publish ''bairelay/door/control/reboot'' ''OK'' False, ReleaseWake]"
  by (simp add: mqtt_receive_def w_parse dispatch_control_def w_cams_def w_handle_def w_driver_def unit_call_def
      timeout_to_result_def control_topic_def cam_topic_def)

theorem mqtt_no_self_loop_witness:
  "mqtt_receive (\<lambda>_. []) ''bairelay'' w_cams ''bairelay/door/control/reboot'' (string_bytes ''OK'') = [] \<and>
   Publish ''bairelay/door/control/reboot'' ''OK'' False \<in>
     set (mqtt_receive (\<lambda>_. []) ''bairelay'' w_cams ''bairelay/door/control/reboot'' (string_bytes ''1''))"
  using mqtt_no_self_loop [OF w_safe, of "''bairelay/door/control/reboot''" "''OK''" False "\<lambda>_. []" w_cams
      "''bairelay/door/control/reboot''" "string_bytes ''1''"] w_receive by simp

theorem mqtt_reply_witness:
  "\<exists>fx. mqtt_receive (\<lambda>_. []) ''bairelay'' w_cams ''bairelay/door/control/reboot'' (string_bytes ''1'') =
     AcquireWake # fx @ [Publish ''bairelay/door/control/reboot'' ''OK'' False, ReleaseWake]"
proof -
  have h: "w_cams ''door'' = Some w_handle \<and> (case hd_camera w_handle of None \<Rightarrow> hd_wait w_handle | Some b \<Rightarrow> Some b) = Some w_driver"
    by (simp add: w_cams_def w_handle_def)
  from mqtt_reply [OF w_safe(1) w_parse, of w_cams "\<lambda>_. []"] h
  obtain fx r where "run_command (\<lambda>_. []) ''bairelay'' w_handle w_driver (Reboot ''door'') = (fx, r)"
    "mqtt_receive (\<lambda>_. []) ''bairelay'' w_cams ''bairelay/door/control/reboot'' (string_bytes ''1'') =
      AcquireWake # fx @ [Publish ''bairelay/door/control/reboot'' (if is_ok r then ''OK'' else ''FAIL'') False, ReleaseWake]"
    by auto
  then show ?thesis by (auto simp: unit_call_def timeout_to_result_def w_driver_def)
qed

theorem status_republish_witness:
  "\<exists>store cache store'. run_reports (\<lambda>_. []) ''b'' ''c'' [(True, Connection False), (True, MotionUnknown), (True, Connection True), (True, Motion True),
      (False, Motion False)] (Map.empty, StatusCache_default) = (store, cache) \<and> store (topic_status ''b'' ''c'') = Some ''connected'' \<and>
    republish_cached_status (\<lambda>_. []) ''b'' ''c'' (\<lambda>_. True) (Map.empty, cache) = (True, store', cache) \<and>
    store' (status_motion ''b'' ''c'') = Some ''on'' \<and> store' (topic_status ''b'' ''c'') = None"
proof -
  let ?hist = "[(True, Connection True), (True, Motion True), (False, Motion False)]"
  obtain store cache where r: "run_reports (\<lambda>_. []) ''b'' ''c'' ((True, Connection False) # (True, MotionUnknown) # ?hist)
      (Map.empty, StatusCache_default) = (store, cache)" by fastforce
  then have store: "store (topic_status ''b'' ''c'') = Some ''connected''" "store (status_motion ''b'' ''c'') = Some ''on''"
    by (auto simp: run_reports_def report_def event_topic_def event_payload_def status_topics on_off_def)
  let ?pub = "\<lambda>t. \<exists>ev. (True, ev) \<in> set ?hist \<and> is_cacheable ev \<and> event_topic ''b'' ''c'' ev = t"
  have motion: "?pub (status_motion ''b'' ''c'')"
    by (rule exI [of _ "Motion True"]) (simp add: is_cacheable_def event_topic_def)
  have status: "\<not> ?pub (topic_status ''b'' ''c'')" by (auto simp: is_cacheable_def event_topic_def status_topics)
  have rep: "republish_cached_status (\<lambda>_. []) ''b'' ''c'' (\<lambda>_. True) (Map.empty, cache) =
      (True, (\<lambda>t. if ?pub t then store t else None), cache)"
    by (rule conjunct1 [OF status_republish [OF _ r]]) simp
  show ?thesis
    by (rule exI [of _ store], rule exI [of _ cache], rule exI [of _ "\<lambda>t. if ?pub t then store t else None"], intro conjI)
      (use r store rep motion status in \<open>simp_all only: if_True if_False simp_thms\<close>)
qed

end
