(* ===== verification/Mqtt_Discovery.thy ===== *)
theory Mqtt_Discovery
  imports Mqtt_Control
begin

text \<open>
  Home Assistant discovery (\<open>src/mqtt/discovery/mod.rs\<close>, \<open>publisher.rs\<close>): the entities of a camera, what
  is published for them and how the publisher keeps the broker free of entities that are gone. The JSON writer
  is a parameter.
\<close>

section \<open>Entities\<close>

record DiscoveryDevice =
  dev_name :: string
  dev_connections :: "(string \<times> string) list"
  dev_identifiers :: "string list"
  dev_manufacturer :: "string option"
  dev_model :: "string option"
  dev_sw_version :: "string option"

record DiscoveryAvailability =
  av_topic :: string
  av_payload_available :: "string option"
  av_payload_not_available :: "string option"

text \<open>What every entity has.\<close>

record entity_common =
  en_name :: string
  en_unique_id :: string
  en_icon :: "string option"
  en_device :: DiscoveryDevice
  en_availability :: DiscoveryAvailability

text \<open>
  A light: state topic, value template, command topic, payloads on and off. A camera: image topic. A switch: command
  topic, payloads off and on, state topic, states off and on. A select: command topic, options, state topic. A
  binary sensor: payloads off and on, state topic. A button: command topic and payload. A sensor: state topic, state
  class, unit and device class.
\<close>

datatype entity =
    DLight entity_common "string option" "string option" "string option" string string
  | DCamera entity_common string
  | DSwitch entity_common string string string "string option" "string option" "string option"
  | DSelect entity_common string "string list" "string option"
  | DBinarySensor entity_common string string string
  | DButton entity_common string "string option"
  | DSensor entity_common string string string "string option"

record DiscoveryContext =
  cx_topic_prefix :: string
  cx_ha_topic :: string
  cx_camera_name :: string
  cx_camera_addr :: "string option"
  cx_camera_uid :: "string option"
  cx_sw_version :: string
  cx_has_ptz :: bool
  cx_presets :: "(nat \<times> string) list"

definition to_upper :: "char \<Rightarrow> char" where
  "to_upper c = (if 97 \<le> code c \<and> code c \<le> 122 then char_of (code c - 32) else c)"

fun split_words :: "string \<Rightarrow> string list" where
  "split_words [] = [[]]"
| "split_words (c # s) =
     (if c = CHR ''_'' \<or> c = CHR ''-'' then [] # split_words s
      else case split_words s of [] \<Rightarrow> [[c]] | w # ws \<Rightarrow> (c # w) # ws)"

fun join_words :: "string list \<Rightarrow> string" where
  "join_words [] = []"
| "join_words [w] = w"
| "join_words (w # ws) = w @ '' '' @ join_words ws"

definition title_case :: "string \<Rightarrow> string" where
  "title_case name = join_words (map (\<lambda>w. case w of [] \<Rightarrow> [] | c # r \<Rightarrow> to_upper c # r) (split_words name))"

definition device_identifier :: "string \<Rightarrow> string \<Rightarrow> string" where "device_identifier p cam = p @ ''_'' @ cam"

definition unique_id :: "string \<Rightarrow> string \<Rightarrow> string \<Rightarrow> string" where
  "unique_id p cam sfx = p @ ''_'' @ cam @ ''_'' @ sfx"

definition availability_block :: "DiscoveryContext \<Rightarrow> DiscoveryAvailability" where
  "availability_block cx = \<lparr>av_topic = topic_status (cx_topic_prefix cx) (cx_camera_name cx),
     av_payload_available = Some ''connected'', av_payload_not_available = None\<rparr>"

definition device_block :: "DiscoveryContext \<Rightarrow> DiscoveryDevice" where
  "device_block cx = \<lparr>dev_name = title_case (cx_camera_name cx),
     dev_connections =
       (case cx_camera_addr cx of Some a \<Rightarrow> [(''camera_addr'', a)] | None \<Rightarrow> []) @
       (case cx_camera_uid cx of Some u \<Rightarrow> [(''camera_uid'', u)] | None \<Rightarrow> []),
     dev_identifiers = [device_identifier (cx_topic_prefix cx) (cx_camera_name cx)],
     dev_manufacturer = Some ''Reolink'', dev_model = Some ''Bairelay'', dev_sw_version = Some (cx_sw_version cx)\<rparr>"

definition config_topic :: "string \<Rightarrow> string \<Rightarrow> string \<Rightarrow> string" where
  "config_topic ha component uid = ha @ ''/'' @ component @ ''/'' @ uid @ ''/config''"

definition common :: "DiscoveryContext \<Rightarrow> string \<Rightarrow> string \<Rightarrow> string \<Rightarrow> entity_common" where
  "common cx sfx title icon = \<lparr>en_name = title_case (cx_camera_name cx) @ '' '' @ title,
     en_unique_id = unique_id (cx_topic_prefix cx) (cx_camera_name cx) sfx, en_icon = Some icon,
     en_device = device_block cx, en_availability = availability_block cx\<rparr>"

definition cx_topic :: "DiscoveryContext \<Rightarrow> string \<Rightarrow> string \<Rightarrow> string" where
  "cx_topic cx category leaf = cam_topic (cx_topic_prefix cx) (cx_camera_name cx) category leaf"

text \<open>An entity with its component and the suffix of its ID, which give its topic.\<close>

type_synonym built = "string \<times> string \<times> entity"

definition build_floodlight_light :: "DiscoveryContext \<Rightarrow> built list" where
  "build_floodlight_light cx = [(''light'', ''floodlight'', DLight (common cx ''floodlight'' ''Floodlight'' ''mdi:spotlight-beam'')
     (Some (cx_topic cx ''status'' ''floodlight'')) (Some ''{{ value_json.state }}'')
     (Some (cx_topic cx ''control'' ''floodlight'')) ''on'' ''off'')]"

definition build_floodlight_tasks_switch :: "DiscoveryContext \<Rightarrow> built list" where
  "build_floodlight_tasks_switch cx = [(''switch'', ''floodlight_tasks'',
     DSwitch (common cx ''floodlight_tasks'' ''Floodlight Tasks'' ''mdi:spotlight-beam'') (cx_topic cx ''control'' ''floodlight_tasks'')
       ''off'' ''on'' (Some (cx_topic cx ''status'' ''floodlight_tasks'')) (Some ''off'') (Some ''on''))]"

definition build_camera :: "DiscoveryContext \<Rightarrow> built list" where
  "build_camera cx = [(''camera'', ''camera'', DCamera (common cx ''camera'' ''Camera'' ''mdi:camera-iris'') (cx_topic cx ''status'' ''preview''))]"

definition build_motion :: "DiscoveryContext \<Rightarrow> built list" where
  "build_motion cx = [(''binary_sensor'', ''md'',
     DBinarySensor (common cx ''md'' ''MD'' ''mdi:motion-sensor'') ''off'' ''on'' (cx_topic cx ''status'' ''motion''))]"

definition build_led :: "DiscoveryContext \<Rightarrow> built list" where
  "build_led cx = [(''switch'', ''led'',
     DSwitch (common cx ''led'' ''LED'' ''mdi:led-on'') (cx_topic cx ''control'' ''led'') ''off'' ''on'' None None None)]"

definition build_ir :: "DiscoveryContext \<Rightarrow> built list" where
  "build_ir cx = [(''select'', ''ir'',
     DSelect (common cx ''ir'' ''IR'' ''mdi:lightbulb-night'') (cx_topic cx ''control'' ''ir'') [''on'', ''off'', ''auto''] None)]"

definition build_pir :: "DiscoveryContext \<Rightarrow> built list" where
  "build_pir cx = [(''switch'', ''pir'',
     DSwitch (common cx ''pir'' ''PIR'' ''mdi:motion-sensor'') (cx_topic cx ''control'' ''pir'') ''off'' ''on''
       (Some (cx_topic cx ''status'' ''pir'')) (Some ''off'') (Some ''on''))]"

text \<open>The first of equal options is kept.\<close>

definition dedup :: "'a list \<Rightarrow> 'a list" where "dedup xs = rev (remdups (rev xs))"

definition build_ptz_presets :: "DiscoveryContext \<Rightarrow> built list" where
  "build_ptz_presets cx =
     (if \<not> cx_has_ptz cx \<or> cx_presets cx = [] then []
      else [(''select'', ''preset'',
        DSelect (common cx ''preset'' ''Preset'' ''mdi:target'') (cx_topic cx ''control'' ''ptz/preset'')
          (dedup (map snd (cx_presets cx))) (Some (status_ptz_preset (cx_topic_prefix cx) (cx_camera_name cx))))])"

definition build_reboot :: "DiscoveryContext \<Rightarrow> built list" where
  "build_reboot cx = [(''button'', ''reboot'', DButton (common cx ''reboot'' ''Reboot'' ''mdi:restart'') (cx_topic cx ''control'' ''reboot'') None)]"

definition build_pt_buttons :: "DiscoveryContext \<Rightarrow> built list" where
  "build_pt_buttons cx =
     (if \<not> cx_has_ptz cx then []
      else map (\<lambda>dir. (''button'', ''pan_'' @ dir,
        DButton (common cx (''pan_'' @ dir) (''Pan '' @ dir) (''mdi:pan-'' @ dir)) (cx_topic cx ''control'' ''ptz'') (Some dir)))
        [''left'', ''right'', ''up'', ''down''])"

definition build_battery :: "DiscoveryContext \<Rightarrow> built list" where
  "build_battery cx = [(''sensor'', ''battery'',
     DSensor (common cx ''battery'' ''Battery'' ''mdi:battery'') (cx_topic cx ''status'' ''battery_level'') ''measurement'' ''%'' (Some ''battery''))]"

definition build_siren :: "DiscoveryContext \<Rightarrow> built list" where
  "build_siren cx = [(''button'', ''siren'', DButton (common cx ''siren'' ''Siren'' ''mdi:bell'') (cx_topic cx ''control'' ''siren'') (Some ''on''))]"

section \<open>The publisher\<close>

record CameraEnableFlags =
  fl_motion :: bool
  fl_battery :: bool
  fl_floodlight :: bool
  fl_light :: bool
  fl_pir :: bool

definition enable_flags :: "MqttConfig \<Rightarrow> CameraEnableFlags" where
  "enable_flags m = \<lparr>fl_motion = enable_motion m, fl_battery = enable_battery m, fl_floodlight = enable_floodlight m,
     fl_light = enable_light m, fl_pir = enable_pir m\<rparr>"

definition allows :: "CameraEnableFlags \<Rightarrow> Feature \<Rightarrow> bool" where
  "allows fl f = (case f of
     FMotion \<Rightarrow> fl_motion fl | FBattery \<Rightarrow> fl_battery fl | FFloodlight \<Rightarrow> fl_floodlight fl | FLed \<Rightarrow> fl_light fl
   | FPir \<Rightarrow> fl_pir fl | _ \<Rightarrow> True)"

definition build_feature :: "DiscoveryContext \<Rightarrow> Feature \<Rightarrow> built list" where
  "build_feature cx f = (case f of
     FFloodlight \<Rightarrow> build_floodlight_light cx @ build_floodlight_tasks_switch cx
   | FCamera \<Rightarrow> build_camera cx
   | FMotion \<Rightarrow> build_motion cx
   | FLed \<Rightarrow> build_led cx
   | FIr \<Rightarrow> build_ir cx
   | FReboot \<Rightarrow> build_reboot cx
   | FPt \<Rightarrow> build_pt_buttons cx
   | FPtPreset \<Rightarrow> build_ptz_presets cx
   | FBattery \<Rightarrow> build_battery cx
   | FSiren \<Rightarrow> build_siren cx
   | FPir \<Rightarrow> build_pir cx)"

definition compute_entities :: "Feature set \<Rightarrow> CameraEnableFlags \<Rightarrow> DiscoveryContext \<Rightarrow> built list" where
  "compute_entities feats fl cx = concat (map (build_feature cx) (filter (\<lambda>f. f \<in> feats \<and> allows fl f) Feature_ALL))"

definition built_topic :: "DiscoveryContext \<Rightarrow> built \<Rightarrow> string" where
  "built_topic cx b = config_topic (cx_ha_topic cx) (fst b) (unique_id (cx_topic_prefix cx) (cx_camera_name cx) (fst (snd b)))"

definition compute_payloads ::
  "(entity \<Rightarrow> string) \<Rightarrow> Feature set \<Rightarrow> CameraEnableFlags \<Rightarrow> DiscoveryContext \<Rightarrow> (string \<times> string) list" where
  "compute_payloads to_json feats fl cx = map (\<lambda>b. (built_topic cx b, to_json (snd (snd b)))) (compute_entities feats fl cx)"

text \<open>
  Retained publishes one after the other, until one fails. An empty payload deletes the retained message. The
  outcomes are consumed in turn; past their end everything succeeds.
\<close>

definition retain :: "string \<Rightarrow> string \<Rightarrow> retained \<Rightarrow> retained" where
  "retain t s store = (if s = [] then store(t := None) else store(t \<mapsto> s))"

fun publish_seq :: "bool list \<Rightarrow> (string \<times> string) list \<Rightarrow> retained \<Rightarrow> bool \<times> retained" where
  "publish_seq oks [] store = (True, store)"
| "publish_seq (False # oks) (m # ms) store = (False, store)"
| "publish_seq (True # oks) ((t, s) # ms) store = publish_seq oks ms (retain t s store)"
| "publish_seq [] ((t, s) # ms) store = publish_seq [] ms (retain t s store)"

record publisher =
  last_published :: "string \<Rightarrow> string list"
  pub_store :: retained

definition disc_publish ::
  "(entity \<Rightarrow> string) \<Rightarrow> Feature set \<Rightarrow> CameraEnableFlags \<Rightarrow> DiscoveryContext \<Rightarrow> bool list \<Rightarrow> publisher \<Rightarrow> bool \<times> publisher" where
  "disc_publish to_json feats fl cx oks st =
     (let cam = cx_camera_name cx;
          payloads = compute_payloads to_json feats fl cx;
          removed = filter (\<lambda>t. t \<notin> fst ` set payloads) (last_published st cam);
          st1 = st\<lparr>last_published := (last_published st)(cam := map fst payloads)\<rparr>
      in case publish_seq oks (payloads @ map (\<lambda>t. (t, [])) removed @ [(status_ptz_preset (cx_topic_prefix cx) cam, [])]) (pub_store st) of
           (ok, store) \<Rightarrow> (ok, st1\<lparr>pub_store := store\<rparr>))"

definition disc_unpublish ::
  "(entity \<Rightarrow> string) \<Rightarrow> Feature set \<Rightarrow> CameraEnableFlags \<Rightarrow> DiscoveryContext \<Rightarrow> bool list \<Rightarrow> publisher \<Rightarrow> bool \<times> publisher" where
  "disc_unpublish to_json feats fl cx oks st =
     (let cam = cx_camera_name cx;
          to_clear = remdups (map fst (compute_payloads to_json feats fl cx) @ last_published st cam);
          st1 = st\<lparr>last_published := (last_published st)(cam := [])\<rparr>
      in case publish_seq oks (map (\<lambda>t. (t, [])) to_clear) (pub_store st) of
           (ok, store) \<Rightarrow> (ok, st1\<lparr>pub_store := store\<rparr>))"

section \<open>Topics of entities\<close>

definition feature_kinds :: "Feature \<Rightarrow> (string \<times> string) list" where
  "feature_kinds f = (case f of
     FFloodlight \<Rightarrow> [(''light'', ''floodlight''), (''switch'', ''floodlight_tasks'')]
   | FCamera \<Rightarrow> [(''camera'', ''camera'')]
   | FMotion \<Rightarrow> [(''binary_sensor'', ''md'')]
   | FLed \<Rightarrow> [(''switch'', ''led'')]
   | FIr \<Rightarrow> [(''select'', ''ir'')]
   | FReboot \<Rightarrow> [(''button'', ''reboot'')]
   | FPt \<Rightarrow> [(''button'', ''pan_left''), (''button'', ''pan_right''), (''button'', ''pan_up''), (''button'', ''pan_down'')]
   | FPtPreset \<Rightarrow> [(''select'', ''preset'')]
   | FBattery \<Rightarrow> [(''sensor'', ''battery'')]
   | FSiren \<Rightarrow> [(''button'', ''siren'')]
   | FPir \<Rightarrow> [(''switch'', ''pir'')])"

definition entity_kinds :: "(string \<times> string) list" where "entity_kinds = concat (map feature_kinds Feature_ALL)"

abbreviation kind_of :: "built \<Rightarrow> string \<times> string" where "kind_of b \<equiv> (fst b, fst (snd b))"

lemmas build_defs = build_floodlight_light_def build_floodlight_tasks_switch_def build_camera_def build_motion_def
  build_led_def build_ir_def build_pir_def build_ptz_presets_def build_reboot_def build_pt_buttons_def
  build_battery_def build_siren_def

lemma feature_kinds_build: "map kind_of (build_feature cx f) \<in> {[], feature_kinds f}"
  by (cases f) (simp_all add: build_feature_def feature_kinds_def build_defs)

lemma subseq_concat_filter:
  "(\<And>f. f \<in> set fs \<Longrightarrow> subseq (g f) (k f)) \<Longrightarrow> subseq (concat (map g (filter P fs))) (concat (map k fs))"
  by (induction fs) (auto intro: list_emb_append_mono subseq_order.trans [OF _ list_emb_append2])

lemma compute_kinds: "subseq (map kind_of (compute_entities feats fl cx)) entity_kinds"
proof -
  have "subseq (map kind_of (build_feature cx f)) (feature_kinds f)" for f
    using feature_kinds_build [of cx f] by auto
  then show ?thesis
    unfolding compute_entities_def entity_kinds_def map_concat map_map comp_def
    using subseq_concat_filter [of Feature_ALL "\<lambda>f. map kind_of (build_feature cx f)" feature_kinds] by simp
qed

lemma subseq_mem: "subseq xs ys \<Longrightarrow> x \<in> set xs \<Longrightarrow> x \<in> set ys"
  by (auto simp: subseq_conv_nths dest: in_set_nthsD)

lemma subseq_distinct: "subseq xs ys \<Longrightarrow> distinct ys \<Longrightarrow> distinct xs"
  by (auto simp: subseq_conv_nths)

lemma kind_mem: "b \<in> set (compute_entities feats fl cx) \<Longrightarrow> kind_of b \<in> set entity_kinds"
  using subseq_mem [OF compute_kinds] by fastforce

lemma entity_kinds_eval: "entity_kinds = [(''light'', ''floodlight''), (''switch'', ''floodlight_tasks''), (''camera'', ''camera''),
   (''binary_sensor'', ''md''), (''switch'', ''led''), (''select'', ''ir''), (''button'', ''reboot''), (''button'', ''pan_left''),
   (''button'', ''pan_right''), (''button'', ''pan_up''), (''button'', ''pan_down''), (''select'', ''preset''), (''sensor'', ''battery''),
   (''button'', ''siren''), (''switch'', ''pir'')]"
  by (simp add: entity_kinds_def Feature_ALL_def feature_kinds_def)

lemma kinds_distinct: "distinct entity_kinds"
  by code_simp

text \<open>No entity of one camera can take the ID of another entity, of this or of another camera.\<close>

lemma kinds_apart:
  "\<forall>k\<in>set entity_kinds. \<forall>l\<in>set entity_kinds. \<not> prefix (rev (snd k) @ ''_'') (rev (snd l)) \<and>
     (snd k = snd l \<longrightarrow> k = l) \<and> CHR ''/'' \<notin> set (fst k)"
  by code_simp

lemma append_sep:
  assumes "x @ d # u = y @ d # v" "\<not> prefix (x @ [d]) y" "\<not> prefix (y @ [d]) x"
  shows "x = y \<and> u = v"
proof -
  have "prefix x y \<or> prefix y x" using assms(1) by (metis prefixI prefix_same_cases)
  then have "x = y"
  proof
    assume "prefix x y"
    then obtain z where z: "y = x @ z" by (auto simp: prefix_def)
    then show "x = y" using assms(1,2) by (cases z) (auto simp: prefix_def)
  next
    assume "prefix y x"
    then obtain z where z: "x = y @ z" by (auto simp: prefix_def)
    then show "x = y" using assms(1,3) by (cases z) (auto simp: prefix_def)
  qed
  then show ?thesis using assms(1) by simp
qed

lemma config_topic_inj:
  assumes k: "(c1, s1) \<in> set entity_kinds" "(c2, s2) \<in> set entity_kinds"
    and eq: "config_topic ha c1 (unique_id p cam1 s1) = config_topic ha c2 (unique_id p cam2 s2)"
  shows "cam1 = cam2 \<and> (c1, s1) = (c2, s2)"
proof -
  have "c1 @ CHR ''/'' # unique_id p cam1 s1 @ ''/config'' = c2 @ CHR ''/'' # unique_id p cam2 s2 @ ''/config''"
    using eq by (simp add: config_topic_def)
  moreover have "CHR ''/'' \<notin> set c1" "CHR ''/'' \<notin> set c2" using kinds_apart k by fastforce+
  ultimately have "unique_id p cam1 s1 @ ''/config'' = unique_id p cam2 s2 @ ''/config''"
    using split_once_append by (metis option.inject prod.inject)
  then have "cam1 @ ''_'' @ s1 = cam2 @ ''_'' @ s2" by (simp add: unique_id_def)
  from arg_cong [OF this, of rev] have "rev s1 @ CHR ''_'' # rev cam1 = rev s2 @ CHR ''_'' # rev cam2" by simp
  moreover have "\<not> prefix (rev s1 @ ''_'') (rev s2)" "\<not> prefix (rev s2 @ ''_'') (rev s1)" using kinds_apart k by fastforce+
  ultimately have "rev s1 = rev s2 \<and> rev cam1 = rev cam2" using append_sep by metis
  then have "s1 = s2" "cam1 = cam2" by simp_all
  then show ?thesis using kinds_apart k by fastforce
qed

section \<open>The retained entities\<close>

definition camera_topics :: "string \<Rightarrow> string \<Rightarrow> string \<Rightarrow> string set" where
  "camera_topics ha p cam = (\<lambda>(c, s). config_topic ha c (unique_id p cam s)) ` set entity_kinds"

lemma camera_topics_disjoint: "t \<in> camera_topics ha p cam1 \<Longrightarrow> t \<in> camera_topics ha p cam2 \<Longrightarrow> cam1 = cam2"
proof -
  assume "t \<in> camera_topics ha p cam1" "t \<in> camera_topics ha p cam2"
  then obtain c1 s1 c2 s2 where "(c1, s1) \<in> set entity_kinds" "t = config_topic ha c1 (unique_id p cam1 s1)"
    "(c2, s2) \<in> set entity_kinds" "t = config_topic ha c2 (unique_id p cam2 s2)"
    by (auto simp: camera_topics_def)
  then show "cam1 = cam2" using config_topic_inj [of c1 s1 c2 s2 ha p cam1 cam2] by simp
qed

lemma preset_not_config: "status_ptz_preset p cam \<notin> camera_topics ha q cam'"
proof
  assume "status_ptz_preset p cam \<in> camera_topics ha q cam'"
  then obtain c s where "status_ptz_preset p cam = config_topic ha c (unique_id q cam' s)" by (auto simp: camera_topics_def)
  from arg_cong [OF this, of last] show False by (simp add: status_ptz_preset_def cam_topic_def config_topic_def)
qed

lemma payload_topics:
  assumes "(t, s) \<in> set (compute_payloads to_json feats fl cx)"
  shows "t \<in> camera_topics (cx_ha_topic cx) (cx_topic_prefix cx) (cx_camera_name cx)"
proof -
  obtain b where "b \<in> set (compute_entities feats fl cx)" "t = built_topic cx b" using assms by (auto simp: compute_payloads_def)
  then show ?thesis using kind_mem [of b feats fl cx] by (force simp: camera_topics_def built_topic_def)
qed

lemma payloads_distinct: "distinct (map fst (compute_payloads to_json feats fl cx))"
proof -
  let ?k = "\<lambda>(c, s). config_topic (cx_ha_topic cx) c (unique_id (cx_topic_prefix cx) (cx_camera_name cx) s)"
  let ?ks = "map kind_of (compute_entities feats fl cx)"
  have "inj_on ?k (set entity_kinds)"
  proof (rule inj_onI)
    fix k l assume k: "k \<in> set entity_kinds" "l \<in> set entity_kinds" "?k k = ?k l"
    obtain c1 s1 c2 s2 where "k = (c1, s1)" "l = (c2, s2)" by (cases k; cases l)
    then show "k = l"
      using k config_topic_inj [of c1 s1 c2 s2 "cx_ha_topic cx" "cx_topic_prefix cx" "cx_camera_name cx" "cx_camera_name cx"] by simp
  qed
  moreover have "set ?ks \<subseteq> set entity_kinds" using kind_mem by auto
  ultimately have "inj_on ?k (set ?ks)" by (rule inj_on_subset)
  moreover have "distinct ?ks" by (rule subseq_distinct [OF compute_kinds kinds_distinct])
  ultimately have "distinct (map ?k ?ks)" using distinct_map [of ?k ?ks] by blast
  moreover have "map ?k ?ks = map fst (compute_payloads to_json feats fl cx)"
    by (simp add: compute_payloads_def built_topic_def)
  ultimately show ?thesis by simp
qed

lemma publish_all: "publish_seq [] ms store = (True, fold (\<lambda>(t, s). retain t s) ms store)"
  by (induction ms arbitrary: store) auto

lemma fold_retain:
  assumes "distinct (map fst ms)"
  shows "fold (\<lambda>(t, s). retain t s) ms store t = (case map_of ms t of None \<Rightarrow> store t | Some s \<Rightarrow> if s = [] then None else Some s)"
  using assms
proof (induction ms arbitrary: store)
  case (Cons m ms)
  obtain k v where m: "m = (k, v)" by (cases m)
  have "map_of ms k = None" using Cons.prems m by (simp add: map_of_eq_None_iff)
  then show ?case using Cons m by (auto simp: retain_def split: option.splits)
qed simp

lemma map_of_blank: "map_of (map (\<lambda>t. (t, b)) ts) t = (if t \<in> set ts then Some b else None)"
  by (induction ts) auto

datatype disc_op = OpPublish "Feature set" CameraEnableFlags DiscoveryContext | OpUnpublish "Feature set" CameraEnableFlags DiscoveryContext

fun disc_step :: "(entity \<Rightarrow> string) \<Rightarrow> disc_op \<Rightarrow> publisher \<Rightarrow> publisher" where
  "disc_step to_json (OpPublish feats fl cx) st = snd (disc_publish to_json feats fl cx [] st)"
| "disc_step to_json (OpUnpublish feats fl cx) st = snd (disc_unpublish to_json feats fl cx [] st)"

text \<open>What a camera shows after some operations: the entities of its last publication, nothing after a removal.\<close>

fun shown_step :: "(entity \<Rightarrow> string) \<Rightarrow> disc_op \<Rightarrow> (string \<Rightarrow> (string \<times> string) list) \<Rightarrow> string \<Rightarrow> (string \<times> string) list" where
  "shown_step to_json (OpPublish feats fl cx) sh = sh(cx_camera_name cx := compute_payloads to_json feats fl cx)"
| "shown_step to_json (OpUnpublish feats fl cx) sh = sh(cx_camera_name cx := [])"

definition disc_inv :: "string \<Rightarrow> string \<Rightarrow> (string \<Rightarrow> (string \<times> string) list) \<Rightarrow> publisher \<Rightarrow> bool" where
  "disc_inv ha p sh st \<longleftrightarrow>
     (\<forall>cam. last_published st cam = map fst (sh cam) \<and> distinct (map fst (sh cam)) \<and>
        (\<forall>(t, s)\<in>set (sh cam). t \<in> camera_topics ha p cam \<and> s \<noteq> [])) \<and>
     (\<forall>t s. pub_store st t = Some s \<longleftrightarrow> (\<exists>cam. (t, s) \<in> set (sh cam)))"

fun op_context :: "disc_op \<Rightarrow> DiscoveryContext" where
  "op_context (OpPublish feats fl cx) = cx"
| "op_context (OpUnpublish feats fl cx) = cx"

text \<open>Replacing what one camera shows, given where the new store agrees with the old one.\<close>

lemma disc_inv_upd:
  assumes inv: "disc_inv ha p sh st" and lp: "last_published st' = (last_published st)(cam := map fst new)"
    and new: "distinct (map fst new)" "\<forall>(t, s)\<in>set new. t \<in> camera_topics ha p cam \<and> s \<noteq> []"
    and mine: "\<And>t. t \<in> camera_topics ha p cam \<Longrightarrow> pub_store st' t = map_of new t"
    and other: "\<And>t. t \<notin> camera_topics ha p cam \<Longrightarrow> (\<exists>c. t \<in> camera_topics ha p c) \<Longrightarrow> pub_store st' t = pub_store st t"
    and none: "\<And>t. \<not> (\<exists>c. t \<in> camera_topics ha p c) \<Longrightarrow> pub_store st' t = None"
  shows "disc_inv ha p (sh(cam := new)) st'"
proof -
  have sh: "(t, s) \<in> set (sh c) \<Longrightarrow> t \<in> camera_topics ha p c" for t s c using inv by (fastforce simp: disc_inv_def)
  have "pub_store st' t = Some s \<longleftrightarrow> (\<exists>c. (t, s) \<in> set ((sh(cam := new)) c))" for t s
  proof (cases "t \<in> camera_topics ha p cam")
    case True
    then have "(t, s) \<notin> set (sh c)" if "c \<noteq> cam" for c using sh camera_topics_disjoint that by blast
    then show ?thesis using mine [OF True] new(1) by (auto simp: map_of_eq_Some_iff split: if_splits)
  next
    case False
    then have "(t, s) \<notin> set new" "(t, s) \<notin> set (sh cam)" using new(2) sh by fastforce+
    then have "(\<exists>c. (t, s) \<in> set ((sh(cam := new)) c)) \<longleftrightarrow> (\<exists>c. (t, s) \<in> set (sh c))" by (auto split: if_splits)
    moreover have "pub_store st' t = Some s \<longleftrightarrow> (\<exists>c. (t, s) \<in> set (sh c))"
    proof (cases "\<exists>c. t \<in> camera_topics ha p c")
      case True
      then show ?thesis using other [OF False True] inv by (simp add: disc_inv_def)
    next
      case no: False
      then show ?thesis using none [OF no] sh by auto
    qed
    ultimately show ?thesis by simp
  qed
  then show ?thesis using inv lp new by (auto simp: disc_inv_def)
qed

lemma publish_store:
  fixes cx :: DiscoveryContext
  defines "cam \<equiv> cx_camera_name cx" and "p \<equiv> cx_topic_prefix cx" and "ha \<equiv> cx_ha_topic cx"
  assumes inv: "disc_inv ha p sh st" and json: "\<And>e. to_json e \<noteq> []"
  shows "disc_inv ha p (sh(cam := compute_payloads to_json feats fl cx)) (snd (disc_publish to_json feats fl cx [] st))"
proof (rule disc_inv_upd [OF inv])
  let ?new = "compute_payloads to_json feats fl cx" and ?st = "snd (disc_publish to_json feats fl cx [] st)"
  let ?gone = "filter (\<lambda>t. t \<notin> fst ` set ?new) (map fst (sh cam))" and ?preset = "status_ptz_preset p cam"
  let ?ms = "?new @ map (\<lambda>t. (t, [])) ?gone @ [(?preset, [])]"
  have lp: "last_published st cam = map fst (sh cam)" and d: "distinct (map fst (sh cam))"
    and mem: "(t, s) \<in> set (sh c) \<Longrightarrow> t \<in> camera_topics ha p c" and store: "pub_store st t = Some s \<longleftrightarrow> (\<exists>c. (t, s) \<in> set (sh c))" for t s c
    using inv by (fastforce simp: disc_inv_def)+
  show "last_published ?st = (last_published st)(cam := map fst ?new)"
    by (simp add: disc_publish_def Let_def cam_def split: prod.splits)
  show new: "distinct (map fst ?new)" by (rule payloads_distinct)
  have new_topics: "t \<in> camera_topics ha p cam" if "(t, s) \<in> set ?new" for t s
    using payload_topics [OF that] by (simp add: ha_def p_def cam_def)
  then show "\<forall>(t, s)\<in>set ?new. t \<in> camera_topics ha p cam \<and> s \<noteq> []" using json by (auto simp: compute_payloads_def)
  have gone: "t \<in> camera_topics ha p cam" if "t \<in> set ?gone" for t using that mem by auto
  have dist: "distinct (map fst ?ms)"
    using new d gone new_topics preset_not_config [of p cam ha p cam] by (auto simp: comp_def)
  have seq: "pub_store ?st = fold (\<lambda>(t, s). retain t s) ?ms (pub_store st)"
    using lp by (simp add: disc_publish_def publish_all Let_def cam_def p_def)
  have st: "pub_store ?st t = (case map_of ?ms t of None \<Rightarrow> pub_store st t | Some s \<Rightarrow> if s = [] then None else Some s)" for t
    unfolding seq by (rule fold_retain [OF dist])
  have out: "map_of ?ms t = None" if "t \<notin> camera_topics ha p cam" "t \<noteq> ?preset" for t
    using that new_topics gone by (force simp: map_of_eq_None_iff)
  show "pub_store ?st t = map_of ?new t" if t: "t \<in> camera_topics ha p cam" for t
  proof (cases "map_of ?new t")
    case (Some s)
    then obtain e where "s = to_json e" by (auto simp: compute_payloads_def dest!: map_of_SomeD)
    then have "s \<noteq> []" using json by simp
    then show ?thesis using st Some by simp
  next
    case None
    then have nt: "t \<notin> fst ` set ?new" by (simp add: map_of_eq_None_iff)
    have ne: "t \<noteq> ?preset" using t preset_not_config [of p cam ha p cam] by auto
    show ?thesis
    proof (cases "t \<in> fst ` set (sh cam)")
      case True
      then have "map_of (map (\<lambda>t. (t, [] :: string)) ?gone) t = Some []" using nt by (auto simp: map_of_blank)
      then show ?thesis using st None by (simp add: map_add_def)
    next
      case False
      then have "map_of ?ms t = None" using nt ne by (force simp: map_of_eq_None_iff)
      moreover have "pub_store st t = None"
        using store False mem camera_topics_disjoint t by (metis fst_conv image_eqI not_Some_eq)
      ultimately show ?thesis by (simp only: st None option.case)
    qed
  qed
  show "pub_store ?st t = pub_store st t" if "t \<notin> camera_topics ha p cam" "\<exists>c. t \<in> camera_topics ha p c" for t
  proof -
    have ne: "t \<noteq> ?preset" using that(2) preset_not_config by blast
    show ?thesis by (simp only: st out [OF that(1) ne] option.case)
  qed
  show "pub_store ?st t = None" if "\<not> (\<exists>c. t \<in> camera_topics ha p c)" for t
  proof (cases "t = ?preset")
    case True
    have "map_of ?ms t \<noteq> None" using True by (simp add: map_of_eq_None_iff)
    moreover have "map_of ?new t = None" using that new_topics by (force simp: map_of_eq_None_iff)
    ultimately show ?thesis using st by (auto simp: map_add_def split: option.splits dest!: map_of_SomeD)
  next
    case False
    then show ?thesis using st out that store mem by (metis (no_types, lifting) not_None_eq option.simps(4))
  qed
qed

lemma unpublish_store:
  fixes cx :: DiscoveryContext
  defines "cam \<equiv> cx_camera_name cx" and "p \<equiv> cx_topic_prefix cx" and "ha \<equiv> cx_ha_topic cx"
  assumes inv: "disc_inv ha p sh st"
  shows "disc_inv ha p (sh(cam := [])) (snd (disc_unpublish to_json feats fl cx [] st))"
proof (rule disc_inv_upd [OF inv])
  let ?st = "snd (disc_unpublish to_json feats fl cx [] st)"
  let ?ts = "remdups (map fst (compute_payloads to_json feats fl cx) @ map fst (sh cam))"
  let ?ms = "map (\<lambda>t. (t, [])) ?ts :: (string \<times> string) list"
  have lp: "last_published st cam = map fst (sh cam)" and mem: "(t, s) \<in> set (sh c) \<Longrightarrow> t \<in> camera_topics ha p c"
    and store: "pub_store st t = Some s \<longleftrightarrow> (\<exists>c. (t, s) \<in> set (sh c))" for t s c
    using inv by (fastforce simp: disc_inv_def)+
  show "last_published ?st = (last_published st)(cam := map fst [])"
    by (simp add: disc_unpublish_def Let_def cam_def split: prod.splits)
  have ts: "t \<in> camera_topics ha p cam" if "t \<in> set ?ts" for t
    using that payload_topics mem by (auto simp: ha_def p_def cam_def)
  have dist: "distinct (map fst ?ms)" by (simp add: comp_def)
  have seq: "pub_store ?st = fold (\<lambda>(t, s). retain t s) ?ms (pub_store st)"
    using lp by (simp add: disc_unpublish_def publish_all Let_def cam_def)
  have st: "pub_store ?st t = (if t \<in> set ?ts then None else pub_store st t)" for t
  proof -
    show ?thesis unfolding seq fold_retain [OF dist] by (simp add: map_of_blank del: set_remdups)
  qed
  show "pub_store ?st t = map_of [] t" if t: "t \<in> camera_topics ha p cam" for t
  proof (cases "t \<in> set ?ts")
    case True
    then show ?thesis using st by simp
  next
    case False
    have "(t, s) \<notin> set (sh c)" for s c
    proof
      assume "(t, s) \<in> set (sh c)"
      moreover from this have "c = cam" using camera_topics_disjoint [OF mem t] by blast
      ultimately show False using False by force
    qed
    then have "pub_store st t = None" using store by (metis not_Some_eq)
    then show ?thesis using st by simp
  qed
  show "pub_store ?st t = pub_store st t" if "t \<notin> camera_topics ha p cam" for t using st ts that by auto
  show "pub_store ?st t = None" if "\<not> (\<exists>c. t \<in> camera_topics ha p c)" for t
  proof -
    have "pub_store st t = None" using store mem that by (metis not_Some_eq)
    then show ?thesis using st by simp
  qed
qed simp_all



section \<open>What Home Assistant sends\<close>

text \<open>
  The messages an entity makes Home Assistant publish: topic and payload. A button without a payload sends its
  documented default \<open>PRESS\<close>.
\<close>

fun ha_commands :: "entity \<Rightarrow> (string \<times> string) list" where
  "ha_commands (DLight _ _ _ ct on off) = (case ct of Some t \<Rightarrow> [(t, on), (t, off)] | None \<Rightarrow> [])"
| "ha_commands (DSwitch _ t off on _ _ _) = [(t, off), (t, on)]"
| "ha_commands (DSelect _ t opts _) = map (Pair t) opts"
| "ha_commands (DButton _ t press) = [(t, case press of Some s \<Rightarrow> s | None \<Rightarrow> ''PRESS'')]"
| "ha_commands _ = []"

text \<open>What is meant by a payload sent by the entity with a given suffix.\<close>

definition ha_meaning :: "string \<Rightarrow> string \<Rightarrow> string \<Rightarrow> ControlCommand" where
  "ha_meaning cam sfx s =
     (if sfx = ''floodlight'' then Floodlight cam (s = ''on'')
      else if sfx = ''floodlight_tasks'' then FloodlightTasks cam (s = ''on'')
      else if sfx = ''led'' then Led cam (s = ''on'')
      else if sfx = ''pir'' then Pir cam (s = ''on'')
      else if sfx = ''ir'' then Ir cam (if s = ''on'' then IrOn else if s = ''off'' then IrOff else IrAuto)
      else if sfx = ''siren'' then Siren cam True
      else if sfx = ''pan_left'' then Ptz cam Left (Fin 32)
      else if sfx = ''pan_right'' then Ptz cam Right (Fin 32)
      else if sfx = ''pan_up'' then Ptz cam Up (Fin 32)
      else if sfx = ''pan_down'' then Ptz cam Down (Fin 32)
      else Reboot cam)"

lemma parse_action:
  assumes "topic_safe p" "topic_safe cam" "cam \<noteq> []" "visible s" "utf8_valid (string_bytes s)" "CHR ''/'' \<notin> set leaf"
  shows "parse_control_message p (cam_topic p cam ''control'' leaf) (string_bytes s) = parse_control_action cam leaf s"
  using assms split_cam_topic [OF assms(1,2), of "''control''" leaf]
  by (simp add: parse_control_message_def split_single from_utf8_def Let_def)

lemma ascii_words:
  "utf8_valid (string_bytes ''on'')" "utf8_valid (string_bytes ''off'')" "utf8_valid (string_bytes ''auto'')"
  "utf8_valid (string_bytes ''left'')" "utf8_valid (string_bytes ''right'')" "utf8_valid (string_bytes ''up'')"
  "utf8_valid (string_bytes ''down'')" "utf8_valid (string_bytes ''PRESS'')"
  by (simp_all add: string_bytes_def)

lemma pan_words:
  "parse_control_action cam ''ptz'' ''left'' = Some (Ptz cam Left (Fin 32))" "parse_control_action cam ''ptz'' ''right'' = Some (Ptz cam Right (Fin 32))"
  "parse_control_action cam ''ptz'' ''up'' = Some (Ptz cam Up (Fin 32))" "parse_control_action cam ''ptz'' ''down'' = Some (Ptz cam Down (Fin 32))"
proof -
  have w: "first_words ''left'' = [''left'']" "first_words ''right'' = [''right'']" "first_words ''up'' = [''up'']" "first_words ''down'' = [''down'']"
    by code_simp+
  have r: "\<not> is_reserved_reply_token ''left''" "\<not> is_reserved_reply_token ''right''" "\<not> is_reserved_reply_token ''up''" "\<not> is_reserved_reply_token ''down''"
    by code_simp+
  have d: "parse_ptz_direction ''left'' = Some Left" "parse_ptz_direction ''right'' = Some Right" "parse_ptz_direction ''up'' = Some Up"
    "parse_ptz_direction ''down'' = Some Down"
    by code_simp+
  show "parse_control_action cam ''ptz'' ''left'' = Some (Ptz cam Left (Fin 32))" "parse_control_action cam ''ptz'' ''right'' = Some (Ptz cam Right (Fin 32))"
    "parse_control_action cam ''ptz'' ''up'' = Some (Ptz cam Up (Fin 32))" "parse_control_action cam ''ptz'' ''down'' = Some (Ptz cam Down (Fin 32))"
    by (simp_all add: parse_control_action_def parse_ptz_def w r d finite_nonneg_def)
qed

lemma on_off_words:
  "\<not> is_reserved_reply_token ''on''" "\<not> is_reserved_reply_token ''off''" "\<not> is_reserved_reply_token ''auto''" "\<not> is_reserved_reply_token ''PRESS''"
  "parse_on_off ''on'' = Some True" "parse_on_off ''off'' = Some False" "parse_ir_mode ''on'' = Some IrOn" "parse_ir_mode ''off'' = Some IrOff"
  "parse_ir_mode ''auto'' = Some IrAuto"
  by code_simp+

lemma action_words:
  "parse_control_action cam ''floodlight'' ''on'' = Some (Floodlight cam True)" "parse_control_action cam ''floodlight'' ''off'' = Some (Floodlight cam False)"
  "parse_control_action cam ''floodlight_tasks'' ''on'' = Some (FloodlightTasks cam True)"
  "parse_control_action cam ''floodlight_tasks'' ''off'' = Some (FloodlightTasks cam False)"
  "parse_control_action cam ''led'' ''on'' = Some (Led cam True)" "parse_control_action cam ''led'' ''off'' = Some (Led cam False)"
  "parse_control_action cam ''pir'' ''on'' = Some (Pir cam True)" "parse_control_action cam ''pir'' ''off'' = Some (Pir cam False)"
  "parse_control_action cam ''ir'' ''on'' = Some (Ir cam IrOn)" "parse_control_action cam ''ir'' ''off'' = Some (Ir cam IrOff)"
  "parse_control_action cam ''ir'' ''auto'' = Some (Ir cam IrAuto)" "parse_control_action cam ''siren'' ''on'' = Some (Siren cam True)"
  "parse_control_action cam ''reboot'' ''PRESS'' = Some (Reboot cam)"
  by (simp_all add: parse_control_action_def on_off_words)

text \<open>Suffix, topic leaf and payload of everything that can be sent, presets apart.\<close>

definition ha_table :: "(string \<times> string \<times> string) list" where
  "ha_table = [(''floodlight'', ''floodlight'', ''on''), (''floodlight'', ''floodlight'', ''off''),
     (''floodlight_tasks'', ''floodlight_tasks'', ''on''), (''floodlight_tasks'', ''floodlight_tasks'', ''off''),
     (''led'', ''led'', ''on''), (''led'', ''led'', ''off''), (''pir'', ''pir'', ''on''), (''pir'', ''pir'', ''off''),
     (''ir'', ''ir'', ''on''), (''ir'', ''ir'', ''off''), (''ir'', ''ir'', ''auto''), (''siren'', ''siren'', ''on''),
     (''reboot'', ''reboot'', ''PRESS''), (''pan_left'', ''ptz'', ''left''), (''pan_right'', ''ptz'', ''right''),
     (''pan_up'', ''ptz'', ''up''), (''pan_down'', ''ptz'', ''down'')]"

lemma ha_sends:
  assumes "b \<in> set (build_feature cx f)" "fst (snd b) \<noteq> ''preset''" "(t, s) \<in> set (ha_commands (snd (snd b)))"
  shows "\<exists>leaf. t = cx_topic cx ''control'' leaf \<and> (fst (snd b), leaf, s) \<in> set ha_table"
  using assms by (cases f) (auto simp: build_feature_def build_defs ha_table_def split: if_splits)

lemma ha_table_parses:
  "(sfx, leaf, w) \<in> set ha_table \<Longrightarrow> parse_control_action cam leaf w = Some (ha_meaning cam sfx w)"
proof -
  have "list_all (\<lambda>(sfx, leaf, w). parse_control_action cam leaf w = Some (ha_meaning cam sfx w)) ha_table"
    by (simp add: ha_table_def ha_meaning_def action_words pan_words)
  moreover assume "(sfx, leaf, w) \<in> set ha_table"
  ultimately show ?thesis by (auto simp: list_all_iff)
qed

lemma ha_table_ok:
  "(sfx, leaf, w) \<in> set ha_table \<Longrightarrow> visible w \<and> utf8_valid (string_bytes w) \<and> CHR ''/'' \<notin> set leaf"
  unfolding ha_table_def by (auto simp: ascii_words)

lemma ha_table_subscribed:
  "(sfx, leaf, w) \<in> set ha_table \<Longrightarrow> cam_topic p cam ''control'' leaf \<in> set (subscribe_topics p cam)"
  unfolding ha_table_def subscribe_topics_def by auto


text \<open>
  A preset whose name is a number cannot be chosen by its name. Home Assistant sends the label, the parser
  takes a number for a preset ID, and the camera moves to the preset of that ID, whichever preset has the label; the
  reply is OK.
\<close>

theorem preset_label_number:
  assumes "topic_safe p" "topic_safe cam" "cam \<noteq> []" "k \<le> 255"
    and "cams cam = Some h" "hd_camera h = Some bc" "drv_unit bc (moveto_ptz_preset k) = Returned (Ok ())"
  shows "\<exists>fx. mqtt_receive b64 p cams (cam_topic p cam ''control'' ''ptz/preset'') (string_bytes (show_nat k)) =
    AcquireWake # Call (moveto_ptz_preset k) # fx \<and> (\<forall>i. Call (moveto_ptz_preset i) \<in> set fx \<longrightarrow> i = k)"
proof -
  have ascii: "utf8_valid (string_bytes xs)" if "\<forall>c\<in>set xs. code c < 128" for xs
    using that
  proof (induction xs)
    case (Cons c xs)
    then have "of_nat (code c) \<le> (0x7f :: byte)" by (simp add: word_le_nat_alt unat_of_nat)
    then show ?case using Cons by (simp add: string_bytes_def)
  qed (simp add: string_bytes_def)
  have "code c < 128" if "c \<in> set (show_nat k)" for c using show_nat_digits [OF that] by simp
  then have utf: "from_utf8 (string_bytes (show_nat k)) = Some (show_nat k)" using ascii by (simp add: from_utf8_def)
  have "split CHR ''/'' (cam_topic p cam ''control'' ''ptz/preset'') = [p, cam, ''control'', ''ptz'', ''preset'']"
    by (simp add: split_cam_topic [OF assms(1,2)])
  then have "parse_control_message p (cam_topic p cam ''control'' ''ptz/preset'') (string_bytes (show_nat k)) = Some (PtzPreset cam k)"
    using assms utf by (simp add: parse_control_message_def parse_control_ptz_sub_def Let_def)
  then show ?thesis
    using assms(5-7)
    by (auto simp: mqtt_receive_def dispatch_control_def unit_call_def timeout_to_result_def split: option.splits)
qed

section \<open>A concrete camera\<close>

definition w_cx :: "(nat \<times> string) list \<Rightarrow> DiscoveryContext" where
  "w_cx presets = \<lparr>cx_topic_prefix = ''bairelay'', cx_ha_topic = ''homeassistant'', cx_camera_name = ''door'', cx_camera_addr = None,
     cx_camera_uid = None, cx_sw_version = ''1'', cx_has_ptz = True, cx_presets = presets\<rparr>"

definition w_flags :: CameraEnableFlags where
  "w_flags = \<lparr>fl_motion = True, fl_battery = True, fl_floodlight = True, fl_light = True, fl_pir = True\<rparr>"

definition w_json :: "entity \<Rightarrow> string" where "w_json _ = ''{}''"

abbreviation w_preset_topic :: string where "w_preset_topic \<equiv> ''homeassistant/select/bairelay_door_preset/config''"

lemma w_payloads:
  "compute_payloads w_json {FPtPreset} w_flags (w_cx [(2, ''5'')]) = [(w_preset_topic, ''{}'')]"
  "compute_payloads w_json {FPtPreset} w_flags (w_cx []) = []"
  by (simp_all add: compute_payloads_def compute_entities_def Feature_ALL_def allows_def build_feature_def build_ptz_presets_def
      w_cx_def built_topic_def config_topic_def unique_id_def w_json_def)




theorem preset_label_number_witness:
  "preset_id_for_name [(2, ''5'')] ''5'' = Some 2 \<and>
   (\<exists>fx. mqtt_receive (\<lambda>_. []) ''bairelay'' [''door'' \<mapsto> w_handle\<lparr>hd_presets := [(2, ''5'')]\<rparr>] (cam_topic ''bairelay'' ''door'' ''control'' ''ptz/preset'')
      (string_bytes (show_nat 5)) = AcquireWake # Call (moveto_ptz_preset 5) # fx \<and> (\<forall>i. Call (moveto_ptz_preset i) \<in> set fx \<longrightarrow> i = 5))"
proof
  show "preset_id_for_name [(2, ''5'')] ''5'' = Some 2" by code_simp
  show "\<exists>fx. mqtt_receive (\<lambda>_. []) ''bairelay'' [''door'' \<mapsto> w_handle\<lparr>hd_presets := [(2, ''5'')]\<rparr>] (cam_topic ''bairelay'' ''door'' ''control'' ''ptz/preset'')
      (string_bytes (show_nat 5)) = AcquireWake # Call (moveto_ptz_preset 5) # fx \<and> (\<forall>i. Call (moveto_ptz_preset i) \<in> set fx \<longrightarrow> i = 5)"
    by (rule preset_label_number [OF w_safe, where bc = w_driver and h = "w_handle\<lparr>hd_presets := [(2, ''5'')]\<rparr>"]) (simp_all add: w_handle_def w_driver_def)
qed

end
