(* ===== verification/Camera_Tasks.thy ===== *)
theory Camera_Tasks
  imports Mqtt_Control
begin

text \<open>
  The tasks that run while a camera is connected (\<open>src/camera_tasks.rs\<close>): the motion listener with its
  wake-lock guard, the battery, preview and floodlight pollers, the floodlight listener and the PIR report;
  the backoff they share with the connection loop, and the failure counters of the battery and keepalive
  probes (\<open>src/camera.rs\<close>). Times and durations are nanoseconds on an unbounded clock.
\<close>

section \<open>Backoff\<close>

record ReconnectBackoff =
  bo_initial :: nat
  bo_max :: nat
  bo_current :: nat

definition secs :: "nat \<Rightarrow> nat" where "secs n = n * NANOS_PER_SEC"

definition backoff_new :: "nat \<Rightarrow> nat \<Rightarrow> ReconnectBackoff" where
  "backoff_new initial m = \<lparr>bo_initial = initial, bo_max = m, bo_current = initial\<rparr>"

text \<open>Doubling panics when the product is no \<open>Duration\<close>.\<close>

definition next_delay :: "ReconnectBackoff \<Rightarrow> (nat \<times> ReconnectBackoff) option" where
  "next_delay b = (if DURATION_MAX < bo_current b * 2 then None
     else Some (bo_current b, b\<lparr>bo_current := min (bo_current b * 2) (bo_max b)\<rparr>))"

definition backoff_reset :: "ReconnectBackoff \<Rightarrow> ReconnectBackoff" where
  "backoff_reset b = b\<lparr>bo_current := bo_initial b\<rparr>"

fun delays :: "nat \<Rightarrow> ReconnectBackoff \<Rightarrow> nat list option" where
  "delays 0 b = Some []"
| "delays (Suc n) b = (case next_delay b of None \<Rightarrow> None | Some (d, b') \<Rightarrow> map_option ((#) d) (delays n b'))"

definition backoff_ok :: "nat \<Rightarrow> nat \<Rightarrow> ReconnectBackoff \<Rightarrow> bool" where
  "backoff_ok initial m b \<longleftrightarrow> bo_initial b = initial \<and> bo_max b = m \<and> initial \<le> bo_current b \<and> bo_current b \<le> m"

lemma backoff_ok_new: "i \<le> m \<Longrightarrow> backoff_ok i m (backoff_new i m)"
  by (simp add: backoff_ok_def backoff_new_def)

lemma backoff_ok_reset: "backoff_ok i m b \<Longrightarrow> i \<le> m \<Longrightarrow> backoff_ok i m (backoff_reset b)"
  by (simp add: backoff_ok_def backoff_reset_def)

lemma next_delay_ok:
  assumes "backoff_ok i m b" "2 * m \<le> DURATION_MAX"
  obtains b' where "next_delay b = Some (bo_current b, b')" "backoff_ok i m b'" "bo_current b' = min (bo_current b * 2) m"
proof -
  from assms have "bo_current b * 2 \<le> DURATION_MAX" by (simp add: backoff_ok_def)
  then show ?thesis using assms(1)
    by (intro that [of "b\<lparr>bo_current := min (bo_current b * 2) m\<rparr>"]) (auto simp: backoff_ok_def next_delay_def)
qed

lemma min_double: "min (min (a * 2) m * 2 ^ k) m = min (a * 2 ^ Suc k) (m :: nat)"
proof (cases "a * 2 \<le> m")
  case False
  have "x \<le> x * 2 ^ k" for x :: nat by simp
  from this [of m] this [of "a * 2"] False have "m \<le> m * 2 ^ k" "m \<le> a * 2 * 2 ^ k" by linarith+
  with False show ?thesis by (simp add: mult.assoc)
qed (simp add: mult.assoc)

lemma delays_ladder:
  assumes "backoff_ok i m b" "2 * m \<le> DURATION_MAX"
  shows "delays n b = Some (map (\<lambda>k. min (bo_current b * 2 ^ k) m) [0..<n])"
  using assms(1)
proof (induction n arbitrary: b)
  case (Suc n)
  obtain b' where b': "next_delay b = Some (bo_current b, b')" "backoff_ok i m b'" "bo_current b' = min (bo_current b * 2) m"
    using next_delay_ok [OF Suc.prems assms(2)] .
  have "map (\<lambda>k. min (bo_current b' * 2 ^ k) m) [0..<n] = map (\<lambda>k. min (bo_current b * 2 ^ k) m) [Suc 0..<Suc n]"
    by (simp add: b'(3) min_double map_Suc_upt [symmetric] del: upt_Suc)
  with Suc.IH [OF b'(2)] b'(1) Suc.prems show ?case
    by (simp add: backoff_ok_def upt_conv_Cons del: upt_Suc)
qed simp

section \<open>Streaks of failures\<close>

text \<open>
  What the counters of the two probes have in common: a streak that a good outcome ends. \<open>tripped\<close> says that
  somewhere \<open>k\<close> bad outcomes follow each other.
\<close>

fun streak :: "('a \<Rightarrow> bool) \<Rightarrow> nat \<Rightarrow> nat \<Rightarrow> 'a list \<Rightarrow> bool" where
  "streak bad k c [] = False"
| "streak bad k c (x # xs) = (if bad x then k \<le> Suc c \<or> streak bad k (Suc c) xs else streak bad k 0 xs)"

definition tripped :: "('a \<Rightarrow> bool) \<Rightarrow> nat \<Rightarrow> 'a list \<Rightarrow> bool" where
  "tripped bad k xs \<longleftrightarrow> (\<exists>pre run post. xs = pre @ run @ post \<and> length run = k \<and> (\<forall>x\<in>set run. bad x))"

lemma tripped_Cons:
  assumes "0 < k"
  shows "tripped bad k (x # xs) \<longleftrightarrow> (k \<le> Suc (length xs) \<and> (\<forall>y\<in>set (take k (x # xs)). bad y)) \<or> tripped bad k xs"
proof -
  have "tripped bad k ys \<longleftrightarrow> (\<exists>n. n + k \<le> length ys \<and> (\<forall>y\<in>set (take k (drop n ys)). bad y))" for ys :: "'a list"
  proof
    assume "tripped bad k ys"
    then obtain pre run post where "ys = pre @ run @ post" "length run = k" "\<forall>x\<in>set run. bad x"
      by (auto simp: tripped_def)
    then show "\<exists>n. n + k \<le> length ys \<and> (\<forall>y\<in>set (take k (drop n ys)). bad y)" by (intro exI [of _ "length pre"]) auto
  next
    assume "\<exists>n. n + k \<le> length ys \<and> (\<forall>y\<in>set (take k (drop n ys)). bad y)"
    then obtain n where n: "n + k \<le> length ys" "\<forall>y\<in>set (take k (drop n ys)). bad y" by blast
    have "ys = take n ys @ take k (drop n ys) @ drop k (drop n ys)" by (metis append_take_drop_id)
    with n show "tripped bad k ys" unfolding tripped_def
      by (intro exI [of _ "take n ys"] exI [of _ "take k (drop n ys)"] exI [of _ "drop k (drop n ys)"]) auto
  qed
  note window = this
  show ?thesis unfolding window
  proof
    assume "\<exists>n. n + k \<le> length (x # xs) \<and> (\<forall>y\<in>set (take k (drop n (x # xs))). bad y)"
    then obtain n where n: "n + k \<le> length (x # xs)" "\<forall>y\<in>set (take k (drop n (x # xs))). bad y" by blast
    then show "k \<le> Suc (length xs) \<and> (\<forall>y\<in>set (take k (x # xs)). bad y) \<or>
        (\<exists>n. n + k \<le> length xs \<and> (\<forall>y\<in>set (take k (drop n xs)). bad y))"
      by (cases n) auto
  next
    assume "k \<le> Suc (length xs) \<and> (\<forall>y\<in>set (take k (x # xs)). bad y) \<or>
        (\<exists>n. n + k \<le> length xs \<and> (\<forall>y\<in>set (take k (drop n xs)). bad y))"
    then show "\<exists>n. n + k \<le> length (x # xs) \<and> (\<forall>y\<in>set (take k (drop n (x # xs))). bad y)"
      by (metis Suc_le_mono add_0 add_Suc drop0 drop_Suc_Cons length_Cons)
  qed
qed

lemma prefix_tripped: "k \<le> length xs \<Longrightarrow> \<forall>x\<in>set (take k xs). bad x \<Longrightarrow> tripped bad k xs"
  unfolding tripped_def by (intro exI [of _ "[]"] exI [of _ "take k xs"] exI [of _ "drop k xs"]) auto

lemma streak_iff_prefix:
  "0 < k \<Longrightarrow> c < k \<Longrightarrow> streak bad k c xs \<longleftrightarrow>
     (k \<le> c + length xs \<and> (\<forall>x\<in>set (take (k - c) xs). bad x)) \<or> tripped bad k xs"
proof (induction xs arbitrary: c)
  case Nil
  then show ?case by (auto simp: tripped_def)
next
  case (Cons x xs)
  show ?case
  proof (cases "bad x")
    case True
    show ?thesis
    proof (cases "k \<le> Suc c")
      case True
      with Cons.prems have "k - c = 1" "k = Suc c" by auto
      with \<open>bad x\<close> show ?thesis by simp
    next
      case False
      then have kc: "k - c = Suc (k - Suc c)" by simp
      have sub: "k \<le> Suc (length xs) \<and> (\<forall>y\<in>set (take k (x # xs)). bad y) \<Longrightarrow>
          k \<le> Suc (c + length xs) \<and> (\<forall>y\<in>set (take (k - Suc c) xs). bad y)"
        using Cons.prems kc set_take_subset_set_take [of "k - Suc c" "k - 1" xs] by (cases k) auto
      show ?thesis using Cons.IH [of "Suc c"] Cons.prems True False kc sub
        by (auto simp: tripped_Cons)
    qed
  next
    case False
    then have "\<not> (\<forall>y\<in>set (take (k - c) (x # xs)). bad y)" "\<not> (\<forall>y\<in>set (take k (x # xs)). bad y)"
      using Cons.prems by (cases "k - c"; simp; cases k; simp)+
    with Cons.IH [of 0] Cons.prems False prefix_tripped [of k xs bad] show ?thesis by (auto simp: tripped_Cons)
  qed
qed

lemma streak_iff: "0 < k \<Longrightarrow> streak bad k 0 xs \<longleftrightarrow> tripped bad k xs"
  using streak_iff_prefix [of k 0 bad xs] prefix_tripped [of k xs bad] by auto

section \<open>Motion\<close>

datatype MotionStatus = MotionStart | MotionStop | NoChange

datatype motion_effect = AcquireGuard | DropGuard | Reported CameraEvent

text \<open>
  Where the listener is: it subscribes, waits for the next status with its guard and the deadline of a pending
  release, sleeps before it subscribes again, or has returned.
\<close>

datatype motion_phase = Subscribing | Listening bool "nat option" | Resting nat | Stopped

record motion_listener =
  ml_phase :: motion_phase
  ml_backoff :: ReconnectBackoff
  ml_log :: "motion_effect list"

definition motion_init :: motion_listener where
  "motion_init = \<lparr>ml_phase = Subscribing, ml_backoff = backoff_new (secs 1) (secs 60), ml_log = []\<rparr>"

text \<open>
  What can happen to it. A status or an error of the camera and the timer carry the time they are handled at;
  cancelling is seen while it listens or sleeps, and the session aborts the task when it takes too long.
\<close>

datatype motion_event =
    Subscribed bool
  | NextMotion nat "MotionStatus option"
  | ReleaseTimer nat
  | Cancelled
  | Slept
  | Aborted

definition drop_guard :: "bool \<Rightarrow> motion_effect list" where
  "drop_guard held = (if held then [DropGuard] else [])"

definition rest :: "motion_listener \<Rightarrow> motion_listener option" where
  "rest ml = map_option (\<lambda>(d, b). ml\<lparr>ml_phase := Resting d, ml_backoff := b\<rparr>) (next_delay (ml_backoff ml))"

definition emit :: "motion_effect list \<Rightarrow> motion_phase \<Rightarrow> motion_listener \<Rightarrow> motion_listener" where
  "emit fx ph ml = ml\<lparr>ml_phase := ph, ml_log := ml_log ml @ fx\<rparr>"

text \<open>\<open>None\<close>: the event cannot happen here.\<close>

definition motion_step :: "nat \<Rightarrow> motion_event \<Rightarrow> motion_listener \<Rightarrow> motion_listener option" where
  "motion_step hold ev ml = (case ml_phase ml of
     Subscribing \<Rightarrow>
       (case ev of
          Subscribed True \<Rightarrow> Some (ml\<lparr>ml_phase := Listening False None, ml_backoff := backoff_reset (ml_backoff ml)\<rparr>)
        | Subscribed False \<Rightarrow> rest ml
        | Aborted \<Rightarrow> Some (emit [] Stopped ml)
        | _ \<Rightarrow> None)
   | Listening guard release_at \<Rightarrow>
       (case ev of
          NextMotion now (Some MotionStart) \<Rightarrow>
            Some (emit ((if guard then [] else [AcquireGuard]) @ [Reported (Motion True)]) (Listening True None) ml)
        | NextMotion now (Some MotionStop) \<Rightarrow>
            Some (emit [Reported (Motion False)] (Listening guard (if guard then Some (now + hold) else release_at)) ml)
        | NextMotion now (Some NoChange) \<Rightarrow> Some ml
        | NextMotion now None \<Rightarrow> rest (emit (drop_guard guard) (Resting 0) ml)
        | ReleaseTimer now \<Rightarrow>
            (case release_at of
               Some d \<Rightarrow> if d \<le> now then Some (emit (drop_guard guard) (Listening False None) ml) else None
             | None \<Rightarrow> None)
        | Cancelled \<Rightarrow> Some (emit (drop_guard guard) Stopped ml)
        | Aborted \<Rightarrow> Some (emit (drop_guard guard) Stopped ml)
        | _ \<Rightarrow> None)
   | Resting d \<Rightarrow>
       (case ev of
          Slept \<Rightarrow> Some (emit [] Subscribing ml)
        | Cancelled \<Rightarrow> Some (emit [] Stopped ml)
        | Aborted \<Rightarrow> Some (emit [] Stopped ml)
        | _ \<Rightarrow> None)
   | Stopped \<Rightarrow> None)"

text \<open>The last change the camera told in the current subscription, and when it was handled.\<close>

definition track_motion :: "motion_event \<Rightarrow> (bool \<times> nat) option \<Rightarrow> (bool \<times> nat) option" where
  "track_motion ev prev = (case ev of
     NextMotion now (Some MotionStart) \<Rightarrow> Some (True, now)
   | NextMotion now (Some MotionStop) \<Rightarrow> Some (False, now)
   | NextMotion now (Some NoChange) \<Rightarrow> prev
   | ReleaseTimer now \<Rightarrow> prev
   | _ \<Rightarrow> None)"

definition last_motion :: "motion_event list \<Rightarrow> (bool \<times> nat) option" where
  "last_motion es = fold track_motion es None"

definition told :: "motion_event \<Rightarrow> CameraEvent list" where
  "told ev = (case ev of NextMotion _ (Some MotionStart) \<Rightarrow> [Motion True] | NextMotion _ (Some MotionStop) \<Rightarrow> [Motion False] | _ \<Rightarrow> [])"

definition reports_of :: "motion_effect list \<Rightarrow> CameraEvent list" where
  "reports_of fx = List.map_filter (\<lambda>e. case e of Reported ev \<Rightarrow> Some ev | _ \<Rightarrow> None) fx"

definition held :: "motion_listener \<Rightarrow> bool" where
  "held ml \<longleftrightarrow> (case ml_phase ml of Listening g _ \<Rightarrow> g | _ \<Rightarrow> False)"

definition motion_ok :: "nat \<Rightarrow> (bool \<times> nat) option \<Rightarrow> motion_listener \<Rightarrow> bool" where
  "motion_ok hold prev ml \<longleftrightarrow>
     backoff_ok (secs 1) (secs 60) (ml_backoff ml) \<and>
     count_list (ml_log ml) AcquireGuard = count_list (ml_log ml) DropGuard + (if held ml then 1 else 0) \<and>
     (case ml_phase ml of
        Listening g r \<Rightarrow>
          (case prev of
             None \<Rightarrow> \<not> g \<and> r = None
           | Some (True, t) \<Rightarrow> g \<and> r = None
           | Some (False, t) \<Rightarrow> r = (if g then Some (t + hold) else None))
      | _ \<Rightarrow> prev = None)"

lemma rest_some:
  assumes "backoff_ok (secs 1) (secs 60) (ml_backoff ml)"
  shows "\<exists>d b. rest ml = Some (ml\<lparr>ml_phase := Resting d, ml_backoff := b\<rparr>) \<and> backoff_ok (secs 1) (secs 60) b"
proof -
  have "2 * secs 60 \<le> DURATION_MAX" by (simp add: secs_def DURATION_MAX_def NANOS_PER_SEC_def)
  from next_delay_ok [OF assms this] obtain b where "next_delay (ml_backoff ml) = Some (bo_current (ml_backoff ml), b)"
    "backoff_ok (secs 1) (secs 60) b" .
  then show ?thesis by (auto simp: rest_def)
qed

lemma motion_init_ok: "motion_ok hold None motion_init"
  by (simp add: motion_ok_def motion_init_def held_def backoff_ok_new secs_def)

lemmas motion_step_defs = motion_step_def track_motion_def motion_ok_def held_def emit_def drop_guard_def

lemma motion_step_keeps:
  assumes "motion_ok hold prev ml" "motion_step hold ev ml = Some ml'"
  shows "motion_ok hold (track_motion ev prev) ml' \<and> reports_of (ml_log ml') = reports_of (ml_log ml) @ told ev"
proof -
  have rs: "rest m = Some m' \<Longrightarrow> backoff_ok (secs 1) (secs 60) (ml_backoff m) \<Longrightarrow>
      (\<exists>d. ml_phase m' = Resting d) \<and> backoff_ok (secs 1) (secs 60) (ml_backoff m') \<and> ml_log m' = ml_log m" for m m'
    using rest_some [of m] by auto
  have split: "motion_step hold ev ml = Some ml'" by (fact assms(2))
  show ?thesis
  proof (cases "ml_phase ml")
    case Subscribing
    with assms show ?thesis
      by (cases ev) (auto simp: motion_step_defs told_def reports_of_def map_filter_def backoff_ok_reset secs_def
          split: bool.splits dest!: rs)
  next
    case (Listening g r)
    with assms show ?thesis
      by (cases ev) (auto simp: motion_step_defs told_def reports_of_def map_filter_def count_list_append
          split: option.splits MotionStatus.splits if_splits prod.splits bool.splits dest!: rs)
  next
    case (Resting d)
    with assms show ?thesis
      by (cases ev) (auto simp: motion_step_defs told_def reports_of_def map_filter_def)
  next
    case Stopped
    with assms show ?thesis by (simp add: motion_step_def)
  qed
qed

lemma motion_run_ok:
  assumes "run_events (motion_step hold) es ml = Some ml'" "motion_ok hold prev ml"
  shows "motion_ok hold (fold track_motion es prev) ml' \<and>
    reports_of (ml_log ml') = reports_of (ml_log ml) @ concat (map told es)"
  using assms
proof (induction es arbitrary: ml prev)
  case (Cons e es)
  from Cons.prems(1) obtain m where m: "motion_step hold e ml = Some m" "run_events (motion_step hold) es m = Some ml'"
    by (auto split: option.splits)
  from motion_step_keeps [OF Cons.prems(2) m(1)] Cons.IH [OF m(2), of "track_motion e prev"] show ?case by simp
qed simp



section \<open>Battery\<close>

text \<open>The errors of a camera call as far as the tasks tell them apart.\<close>

datatype camera_error = UnintelligibleReply | MissingAbility | AuthFailed | CameraLoginFail | OtherError

type_synonym 'a tick_result = "(camera_error + 'a) option"

datatype BatteryTickOutcome = BatteryOk | Unsupported | Transient

definition BATTERY_MAX_UNSUPPORTED :: u32 where "BATTERY_MAX_UNSUPPORTED = 3"

definition classify_battery_tick :: "'a tick_result \<Rightarrow> BatteryTickOutcome" where
  "classify_battery_tick outcome = (case outcome of
     Some (Inr _) \<Rightarrow> BatteryOk
   | Some (Inl UnintelligibleReply) \<Rightarrow> Unsupported
   | Some (Inl _) \<Rightarrow> Transient
   | None \<Rightarrow> Transient)"

definition advance_battery_counter :: "u32 \<Rightarrow> BatteryTickOutcome \<Rightarrow> u32 \<Rightarrow> u32 \<times> bool" where
  "advance_battery_counter c outcome m = (case outcome of
     BatteryOk \<Rightarrow> (0, False)
   | Transient \<Rightarrow> (0, False)
   | Unsupported \<Rightarrow> (let n = sat_add32 c 1 in (n, m \<le> n)))"

record battery_poller =
  bp_consecutive :: u32
  bp_ever_succeeded :: bool
  bp_unsupported :: bool
  bp_reports :: "CameraEvent list"

definition battery_init :: battery_poller where
  "battery_init = \<lparr>bp_consecutive = 0, bp_ever_succeeded = False, bp_unsupported = False, bp_reports = []\<rparr>"

text \<open>One poll; the second component tells whether the loop goes on.\<close>

definition battery_tick :: "BatteryStatus tick_result \<Rightarrow> battery_poller \<Rightarrow> battery_poller \<times> bool" where
  "battery_tick tick bp =
     (case advance_battery_counter (bp_consecutive bp) (classify_battery_tick tick) BATTERY_MAX_UNSUPPORTED of
        (n, streak_tripped) \<Rightarrow>
          let bp = bp\<lparr>bp_consecutive := n\<rparr>;
              bp = (case tick of
                      Some (Inr status) \<Rightarrow> bp\<lparr>bp_ever_succeeded := True, bp_reports := bp_reports bp @ [BatteryLevel (bat_percent status)]\<rparr>
                    | _ \<Rightarrow> bp)
          in if streak_tripped \<and> \<not> bp_ever_succeeded bp then (bp\<lparr>bp_unsupported := True\<rparr>, False) else (bp, True))"

fun battery_run :: "BatteryStatus tick_result list \<Rightarrow> battery_poller \<Rightarrow> battery_poller" where
  "battery_run [] bp = bp"
| "battery_run (t # ts) bp = (case battery_tick t bp of (bp', True) \<Rightarrow> battery_run ts bp' | (bp', False) \<Rightarrow> bp')"

fun no_battery :: "'a tick_result \<Rightarrow> bool" where
  "no_battery (Some (Inl UnintelligibleReply)) = True"
| "no_battery _ = False"

fun answered :: "'a tick_result \<Rightarrow> bool" where
  "answered (Some (Inr _)) = True"
| "answered _ = False"

lemma sat_add32_small: "unat c < 100 \<Longrightarrow> unat (sat_add32 c 1) = Suc (unat c)"
  by (simp add: unat_sat_add32)

lemma battery_tick_cases:
  assumes "unat (bp_consecutive bp) < 3 \<or> bp_ever_succeeded bp"
  shows "answered t \<Longrightarrow> \<exists>bp'. battery_tick t bp = (bp', True) \<and> bp_ever_succeeded bp' \<and> bp_unsupported bp' = bp_unsupported bp"
    and "\<not> answered t \<Longrightarrow> \<not> no_battery t \<Longrightarrow>
      battery_tick t bp = (bp\<lparr>bp_consecutive := 0\<rparr>, True)"
    and "no_battery t \<Longrightarrow> \<not> bp_ever_succeeded bp \<Longrightarrow>
      battery_tick t bp = (if unat (bp_consecutive bp) = 2 then (bp\<lparr>bp_consecutive := 3, bp_unsupported := True\<rparr>, False)
        else (bp\<lparr>bp_consecutive := bp_consecutive bp + 1\<rparr>, True))"
    and "bp_ever_succeeded bp \<Longrightarrow> \<exists>bp'. battery_tick t bp = (bp', True) \<and> bp_ever_succeeded bp' \<and> bp_unsupported bp' = bp_unsupported bp"
proof -
  show "answered t \<Longrightarrow> \<exists>bp'. battery_tick t bp = (bp', True) \<and> bp_ever_succeeded bp' \<and> bp_unsupported bp' = bp_unsupported bp"
    by (cases t rule: answered.cases) (auto simp: battery_tick_def classify_battery_tick_def advance_battery_counter_def Let_def)
  show "\<not> answered t \<Longrightarrow> \<not> no_battery t \<Longrightarrow> battery_tick t bp = (bp\<lparr>bp_consecutive := 0\<rparr>, True)"
    by (cases t rule: no_battery.cases)
      (auto simp: battery_tick_def classify_battery_tick_def advance_battery_counter_def Let_def)
  show "bp_ever_succeeded bp \<Longrightarrow> \<exists>bp'. battery_tick t bp = (bp', True) \<and> bp_ever_succeeded bp' \<and> bp_unsupported bp' = bp_unsupported bp"
    by (auto simp: battery_tick_def Let_def split: prod.splits option.splits sum.splits)
  assume t: "no_battery t" and ever: "\<not> bp_ever_succeeded bp"
  then have c: "unat (bp_consecutive bp) < 3" using assms by simp
  then have u: "unat (bp_consecutive bp + 1) = Suc (unat (bp_consecutive bp))" "sat_add32 (bp_consecutive bp) 1 = bp_consecutive bp + 1"
    by (simp_all add: sat_add32_def unat_word_ariths)
  have "3 \<le> bp_consecutive bp + 1 \<longleftrightarrow> unat (bp_consecutive bp) = 2" using c u(1) by (auto simp: word_le_nat_alt)
  moreover have "bp_consecutive bp + 1 = 3" if "unat (bp_consecutive bp) = 2"
    using that u(1) by (simp add: word_unat_eq_iff)
  ultimately show "battery_tick t bp = (if unat (bp_consecutive bp) = 2 then (bp\<lparr>bp_consecutive := 3, bp_unsupported := True\<rparr>, False)
        else (bp\<lparr>bp_consecutive := bp_consecutive bp + 1\<rparr>, True))"
    using t ever u by (cases t rule: no_battery.cases)
      (auto simp: battery_tick_def classify_battery_tick_def advance_battery_counter_def BATTERY_MAX_UNSUPPORTED_def Let_def)
qed

fun level_of :: "BatteryStatus tick_result \<Rightarrow> CameraEvent list" where
  "level_of (Some (Inr status)) = [BatteryLevel (bat_percent status)]"
| "level_of _ = []"

lemma battery_tick_reports: "bp_reports (fst (battery_tick t bp)) = bp_reports bp @ level_of t"
  by (cases t rule: level_of.cases) (simp_all add: battery_tick_def Let_def split: prod.splits)

lemma battery_run_succeeded:
  "bp_ever_succeeded bp \<Longrightarrow> bp_unsupported (battery_run ts bp) = bp_unsupported bp \<and>
     bp_reports (battery_run ts bp) = bp_reports bp @ concat (map level_of ts)"
proof (induction ts arbitrary: bp)
  case (Cons t ts)
  obtain bp' where "battery_tick t bp = (bp', True)" "bp_ever_succeeded bp'" "bp_unsupported bp' = bp_unsupported bp"
    using battery_tick_cases(4) [of bp t] Cons.prems by auto
  with Cons.IH [of bp'] battery_tick_reports [of t bp] show ?case by simp
qed simp

lemma battery_run_latch:
  "\<not> bp_ever_succeeded bp \<Longrightarrow> \<not> bp_unsupported bp \<Longrightarrow> unat (bp_consecutive bp) < 3 \<Longrightarrow>
    let latched = streak no_battery 3 (unat (bp_consecutive bp)) (takeWhile (\<lambda>t. \<not> answered t) ts)
    in bp_unsupported (battery_run ts bp) = latched \<and>
       bp_reports (battery_run ts bp) = bp_reports bp @ (if latched then [] else concat (map level_of ts))"
proof (induction ts arbitrary: bp)
  case (Cons t ts)
  have level: "\<not> answered t \<Longrightarrow> level_of t = []" by (cases t rule: level_of.cases) auto
  consider (ans) "answered t" | (refused) "no_battery t" "\<not> answered t" | (other) "\<not> no_battery t" "\<not> answered t"
    by (cases "answered t"; cases "no_battery t") auto
  then show ?case
  proof cases
    case ans
    then obtain bp' where "battery_tick t bp = (bp', True)" "bp_ever_succeeded bp'" "bp_unsupported bp' = bp_unsupported bp"
      using battery_tick_cases(1) [of bp t] Cons.prems by auto
    with ans Cons.prems battery_run_succeeded [of bp' ts] battery_tick_reports [of t bp] show ?thesis by (simp add: Let_def)
  next
    case refused
    show ?thesis
    proof (cases "unat (bp_consecutive bp) = 2")
      case True
      with refused Cons.prems battery_tick_cases(3) [of bp t] show ?thesis by (simp add: Let_def)
    next
      case False
      let ?bp = "bp\<lparr>bp_consecutive := bp_consecutive bp + 1\<rparr>"
      have "unat (bp_consecutive bp + 1) = Suc (unat (bp_consecutive bp))" using Cons.prems by (simp add: unat_word_ariths)
      then show ?thesis
        using Cons.IH [of ?bp] False refused Cons.prems battery_tick_cases(3) [of bp t] level by (auto simp: Let_def)
    qed
  next
    case other
    with Cons.IH [of "bp\<lparr>bp_consecutive := 0\<rparr>"] Cons.prems battery_tick_cases(2) [of bp t] level show ?thesis
      by (simp add: Let_def)
  qed
qed simp


section \<open>Pollers and listeners\<close>

datatype PreviewState = PLive | PConnecting | PSleeping

text \<open>
  One tick of the preview poller: the snapshot is asked for only of a connected camera and kept when it comes;
  then what is kept is published with the caption of the state. The image library is the parameter \<open>rendered\<close>.
\<close>

definition preview_tick ::
  "(bytes \<Rightarrow> bool \<Rightarrow> PreviewState \<Rightarrow> bytes) \<Rightarrow> bool \<Rightarrow> PreviewState \<Rightarrow> bytes tick_result option \<Rightarrow> bytes option \<Rightarrow>
   bytes option \<times> CameraEvent list" where
  "preview_tick rendered overlay st stills jpeg =
     (let jpeg = (case stills of Some (Some (Inr b)) \<Rightarrow> Some b | _ \<Rightarrow> jpeg)
      in (jpeg, case jpeg of Some b \<Rightarrow> [Preview (rendered b overlay st)] | None \<Rightarrow> []))"

definition connected_stills :: "bool \<Rightarrow> 'd option \<Rightarrow> 'd option" where
  "connected_stills is_connected camera = (if is_connected then camera else None)"

definition floodlight_tick :: "bool tick_result \<Rightarrow> CameraEvent list" where
  "floodlight_tick tick = (case tick of Some (Inr enabled) \<Rightarrow> [EvFloodlightTasks enabled] | _ \<Rightarrow> [])"

text \<open>The listener gets lists of lamp states until the channel closes; a camera without floodlight ends it at once.\<close>

definition floodlight_listener :: "(camera_error + u8 list list) \<Rightarrow> CameraEvent list" where
  "floodlight_listener subscription = (case subscription of
     Inl _ \<Rightarrow> [] | Inr updates \<Rightarrow> concat (map (map (\<lambda>status. EvFloodlight (status \<noteq> 0))) updates))"

definition publish_pir_state :: "u8 tick_result \<Rightarrow> CameraEvent list" where
  "publish_pir_state tick = (case tick of Some (Inr v) \<Rightarrow> [EvPir (v = 1)] | _ \<Rightarrow> [])"

section \<open>Keepalive and the preview state\<close>

datatype KeepaliveTickOutcome = KaOk | KaFailed

definition KEEPALIVE_MAX_FAILURES :: u32 where "KEEPALIVE_MAX_FAILURES = 5"

definition keepalive_probe :: "camera_error + 'a \<Rightarrow> camera_error + unit" where
  "keepalive_probe linktype = (case linktype of Inr _ \<Rightarrow> Ok () | Inl UnintelligibleReply \<Rightarrow> Ok () | Inl e \<Rightarrow> Err e)"

definition classify_keepalive_tick :: "'a tick_result \<Rightarrow> KeepaliveTickOutcome" where
  "classify_keepalive_tick outcome = (case outcome of Some (Inr _) \<Rightarrow> KaOk | Some (Inl _) \<Rightarrow> KaFailed | None \<Rightarrow> KaFailed)"

definition advance_keepalive_counter :: "u32 \<Rightarrow> KeepaliveTickOutcome \<Rightarrow> u32 \<Rightarrow> u32 \<times> bool" where
  "advance_keepalive_counter c outcome m = (case outcome of
     KaOk \<Rightarrow> (0, False) | KaFailed \<Rightarrow> (let n = sat_add32 c 1 in (n, m \<le> n)))"

text \<open>The probes of a session: how many are made, and whether the loop gave the connection up.\<close>

fun keepalive_probes :: "unit tick_result list \<Rightarrow> u32 \<Rightarrow> nat \<times> bool" where
  "keepalive_probes [] c = (0, False)"
| "keepalive_probes (t # ts) c =
     (case advance_keepalive_counter c (classify_keepalive_tick t) KEEPALIVE_MAX_FAILURES of
        (n, True) \<Rightarrow> (1, True)
      | (n, False) \<Rightarrow> (case keepalive_probes ts n of (k, b) \<Rightarrow> (Suc k, b)))"

fun no_reply :: "'a tick_result \<Rightarrow> bool" where
  "no_reply (Some (Inr _)) = False"
| "no_reply _ = True"

lemma keepalive_streak:
  "unat c < 5 \<Longrightarrow> snd (keepalive_probes ts c) = streak no_reply 5 (unat c) ts"
proof (induction ts arbitrary: c)
  case (Cons t ts)
  have u: "unat (sat_add32 c 1) = Suc (unat c)" using Cons.prems by (simp add: sat_add32_small)
  then have m: "5 \<le> sat_add32 c 1 \<longleftrightarrow> 5 \<le> Suc (unat c)" by (simp add: word_le_nat_alt)
  show ?case
  proof (cases "no_reply t")
    case True
    then have "classify_keepalive_tick t = KaFailed" by (cases t rule: no_reply.cases) (auto simp: classify_keepalive_tick_def)
    then show ?thesis using True m u Cons.prems Cons.IH [of "sat_add32 c 1"]
      by (auto simp: advance_keepalive_counter_def KEEPALIVE_MAX_FAILURES_def Let_def split: prod.splits)
  next
    case False
    then have "classify_keepalive_tick t = KaOk" by (cases t rule: no_reply.cases) (auto simp: classify_keepalive_tick_def)
    then show ?thesis using False Cons.IH [of 0] by (auto simp: advance_keepalive_counter_def split: prod.splits)
  qed
qed simp


definition aggregate_preview_state :: "PreviewState \<Rightarrow> bool \<Rightarrow> PreviewState option \<Rightarrow> PreviewState" where
  "aggregate_preview_state current any_bridging last_own_write = (case current of
     PSleeping \<Rightarrow> PSleeping
   | PLive \<Rightarrow> if any_bridging then PConnecting else PLive
   | PConnecting \<Rightarrow> if \<not> any_bridging \<and> last_own_write = Some PConnecting then PLive else PConnecting)"

definition post_keepalive_preview_state :: "bool \<Rightarrow> bool \<Rightarrow> PreviewState" where
  "post_keepalive_preview_state idle wake_lock_idle =
     (if idle \<and> wake_lock_idle then PSleeping else PConnecting)"

text \<open>One tick of the aggregator: what the state becomes and what it remembers of its own writes.\<close>

definition aggregate_tick :: "bool \<Rightarrow> PreviewState \<times> PreviewState option \<Rightarrow> PreviewState \<times> PreviewState option" where
  "aggregate_tick any_bridging = (\<lambda>(current, last_write).
     let next = aggregate_preview_state current any_bridging last_write
     in if next \<noteq> current then (next, Some next)
        else if current = PSleeping \<or> current = PConnecting \<and> last_write \<noteq> Some PConnecting then (next, None)
        else (next, last_write))"

lemma aggregate_ticks:
  "bs \<noteq> [] \<Longrightarrow> fst (fold aggregate_tick bs (PLive, None)) = (if last bs then PConnecting else PLive)"
proof -
  have "fold aggregate_tick bs (PLive, w) \<in> (if bs = [] then {(PLive, w)} else if last bs then {(PConnecting, Some PConnecting)} else {PLive} \<times> UNIV)"
    for w
  proof (induction bs arbitrary: w rule: rev_induct)
    case (snoc b bs)
    from snoc.IH [of w] show ?case
      by (cases "bs = []"; cases "last bs"; cases b) (auto simp: aggregate_tick_def aggregate_preview_state_def Let_def)
  qed simp
  then show "bs \<noteq> [] \<Longrightarrow> ?thesis" by (metis SigmaE fst_conv singletonD)
qed

end
