(* ===== verification/Camera_Handle.thy ===== *)
theory Camera_Handle
  imports Camera_Tasks Rtsp_Server
begin

text \<open>
  The life of a camera (\<open>src/camera.rs\<close>): the connection loop with its sessions and their teardown, the
  registry of stream sources that the RTSP server asks for, the pruning of idle sources and the requests of the
  watchdog, under every interleaving of the connection loop with any number of callers of \<open>stream_source\<close>.
  Every lock of the code is held for one step. What connecting, probing and waiting bring is the event.
\<close>

section \<open>State\<close>

datatype CameraState = Disconnected | Connecting | Connected

text \<open>A stream source, of a kind and fed by a session; \<open>src_idle_since\<close> is when it was first seen without subscribers.\<close>

record source =
  src_id :: nat
  src_kind :: StreamKind
  src_session :: nat
  src_idle_since :: "nat option"

abbreviation tag :: "source \<Rightarrow> StreamKind \<times> nat" where "tag s \<equiv> (src_kind s, src_id s)"

text \<open>
  Where a call of \<open>stream_source\<close> is: polling for the connection until a deadline, at the fast path, waiting for
  the creation lock, at the three checks under it, with a started source that is not yet registered, or back.
\<close>

datatype setup_phase =
    Polling nat
  | FastPath
  | AwaitLock
  | Recheck
  | StateCheck
  | ReadCamera
  | Inserting source
  | SetupDone "StreamError + source"

record setup_call =
  sc_kind :: StreamKind
  sc_phase :: setup_phase

text \<open>Where the connection loop is.\<close>

datatype run_phase =
    LoopTop
  | Parked
  | Dialling
  | Announce
  | Probe
  | Spawn
  | Keepalive u32
  | SessionOver
  | DrainTasks
  | StopSources "source list"
  | Logout
  | ClearState
  | Backoff nat
  | Finish
  | FinalStop "source list"
  | RunReturned

record camera_handle =
  ch_state :: CameraState
  ch_camera :: "nat option"
  ch_sources :: "StreamKind \<rightharpoonup> source"
  ch_create_lock :: "nat option"
  ch_calls :: "nat \<rightharpoonup> setup_call"
  ch_preview :: PreviewState
  ch_capabilities :: "bool option"
  ch_presets :: "(nat \<times> string) list"
  ch_phase :: run_phase
  ch_backoff :: ReconnectBackoff
  ch_cancelled :: bool
  ch_disconnect :: bool
  ch_reports :: "CameraEvent list"
  ch_sessions :: nat
  ch_started :: nat
  ch_live :: "(StreamKind \<times> nat) set"
  ch_late :: bool

text \<open>
  \<open>ch_sessions\<close> numbers the sessions, \<open>ch_started\<close> the sources; \<open>ch_live\<close> are the sources that were started
  and not yet stopped, and \<open>ch_late\<close> tells that a source was registered while its session was being torn down.
\<close>

definition handle_init :: camera_handle where
  "handle_init = \<lparr>ch_state = Disconnected, ch_camera = None, ch_sources = Map.empty, ch_create_lock = None,
     ch_calls = Map.empty, ch_preview = PSleeping, ch_capabilities = None, ch_presets = [], ch_phase = LoopTop,
     ch_backoff = backoff_new (secs 2) (secs 60), ch_cancelled = False, ch_disconnect = False,
     ch_reports = [Connection False, MotionUnknown], ch_sessions = 0, ch_started = 0, ch_live = {}, ch_late = False\<rparr>"

section \<open>Asking for a stream source\<close>

definition set_phase :: "nat \<Rightarrow> setup_call \<Rightarrow> setup_phase \<Rightarrow> camera_handle \<Rightarrow> camera_handle" where
  "set_phase i c ph h = h\<lparr>ch_calls := (ch_calls h)(i \<mapsto> c\<lparr>sc_phase := ph\<rparr>)\<rparr>"

definition setup_done :: "nat \<Rightarrow> setup_call \<Rightarrow> StreamError + source \<Rightarrow> camera_handle \<Rightarrow> camera_handle" where
  "setup_done i c r h = (set_phase i c (SetupDone r) h)\<lparr>ch_create_lock := None\<rparr>"

definition MAX_WAIT :: nat where "MAX_WAIT = secs 30"

fun in_session :: "run_phase \<Rightarrow> bool" where
  "in_session Announce = True"
| "in_session Probe = True"
| "in_session Spawn = True"
| "in_session (Keepalive _) = True"
| "in_session SessionOver = True"
| "in_session DrainTasks = True"
| "in_session _ = False"

definition setup_step :: "nat \<Rightarrow> nat \<Rightarrow> camera_handle \<Rightarrow> camera_handle option" where
  "setup_step i now h = (case ch_calls h i of
     None \<Rightarrow> None
   | Some c \<Rightarrow>
       (case sc_phase c of
          Polling deadline \<Rightarrow>
            Some (if ch_cancelled h then set_phase i c (SetupDone (Err (Unavailable ''camera task shutting down''))) h
              else if ch_state h = Connected then set_phase i c FastPath h
              else if deadline \<le> now then set_phase i c (SetupDone (Err (Unavailable ''did not reach Connected state''))) h
              else h)
        | FastPath \<Rightarrow>
            Some (case ch_sources h (sc_kind c) of
               Some s \<Rightarrow> set_phase i c (SetupDone (Ok s)) h | None \<Rightarrow> set_phase i c AwaitLock h)
        | AwaitLock \<Rightarrow>
            (case ch_create_lock h of
               None \<Rightarrow> Some ((set_phase i c Recheck h)\<lparr>ch_create_lock := Some i\<rparr>) | Some _ \<Rightarrow> None)
        | Recheck \<Rightarrow>
            Some (case ch_sources h (sc_kind c) of
               Some s \<Rightarrow> setup_done i c (Ok s) h | None \<Rightarrow> set_phase i c StateCheck h)
        | StateCheck \<Rightarrow>
            Some (if ch_cancelled h \<or> ch_state h \<noteq> Connected
              then setup_done i c (Err (Unavailable ''no longer in Connected state'')) h
              else set_phase i c ReadCamera h)
        | ReadCamera \<Rightarrow>
            Some (case ch_camera h of
               None \<Rightarrow> setup_done i c (Err (Unavailable ''not currently connected'')) h
             | Some n \<Rightarrow>
                 (let s = \<lparr>src_id = ch_started h, src_kind = sc_kind c, src_session = n, src_idle_since = None\<rparr>
                  in (set_phase i c (Inserting s) h)\<lparr>ch_started := ch_started h + 1, ch_live := insert (tag s) (ch_live h)\<rparr>))
        | Inserting s \<Rightarrow>
            Some ((setup_done i c (Ok s) h)\<lparr>ch_sources := (ch_sources h)(sc_kind c \<mapsto> s),
              ch_late := (ch_late h \<or> \<not> in_session (ch_phase h) \<or> src_session s \<noteq> ch_sessions h)\<rparr>)
        | SetupDone _ \<Rightarrow> None))"

section \<open>Pruning\<close>

text \<open>\<open>None\<close>: the source is stopped and leaves the registry.\<close>

definition prune_source :: "nat \<Rightarrow> nat \<Rightarrow> nat \<Rightarrow> source \<Rightarrow> source option" where
  "prune_source now grace subs s =
     (if 0 < subs then Some (s\<lparr>src_idle_since := None\<rparr>)
      else (case src_idle_since s of
              None \<Rightarrow> if grace = 0 then None else Some (s\<lparr>src_idle_since := Some now\<rparr>)
            | Some since \<Rightarrow> if grace \<le> now - since then None else Some s))"

definition kinds :: "StreamKind list" where "kinds = [Main, Sub, Extern]"

definition prune_idle_stream_sources_at :: "nat \<Rightarrow> nat \<Rightarrow> (StreamKind \<Rightarrow> nat) \<Rightarrow> camera_handle \<Rightarrow> camera_handle" where
  "prune_idle_stream_sources_at now grace subs h =
     (let pruned = (\<lambda>k. Option.bind (ch_sources h k) (prune_source now grace (subs k)));
          gone = List.map_filter (\<lambda>k. if pruned k = None then map_option tag (ch_sources h k) else None) kinds
      in h\<lparr>ch_sources := pruned, ch_live := ch_live h - set gone\<rparr>)"

section \<open>The connection loop\<close>

datatype connect_result = ConnectOk | ConnectAuth | ConnectOther

datatype run_event =
    Go bool
  | Woken
  | SawCancel
  | Connect connect_result
  | Published
  | Probed "camera_error + bool" "camera_error + PresetSlot list"
  | Spawned
  | ProbeTick "unit tick_result"
  | SessionCancelled
  | SawDisconnect
  | CheckIdle bool
  | TasksDrained "StreamKind list"
  | SourceStopped
  | LoggedOut
  | Cleared
  | RestDone

definition begin_connect :: "camera_handle \<Rightarrow> camera_handle" where
  "begin_connect h = h\<lparr>ch_state := Connecting, ch_preview := PConnecting, ch_phase := Dialling\<rparr>"

definition back_off :: "camera_handle \<Rightarrow> camera_handle option" where
  "back_off h = map_option (\<lambda>(d, b). h\<lparr>ch_phase := Backoff d, ch_backoff := b\<rparr>) (next_delay (ch_backoff h))"

definition finish :: "camera_handle \<Rightarrow> camera_handle option" where
  "finish h = (if ch_cancelled h then Some (h\<lparr>ch_phase := Finish\<rparr>) else None)"

text \<open>The registry is emptied at once, in an order of the hash map; the sources are stopped one after the other.\<close>

definition drain_sources :: "StreamKind list \<Rightarrow> (source list \<Rightarrow> run_phase) \<Rightarrow> camera_handle \<Rightarrow> camera_handle option" where
  "drain_sources ks ph h = (if distinct ks \<and> set ks = set kinds
     then Some (h\<lparr>ch_sources := Map.empty, ch_phase := ph (List.map_filter (ch_sources h) ks)\<rparr>) else None)"

definition stop_source :: "source \<Rightarrow> run_phase \<Rightarrow> camera_handle \<Rightarrow> camera_handle" where
  "stop_source s ph h = h\<lparr>ch_live := ch_live h - {tag s}, ch_phase := ph\<rparr>"

definition probe_camera :: "camera_error + bool \<Rightarrow> camera_error + PresetSlot list \<Rightarrow> camera_handle \<Rightarrow> camera_handle" where
  "probe_camera caps slots h = (case caps of
     Inl _ \<Rightarrow> h
   | Inr has_ptz \<Rightarrow>
       h\<lparr>ch_capabilities := Some has_ptz,
         ch_presets := (if has_ptz then (case slots of
             Inr ss \<Rightarrow> List.map_filter (\<lambda>s. map_option (Pair (slot_id s)) (slot_name s)) ss
           | Inl _ \<Rightarrow> ch_presets h) else ch_presets h)\<rparr>)"

text \<open>What the loop does at each point, for every event that can happen there.\<close>

definition at_loop_top :: "CameraConfig \<Rightarrow> run_event \<Rightarrow> camera_handle \<Rightarrow> camera_handle option" where
  "at_loop_top cfg ev h = (case ev of
     Go idle \<Rightarrow>
       if ch_cancelled h then Some (h\<lparr>ch_phase := Finish\<rparr>)
       else if idle_disconnect cfg \<and> idle then Some (h\<lparr>ch_preview := PSleeping, ch_phase := Parked\<rparr>)
       else Some (begin_connect h)
   | _ \<Rightarrow> None)"

definition at_parked :: "run_event \<Rightarrow> camera_handle \<Rightarrow> camera_handle option" where
  "at_parked ev h = (case ev of Woken \<Rightarrow> Some (begin_connect h) | SawCancel \<Rightarrow> finish h | _ \<Rightarrow> None)"

definition at_dialling :: "run_event \<Rightarrow> camera_handle \<Rightarrow> camera_handle option" where
  "at_dialling ev h = (case ev of
     SawCancel \<Rightarrow> finish h
   | Connect r \<Rightarrow>
       (case r of
          ConnectOk \<Rightarrow>
            Some (h\<lparr>ch_backoff := backoff_reset (ch_backoff h), ch_sessions := ch_sessions h + 1, ch_state := Connected,
              ch_preview := PLive, ch_phase := Announce\<rparr>)
        | ConnectAuth \<Rightarrow> Some (h\<lparr>ch_state := Disconnected, ch_phase := Finish\<rparr>)
        | ConnectOther \<Rightarrow> back_off (h\<lparr>ch_state := Disconnected\<rparr>))
   | _ \<Rightarrow> None)"

definition at_connected :: "run_event \<Rightarrow> camera_handle \<Rightarrow> camera_handle option" where
  "at_connected ev h = (case ev of
     Published \<Rightarrow>
       if ch_phase h = Announce
       then Some (h\<lparr>ch_reports := ch_reports h @ [Connection True], ch_camera := Some (ch_sessions h), ch_phase := Probe\<rparr>)
       else None
   | Probed caps slots \<Rightarrow> if ch_phase h = Probe then Some ((probe_camera caps slots h)\<lparr>ch_phase := Spawn\<rparr>) else None
   | Spawned \<Rightarrow> if ch_phase h = Spawn then Some (h\<lparr>ch_phase := Keepalive 0\<rparr>) else None
   | _ \<Rightarrow> None)"

definition at_keepalive :: "u32 \<Rightarrow> run_event \<Rightarrow> camera_handle \<Rightarrow> camera_handle option" where
  "at_keepalive c ev h = (case ev of
     ProbeTick t \<Rightarrow>
       (case advance_keepalive_counter c (classify_keepalive_tick t) KEEPALIVE_MAX_FAILURES of
          (n, brk) \<Rightarrow> Some (h\<lparr>ch_phase := (if brk then SessionOver else Keepalive n)\<rparr>))
   | SawCancel \<Rightarrow> if ch_cancelled h then Some (h\<lparr>ch_phase := SessionOver\<rparr>) else None
   | SessionCancelled \<Rightarrow> Some (h\<lparr>ch_phase := SessionOver\<rparr>)
   | SawDisconnect \<Rightarrow> if ch_disconnect h then Some (h\<lparr>ch_disconnect := False, ch_phase := SessionOver\<rparr>) else None
   | _ \<Rightarrow> None)"

definition at_session_over :: "CameraConfig \<Rightarrow> run_event \<Rightarrow> camera_handle \<Rightarrow> camera_handle option" where
  "at_session_over cfg ev h = (case ev of
     CheckIdle idle \<Rightarrow>
       Some (h\<lparr>ch_preview := post_keepalive_preview_state (idle_disconnect cfg) idle, ch_phase := DrainTasks\<rparr>)
   | _ \<Rightarrow> None)"

definition at_stop_sources :: "(source list \<Rightarrow> run_phase) \<Rightarrow> run_phase \<Rightarrow> source list \<Rightarrow> run_event \<Rightarrow> camera_handle \<Rightarrow> camera_handle option" where
  "at_stop_sources ph next_phase ss ev h = (case ev of
     SourceStopped \<Rightarrow>
       Some (case ss of s # ss' \<Rightarrow> stop_source s (ph ss') h | [] \<Rightarrow> h\<lparr>ch_phase := next_phase\<rparr>)
   | _ \<Rightarrow> None)"

definition at_teardown :: "run_event \<Rightarrow> camera_handle \<Rightarrow> camera_handle option" where
  "at_teardown ev h = (case ev of
     TasksDrained ks \<Rightarrow> if ch_phase h = DrainTasks then drain_sources ks StopSources h else None
   | LoggedOut \<Rightarrow> if ch_phase h = Logout then Some (h\<lparr>ch_camera := None, ch_phase := ClearState\<rparr>) else None
   | Cleared \<Rightarrow>
       if ch_phase h = ClearState
       then back_off (h\<lparr>ch_state := Disconnected, ch_reports := ch_reports h @ [Connection False]\<rparr>) else None
   | _ \<Rightarrow> None)"

definition at_backoff :: "run_event \<Rightarrow> camera_handle \<Rightarrow> camera_handle option" where
  "at_backoff ev h = (case ev of RestDone \<Rightarrow> Some (h\<lparr>ch_phase := LoopTop\<rparr>) | SawCancel \<Rightarrow> finish h | _ \<Rightarrow> None)"

definition at_finish :: "run_event \<Rightarrow> camera_handle \<Rightarrow> camera_handle option" where
  "at_finish ev h = (case ev of TasksDrained ks \<Rightarrow> drain_sources ks FinalStop (h\<lparr>ch_state := Disconnected\<rparr>) | _ \<Rightarrow> None)"

definition run_step :: "CameraConfig \<Rightarrow> run_event \<Rightarrow> camera_handle \<Rightarrow> camera_handle option" where
  "run_step cfg ev h = (case ch_phase h of
     LoopTop \<Rightarrow> at_loop_top cfg ev h
   | Parked \<Rightarrow> at_parked ev h
   | Dialling \<Rightarrow> at_dialling ev h
   | Announce \<Rightarrow> at_connected ev h
   | Probe \<Rightarrow> at_connected ev h
   | Spawn \<Rightarrow> at_connected ev h
   | Keepalive c \<Rightarrow> at_keepalive c ev h
   | SessionOver \<Rightarrow> at_session_over cfg ev h
   | DrainTasks \<Rightarrow> at_teardown ev h
   | StopSources ss \<Rightarrow> at_stop_sources StopSources Logout ss ev h
   | Logout \<Rightarrow> at_teardown ev h
   | ClearState \<Rightarrow> at_teardown ev h
   | Backoff d \<Rightarrow> at_backoff ev h
   | Finish \<Rightarrow> at_finish ev h
   | FinalStop ss \<Rightarrow> at_stop_sources FinalStop RunReturned ss ev h
   | RunReturned \<Rightarrow> None)"

lemmas run_step_defs = run_step_def at_loop_top_def at_parked_def at_dialling_def at_connected_def at_keepalive_def
  at_session_over_def at_stop_sources_def at_teardown_def at_backoff_def at_finish_def

section \<open>All together\<close>

datatype handle_event =
    Run run_event
  | Ask nat StreamKind nat
  | Setup nat nat
  | Abandon nat
  | Sweep nat nat "StreamKind \<Rightarrow> nat"
  | RequestDisconnect
  | Cancel

text \<open>A call may be abandoned where it waits: while it polls and before it has the lock.\<close>

definition handle_step :: "CameraConfig \<Rightarrow> handle_event \<Rightarrow> camera_handle \<Rightarrow> camera_handle option" where
  "handle_step cfg ev h = (case ev of
     Run e \<Rightarrow> run_step cfg e h
   | Ask i k now \<Rightarrow> (case ch_calls h i of
       None \<Rightarrow> Some (h\<lparr>ch_calls := (ch_calls h)(i \<mapsto> \<lparr>sc_kind = k, sc_phase = Polling (now + MAX_WAIT)\<rparr>)\<rparr>) | Some _ \<Rightarrow> None)
   | Setup i now \<Rightarrow> setup_step i now h
   | Abandon i \<Rightarrow> (case ch_calls h i of
       Some c \<Rightarrow> (case sc_phase c of
           Polling _ \<Rightarrow> Some (h\<lparr>ch_calls := (ch_calls h)(i := None)\<rparr>)
         | AwaitLock \<Rightarrow> Some (h\<lparr>ch_calls := (ch_calls h)(i := None)\<rparr>)
         | _ \<Rightarrow> None)
     | None \<Rightarrow> None)
   | Sweep now grace subs \<Rightarrow> Some (prune_idle_stream_sources_at now grace subs h)
   | RequestDisconnect \<Rightarrow> Some (h\<lparr>ch_disconnect := True\<rparr>)
   | Cancel \<Rightarrow> Some (h\<lparr>ch_cancelled := True\<rparr>))"

definition handle_run :: "CameraConfig \<Rightarrow> handle_event list \<Rightarrow> camera_handle \<Rightarrow> camera_handle option" where
  "handle_run cfg = run_events (handle_step cfg)"

section \<open>The invariant\<close>

fun has_lock :: "setup_phase \<Rightarrow> bool" where
  "has_lock Recheck = True"
| "has_lock StateCheck = True"
| "has_lock ReadCamera = True"
| "has_lock (Inserting _) = True"
| "has_lock _ = False"

text \<open>Past the second look into the registry: nothing of the kind is registered until the call is back.\<close>

fun committed :: "setup_phase \<Rightarrow> bool" where
  "committed StateCheck = True"
| "committed ReadCamera = True"
| "committed (Inserting _) = True"
| "committed _ = False"

fun stopping :: "run_phase \<Rightarrow> source list" where
  "stopping (StopSources ss) = ss"
| "stopping (FinalStop ss) = ss"
| "stopping _ = []"

definition inserting :: "(nat \<rightharpoonup> setup_call) \<Rightarrow> source set" where
  "inserting calls = {s. \<exists>i c. calls i = Some c \<and> sc_phase c = Inserting s}"

definition calls_ok :: "nat option \<Rightarrow> (nat \<rightharpoonup> setup_call) \<Rightarrow> bool" where
  "calls_ok lock calls \<longleftrightarrow>
     (\<forall>i c. calls i = Some c \<longrightarrow> (has_lock (sc_phase c) \<longleftrightarrow> lock = Some i)) \<and> (\<forall>i. lock = Some i \<longrightarrow> calls i \<noteq> None)"

definition registry_ok ::
  "(nat \<rightharpoonup> setup_call) \<Rightarrow> (StreamKind \<rightharpoonup> source) \<Rightarrow> (StreamKind \<times> nat) set \<Rightarrow> source list \<Rightarrow> nat \<Rightarrow> bool" where
  "registry_ok calls srcs live stop started \<longleftrightarrow>
     (\<forall>k s. srcs k = Some s \<longrightarrow> src_kind s = k \<and> (k, src_id s) \<in> live) \<and>
     (\<forall>i c. calls i = Some c \<and> committed (sc_phase c) \<longrightarrow> srcs (sc_kind c) = None) \<and>
     (\<forall>i c s. calls i = Some c \<and> sc_phase c = Inserting s \<longrightarrow> src_kind s = sc_kind c \<and> (sc_kind c, src_id s) \<in> live) \<and>
     (\<forall>t\<in>live. \<exists>s\<in>ran srcs \<union> set stop \<union> inserting calls. tag s = t) \<and>
     (\<forall>s\<in>ran srcs \<union> set stop \<union> inserting calls. src_id s < started) \<and>
     (\<forall>s\<in>set stop. \<forall>s'\<in>ran srcs \<union> inserting calls. src_id s' \<noteq> src_id s) \<and>
     (\<forall>s\<in>inserting calls. \<forall>s'\<in>ran srcs. src_id s' \<noteq> src_id s)"

lemma registryD:
  assumes "registry_ok calls srcs live stop started"
  shows "srcs k = Some s \<Longrightarrow> src_kind s = k" "srcs k = Some s \<Longrightarrow> (k, src_id s) \<in> live"
    "calls i = Some c \<Longrightarrow> committed (sc_phase c) \<Longrightarrow> srcs (sc_kind c) = None"
    "calls i = Some c \<Longrightarrow> sc_phase c = Inserting s \<Longrightarrow> src_kind s = sc_kind c"
    "calls i = Some c \<Longrightarrow> sc_phase c = Inserting s \<Longrightarrow> (sc_kind c, src_id s) \<in> live"
    "t \<in> live \<Longrightarrow> \<exists>s\<in>ran srcs \<union> set stop \<union> inserting calls. tag s = t"
    "s \<in> ran srcs \<or> s \<in> set stop \<or> s \<in> inserting calls \<Longrightarrow> src_id s < started"
    "s \<in> set stop \<Longrightarrow> s' \<in> ran srcs \<or> s' \<in> inserting calls \<Longrightarrow> src_id s' \<noteq> src_id s"
    "s \<in> inserting calls \<Longrightarrow> s' \<in> ran srcs \<Longrightarrow> src_id s' \<noteq> src_id s"
  using assms unfolding registry_ok_def by blast+

text \<open>What the phase of the loop says about the state, the camera slot and the reports.\<close>

fun phase_view :: "run_phase \<Rightarrow> CameraState set \<times> bool \<times> bool" where
  "phase_view LoopTop = ({Disconnected}, False, False)"
| "phase_view Parked = ({Disconnected}, False, False)"
| "phase_view Dialling = ({Connecting}, False, False)"
| "phase_view Announce = ({Connected}, False, False)"
| "phase_view Probe = ({Connected}, True, True)"
| "phase_view Spawn = ({Connected}, True, True)"
| "phase_view (Keepalive _) = ({Connected}, True, True)"
| "phase_view SessionOver = ({Connected}, True, True)"
| "phase_view DrainTasks = ({Connected}, True, True)"
| "phase_view (StopSources _) = ({Connected}, True, True)"
| "phase_view Logout = ({Connected}, True, True)"
| "phase_view ClearState = ({Connected}, False, True)"
| "phase_view (Backoff _) = ({Disconnected}, False, False)"
| "phase_view Finish = ({Disconnected, Connecting}, False, False)"
| "phase_view (FinalStop _) = ({Disconnected}, False, False)"
| "phase_view RunReturned = ({Disconnected}, False, False)"

text \<open>The availability of the camera as the broker was told.\<close>

fun shown_online :: "CameraEvent list \<Rightarrow> bool" where
  "shown_online [] = False"
| "shown_online (ev # evs) = (case ev of Connection b \<Rightarrow> if \<exists>c. Connection c \<in> set evs then shown_online evs else b | _ \<Rightarrow> shown_online evs)"

lemma shown_online_append [simp]: "shown_online (evs @ [Connection b]) = b"
  by (induction evs) (auto split: CameraEvent.splits)

definition phase_ok :: "camera_handle \<Rightarrow> bool" where
  "phase_ok h \<longleftrightarrow> ch_state h \<in> fst (phase_view (ch_phase h)) \<and>
     ch_camera h = (if fst (snd (phase_view (ch_phase h))) then Some (ch_sessions h) else None) \<and>
     shown_online (ch_reports h) = snd (snd (phase_view (ch_phase h))) \<and>
     backoff_ok (secs 2) (secs 60) (ch_backoff h) \<and>
     (\<forall>c. ch_phase h = Keepalive c \<longrightarrow> unat c < 5)"

definition fresh_ok :: "camera_handle \<Rightarrow> bool" where
  "fresh_ok h \<longleftrightarrow> ch_late h \<or> (\<forall>s\<in>ran (ch_sources h). in_session (ch_phase h) \<and> src_session s = ch_sessions h)"

definition handle_ok :: "camera_handle \<Rightarrow> bool" where
  "handle_ok h \<longleftrightarrow> calls_ok (ch_create_lock h) (ch_calls h) \<and>
     registry_ok (ch_calls h) (ch_sources h) (ch_live h) (stopping (ch_phase h)) (ch_started h) \<and>
     phase_ok h \<and> fresh_ok h"

lemma handle_init_ok: "handle_ok handle_init"
  by (simp add: handle_ok_def handle_init_def calls_ok_def registry_ok_def phase_ok_def fresh_ok_def inserting_def
      backoff_ok_new secs_def)

subsection \<open>The connection loop\<close>

lemma back_off_some:
  assumes "backoff_ok (secs 2) (secs 60) (ch_backoff h)"
  obtains d b where "back_off h = Some (h\<lparr>ch_phase := Backoff d, ch_backoff := b\<rparr>)" "backoff_ok (secs 2) (secs 60) b"
proof -
  have "2 * secs 60 \<le> DURATION_MAX" by (simp add: secs_def DURATION_MAX_def NANOS_PER_SEC_def)
  from next_delay_ok [OF assms this] obtain b where b: "next_delay (ch_backoff h) = Some (bo_current (ch_backoff h), b)"
    "backoff_ok (secs 2) (secs 60) b" .
  show ?thesis by (rule that [of b "bo_current (ch_backoff h)"]) (simp_all add: back_off_def b)
qed

lemma registry_drain:
  assumes "registry_ok calls srcs live stop started" "set ks = set kinds" "stop = []"
  shows "registry_ok calls Map.empty live (List.map_filter srcs ks) started"
proof -
  have all: "k \<in> set ks" for k using assms(2) by (cases k) (simp_all add: kinds_def)
  have ran: "set (List.map_filter srcs ks) = ran srcs" by (force simp: map_filter_def ran_def all)
  show ?thesis using assms(1) unfolding registry_ok_def ran assms(3) by (auto dest: sym)
qed

lemma registry_stop:
  assumes "registry_ok calls srcs live (s # ss) started"
  shows "registry_ok calls srcs (live - {tag s}) ss started"
proof -
  note r = registryD [OF assms]
  have "tag s' \<noteq> tag s" if "s' \<in> ran srcs \<or> s' \<in> inserting calls" for s' using r(8) [of s s'] that by auto
  then have keep: "(k, src_id s') \<in> live - {tag s}" if "s' \<in> ran srcs \<or> s' \<in> inserting calls" "(k, src_id s') \<in> live" for k s'
    using r(8) [of s s'] that by auto
  show ?thesis using assms keep unfolding registry_ok_def
    by (auto simp: inserting_def intro: ranI) (blast+)?
qed

lemma keepalive_tick_bound:
  assumes "unat c < 5" "advance_keepalive_counter c o' KEEPALIVE_MAX_FAILURES = (n, False)"
  shows "unat n < 5"
  using assms sat_add32_small [of c]
  by (cases o') (auto simp: advance_keepalive_counter_def KEEPALIVE_MAX_FAILURES_def Let_def word_le_nat_alt)

lemma drain_keeps:
  assumes h: "registry_ok (ch_calls h) (ch_sources h) (ch_live h) (stopping (ch_phase h)) (ch_started h)"
      "calls_ok (ch_create_lock h) (ch_calls h)"
    and d: "drain_sources ks ph h = Some h'" and ph: "\<And>ss. stopping (ph ss) = ss" "stopping (ch_phase h) = []"
    and ok: "\<And>ss. phase_ok (h\<lparr>ch_phase := ph ss\<rparr>)"
  shows "handle_ok h'"
proof -
  from d have ks: "set ks = set kinds" and h': "h' = h\<lparr>ch_sources := Map.empty, ch_phase := ph (List.map_filter (ch_sources h) ks)\<rparr>"
    by (auto simp: drain_sources_def split: if_splits)
  have "phase_ok h'" using ok [of "List.map_filter (ch_sources h) ks"] by (simp add: h' phase_ok_def)
  then show ?thesis using registry_drain [OF h(1) ks ph(2)] h(2) by (simp add: handle_ok_def fresh_ok_def h' ph(1))
qed

lemmas run_defs = run_step_defs handle_ok_def phase_ok_def fresh_ok_def begin_connect_def finish_def probe_camera_def
  stop_source_def drain_sources_def

lemma same_registry:
  assumes "handle_ok h" and "ch_calls h' = ch_calls h" "ch_create_lock h' = ch_create_lock h" "ch_sources h' = ch_sources h"
    "ch_live h' = ch_live h" "ch_started h' = ch_started h" "ch_late h' = ch_late h"
    "stopping (ch_phase h') = stopping (ch_phase h)"
    "in_session (ch_phase h) \<longrightarrow> in_session (ch_phase h') \<and> ch_sessions h' = ch_sessions h" "phase_ok h'"
  shows "handle_ok h'"
  using assms by (auto simp: handle_ok_def fresh_ok_def)

lemma run_step_keeps:
  assumes "handle_ok h" "run_step cfg ev h = Some h'"
  shows "handle_ok h'"
proof -
  have bo: "backoff_ok (secs 2) (secs 60) (ch_backoff h)" using assms(1) by (simp add: handle_ok_def phase_ok_def)
  have off: "back_off g = Some g' \<Longrightarrow> ch_backoff g = ch_backoff h \<Longrightarrow>
      \<exists>d b. g' = g\<lparr>ch_phase := Backoff d, ch_backoff := b\<rparr> \<and> backoff_ok (secs 2) (secs 60) b" for g g'
    by (rule back_off_some [of g]) (use bo in auto)
  have reset: "backoff_ok (secs 2) (secs 60) (backoff_reset (ch_backoff h))"
    by (rule backoff_ok_reset [OF bo]) (simp add: secs_def)
  have ph: "phase_ok h" using assms(1) by (simp add: handle_ok_def)
  show ?thesis
  proof (cases "ch_phase h")
    case (Keepalive c)
    then have c: "unat c < 5" using assms(1) by (simp add: handle_ok_def phase_ok_def)
    have "handle_ok (h\<lparr>ch_phase := SessionOver\<rparr>)" "handle_ok (h\<lparr>ch_disconnect := False, ch_phase := SessionOver\<rparr>)"
      "unat n < 5 \<Longrightarrow> handle_ok (h\<lparr>ch_phase := Keepalive n\<rparr>)" for n
      using assms(1) Keepalive by (simp_all add: handle_ok_def phase_ok_def fresh_ok_def)
    with assms(2) Keepalive c show ?thesis
      by (auto simp: run_step_def at_keepalive_def split: run_event.splits prod.splits if_splits
          dest!: keepalive_tick_bound [OF c])
  next
    case DrainTasks
    with assms(2) obtain ks where d: "drain_sources ks StopSources h = Some h'"
      by (auto simp: run_step_def at_teardown_def split: run_event.splits)
    show ?thesis by (rule drain_keeps [OF _ _ d]) (use assms(1) DrainTasks in \<open>simp_all add: handle_ok_def phase_ok_def\<close>)
  next
    case Finish
    with assms(2) obtain ks where d: "drain_sources ks FinalStop (h\<lparr>ch_state := Disconnected\<rparr>) = Some h'"
      by (auto simp: run_step_def at_finish_def split: run_event.splits)
    show ?thesis by (rule drain_keeps [OF _ _ d]) (use assms(1) Finish in \<open>simp_all add: handle_ok_def phase_ok_def fresh_ok_def\<close>)
  next
    case (StopSources ss)
    then show ?thesis using assms
      by (cases ss) (auto simp: run_defs registry_stop split: run_event.splits)
  next
    case (FinalStop ss)
    then show ?thesis using assms
      by (cases ss) (auto simp: run_defs registry_stop split: run_event.splits)
  next
    case RunReturned
    with assms(2) show ?thesis by (simp add: run_step_def)
  qed (use assms(2) ph bo reset in
    \<open>auto simp: run_step_defs begin_connect_def finish_def probe_camera_def phase_ok_def
       split: run_event.splits connect_result.splits if_splits sum.splits dest!: off intro!: same_registry [OF assms(1)]\<close>)
qed

subsection \<open>The callers\<close>

lemma inserting_upd:
  assumes "\<And>c s. calls i = Some c \<Longrightarrow> sc_phase c \<noteq> Inserting s"
  shows "inserting (calls(i \<mapsto> c')) = inserting calls \<union> {s. sc_phase c' = Inserting s}"
    "inserting (calls(i := None)) = inserting calls"
proof -
  have "j \<noteq> i" if "calls j = Some c" "sc_phase c = Inserting s" for j c s using assms that by auto
  then show "inserting (calls(i \<mapsto> c')) = inserting calls \<union> {s. sc_phase c' = Inserting s}"
    "inserting (calls(i := None)) = inserting calls"
    unfolding inserting_def by (auto split: if_splits)
qed

lemma registry_call:
  assumes "registry_ok calls srcs live stop started" "\<And>c s. calls i = Some c \<Longrightarrow> sc_phase c \<noteq> Inserting s"
    and "\<And>s. sc_phase c' \<noteq> Inserting s" "committed (sc_phase c') \<Longrightarrow> srcs (sc_kind c') = None"
  shows "registry_ok (calls(i \<mapsto> c')) srcs live stop started" "registry_ok (calls(i := None)) srcs live stop started"
proof -
  have "inserting (calls(i \<mapsto> c')) = inserting calls" "inserting (calls(i := None)) = inserting calls"
    using assms(2,3) by (subst inserting_upd; blast)+
  then show "registry_ok (calls(i \<mapsto> c')) srcs live stop started" "registry_ok (calls(i := None)) srcs live stop started"
    using assms(1,3,4) unfolding registry_ok_def by (simp; blast)+
qed

lemma registry_start:
  assumes r: "registry_ok calls srcs live stop started" and c: "calls i = Some c" "sc_phase c = ReadCamera"
    and s: "src_kind s = sc_kind c" "src_id s = started"
  shows "registry_ok (calls(i \<mapsto> c\<lparr>sc_phase := Inserting s\<rparr>)) srcs (insert (tag s) live) stop (started + 1)"
proof -
  note d = registryD [OF r]
  have none: "srcs (sc_kind c) = None" using d(3) [OF c(1)] c(2) by simp
  have ins: "inserting (calls(i \<mapsto> c\<lparr>sc_phase := Inserting s\<rparr>)) = insert s (inserting calls)"
    using c by (subst inserting_upd) auto
  have old: "s' \<in> ran srcs \<or> s' \<in> set stop \<or> s' \<in> inserting calls \<Longrightarrow> src_id s' < started" for s' by (rule d(7))
  show ?thesis unfolding registry_ok_def ins
  proof (intro conjI)
    show "\<forall>s'\<in>ran srcs \<union> set stop \<union> insert s (inserting calls). src_id s' < started + 1"
      using old s(2) by (auto simp: less_Suc_eq)
    show "\<forall>s'\<in>set stop. \<forall>s''\<in>ran srcs \<union> insert s (inserting calls). src_id s'' \<noteq> src_id s'"
      using old d(8) s(2) by (metis UnE insertE nat_neq_iff)
    show "\<forall>s'\<in>insert s (inserting calls). \<forall>s''\<in>ran srcs. src_id s'' \<noteq> src_id s'"
      using old d(9) s(2) by (metis insertE nat_neq_iff)
  qed (use r none s in \<open>auto simp: registry_ok_def\<close>)
qed

lemma registry_insert:
  assumes r: "registry_ok calls srcs live stop started" and c: "calls i = Some c" "sc_phase c = Inserting s"
    and alone: "\<And>j c. calls j = Some c \<Longrightarrow> has_lock (sc_phase c) \<Longrightarrow> j = i"
  shows "registry_ok (calls(i \<mapsto> c\<lparr>sc_phase := SetupDone (Ok s)\<rparr>)) (srcs(sc_kind c \<mapsto> s)) live stop started"
proof -
  note d = registryD [OF r]
  have lock: "committed ph \<Longrightarrow> has_lock ph" for ph by (cases ph) simp_all
  have none: "srcs (sc_kind c) = None" using d(3) [OF c(1)] c(2) by simp
  have only: "inserting calls = {s}"
  proof -
    have "s' = s" if "calls j = Some c'" "sc_phase c' = Inserting s'" for j c' s' using alone [OF that(1)] that c by simp
    with c show ?thesis unfolding inserting_def by blast
  qed
  have ins: "inserting (calls(i \<mapsto> c\<lparr>sc_phase := SetupDone (Ok s)\<rparr>)) = {}"
  proof -
    have "sc_phase c' \<noteq> Inserting s'" if "calls j = Some c'" "j \<noteq> i" for j c' s' using alone [OF that(1)] that(2) by auto
    then show ?thesis by (auto simp: inserting_def split: if_splits)
  qed
  have ran: "ran (srcs(sc_kind c \<mapsto> s)) = insert s (ran srcs)" using none by (simp add: ran_map_upd)
  let ?calls = "calls(i \<mapsto> c\<lparr>sc_phase := SetupDone (Ok s)\<rparr>)"
  show ?thesis unfolding registry_ok_def ins ran
  proof (intro conjI)
    have "\<not> committed (sc_phase c')" if "?calls j = Some c'" for j c'
      using that alone [of j c'] lock [of "sc_phase c'"] by (auto split: if_splits)
    then show "\<forall>j c'. ?calls j = Some c' \<and> committed (sc_phase c') \<longrightarrow> (srcs(sc_kind c \<mapsto> s)) (sc_kind c') = None" by blast
    have "sc_phase c' \<noteq> Inserting s'" if "?calls j = Some c'" for j c' s'
      using that ins by (auto simp: inserting_def)
    then show "\<forall>j c' s'. ?calls j = Some c' \<and> sc_phase c' = Inserting s' \<longrightarrow>
        src_kind s' = sc_kind c' \<and> (sc_kind c', src_id s') \<in> live" by blast
    show "\<forall>s'\<in>set stop. \<forall>s''\<in>insert s (ran srcs) \<union> {}. src_id s'' \<noteq> src_id s'" using d(8) only by simp
    show "\<forall>t\<in>live. \<exists>s'\<in>insert s (ran srcs) \<union> set stop \<union> {}. tag s' = t" using d(6) only by fastforce
    show "\<forall>s'\<in>insert s (ran srcs) \<union> set stop \<union> {}. src_id s' < started" using d(7) only by blast
  qed (use d(1,2) d(4,5) [OF c] in auto)
qed

lemma calls_step:
  assumes ok: "calls_ok lock calls" and c: "calls i = Some c"
  shows "has_lock (sc_phase c') = has_lock (sc_phase c) \<Longrightarrow> calls_ok lock (calls(i \<mapsto> c'))"
    "has_lock (sc_phase c') \<Longrightarrow> lock = None \<Longrightarrow> calls_ok (Some i) (calls(i \<mapsto> c'))"
    "has_lock (sc_phase c) \<Longrightarrow> \<not> has_lock (sc_phase c') \<Longrightarrow> calls_ok None (calls(i \<mapsto> c'))"
  using assms unfolding calls_ok_def by (auto split: if_splits)

lemma handle_call:
  assumes "handle_ok h" "calls_ok lock calls"
    and "registry_ok calls (ch_sources h) (ch_live h) (stopping (ch_phase h)) (ch_started h)"
  shows "handle_ok (h\<lparr>ch_calls := calls, ch_create_lock := lock\<rparr>)"
    "lock = ch_create_lock h \<Longrightarrow> handle_ok (h\<lparr>ch_calls := calls\<rparr>)"
  using assms by (simp_all add: handle_ok_def phase_ok_def fresh_ok_def)

lemma handle_okD:
  assumes "handle_ok h"
  shows "calls_ok (ch_create_lock h) (ch_calls h)"
    "registry_ok (ch_calls h) (ch_sources h) (ch_live h) (stopping (ch_phase h)) (ch_started h)"
  using assms by (simp_all add: handle_ok_def)

fun starts :: "setup_phase \<Rightarrow> bool" where
  "starts (Inserting _) = True"
| "starts _ = False"

lemma starts_iff: "\<not> starts ph \<longleftrightarrow> (\<forall>s. ph \<noteq> Inserting s)"
  by (cases ph) auto

lemma set_phase_keeps:
  assumes h: "handle_ok h" and c: "ch_calls h i = Some c" "\<not> starts (sc_phase c)" "\<not> starts ph"
    and kind: "\<not> committed ph \<or> ch_sources h (sc_kind c) = None"
  shows "has_lock ph = has_lock (sc_phase c) \<Longrightarrow> handle_ok (set_phase i c ph h)"
    "has_lock ph \<Longrightarrow> ch_create_lock h = None \<Longrightarrow> handle_ok ((set_phase i c ph h)\<lparr>ch_create_lock := Some i\<rparr>)"
    "has_lock (sc_phase c) \<Longrightarrow> \<not> has_lock ph \<Longrightarrow> handle_ok ((set_phase i c ph h)\<lparr>ch_create_lock := None\<rparr>)"
proof -
  note call = calls_step [OF handle_okD(1) [OF h] c(1), of "c\<lparr>sc_phase := ph\<rparr>"]
  have reg: "registry_ok ((ch_calls h)(i \<mapsto> c\<lparr>sc_phase := ph\<rparr>)) (ch_sources h) (ch_live h) (stopping (ch_phase h)) (ch_started h)"
    by (rule registry_call [OF handle_okD(2) [OF h]]) (use c kind in \<open>auto simp: starts_iff\<close>)
  show "has_lock ph = has_lock (sc_phase c) \<Longrightarrow> handle_ok (set_phase i c ph h)"
    unfolding set_phase_def by (rule handle_call(2) [OF h call(1) reg]) simp_all
  show "has_lock ph \<Longrightarrow> ch_create_lock h = None \<Longrightarrow> handle_ok ((set_phase i c ph h)\<lparr>ch_create_lock := Some i\<rparr>)"
    unfolding set_phase_def by (rule handle_call(1) [OF h call(2) reg]) simp_all
  show "has_lock (sc_phase c) \<Longrightarrow> \<not> has_lock ph \<Longrightarrow> handle_ok ((set_phase i c ph h)\<lparr>ch_create_lock := None\<rparr>)"
    unfolding set_phase_def by (rule handle_call(1) [OF h call(3) reg]) simp_all
qed

lemma inserting_alone:
  "calls_ok lock calls \<Longrightarrow> calls i = Some c \<Longrightarrow> has_lock (sc_phase c) \<Longrightarrow> calls j = Some c' \<Longrightarrow> has_lock (sc_phase c') \<Longrightarrow> j = i"
  unfolding calls_ok_def by (metis option.inject)

lemma insert_keeps:
  assumes h: "handle_ok h" and c: "ch_calls h i = Some c" "sc_phase c = Inserting s"
  shows "handle_ok ((setup_done i c (Ok s) h)\<lparr>ch_sources := (ch_sources h)(sc_kind c \<mapsto> s),
     ch_late := (ch_late h \<or> \<not> in_session (ch_phase h) \<or> src_session s \<noteq> ch_sessions h)\<rparr>)" (is "handle_ok ?h")
proof -
  note co = handle_okD(1) [OF h] and re = handle_okD(2) [OF h]
  have none: "ch_sources h (sc_kind c) = None" using registryD(3) [OF re c(1)] c(2) by simp
  have "calls_ok None ((ch_calls h)(i \<mapsto> c\<lparr>sc_phase := SetupDone (Ok s)\<rparr>))"
    by (rule calls_step(3) [OF co c(1)]) (simp_all add: c)
  moreover have "registry_ok ((ch_calls h)(i \<mapsto> c\<lparr>sc_phase := SetupDone (Ok s)\<rparr>)) ((ch_sources h)(sc_kind c \<mapsto> s))
      (ch_live h) (stopping (ch_phase h)) (ch_started h)"
    by (rule registry_insert [OF re c]) (rule inserting_alone [OF co c(1)], simp_all add: c)
  moreover have "fresh_ok ?h" using h none by (auto simp: handle_ok_def fresh_ok_def setup_done_def set_phase_def ran_map_upd)
  moreover have "phase_ok ?h" using h by (simp add: handle_ok_def phase_ok_def setup_done_def set_phase_def)
  ultimately show ?thesis by (simp add: handle_ok_def setup_done_def set_phase_def)
qed

lemma start_keeps:
  assumes h: "handle_ok h" and c: "ch_calls h i = Some c" "sc_phase c = ReadCamera"
    and s: "src_kind s = sc_kind c" "src_id s = ch_started h"
  shows "handle_ok ((set_phase i c (Inserting s) h)\<lparr>ch_started := ch_started h + 1, ch_live := insert (tag s) (ch_live h)\<rparr>)"
proof -
  have "calls_ok (ch_create_lock h) ((ch_calls h)(i \<mapsto> c\<lparr>sc_phase := Inserting s\<rparr>))"
    by (rule calls_step(1) [OF handle_okD(1) [OF h] c(1)]) (simp add: c)
  with registry_start [OF handle_okD(2) [OF h] c s] h show ?thesis
    by (simp add: handle_ok_def phase_ok_def fresh_ok_def set_phase_def)
qed

lemma setup_step_keeps:
  assumes ok: "handle_ok h" and st: "setup_step i now h = Some h'"
  shows "handle_ok h'"
proof -
  from st obtain c where c: "ch_calls h i = Some c" by (auto simp: setup_step_def split: option.splits)
  note to = set_phase_keeps [OF ok c]
  have none: "committed (sc_phase c) \<Longrightarrow> ch_sources h (sc_kind c) = None" by (rule registryD(3) [OF handle_okD(2) [OF ok] c])
  show ?thesis
  proof (cases "sc_phase c")
    case (Inserting s)
    with st c insert_keeps [OF ok c Inserting] show ?thesis by (simp add: setup_step_def)
  next
    case ReadCamera
    let ?s = "\<lambda>n. \<lparr>src_id = ch_started h, src_kind = sc_kind c, src_session = n, src_idle_since = None\<rparr>"
    from ReadCamera st c show ?thesis using start_keeps [OF ok c ReadCamera, of "?s n" for n]
      by (auto simp: setup_step_def setup_done_def Let_def split: option.splits intro!: to(3))
  qed (use st c none ok in \<open>auto simp: setup_step_def setup_done_def split: option.splits if_splits intro!: to ok\<close>)
qed

subsection \<open>The rest\<close>

lemma prune_source_kept:
  "prune_source now grace subs s = Some s' \<Longrightarrow> src_id s' = src_id s \<and> src_kind s' = src_kind s \<and> src_session s' = src_session s"
  by (auto simp: prune_source_def split: if_splits option.splits)

lemma sweep_keeps:
  assumes "handle_ok h"
  shows "handle_ok (prune_idle_stream_sources_at now grace subs h)"
proof -
  let ?new = "\<lambda>k. Option.bind (ch_sources h k) (prune_source now grace (subs k))"
  let ?gone = "List.map_filter (\<lambda>k. if ?new k = None then map_option tag (ch_sources h k) else None) kinds"
  from assms have re: "registry_ok (ch_calls h) (ch_sources h) (ch_live h) (stopping (ch_phase h)) (ch_started h)"
    by (simp add: handle_ok_def)
  note d = registryD [OF re]
  have all: "k \<in> set kinds" for k by (cases k) (simp_all add: kinds_def)
  have old: "\<exists>s. ch_sources h k = Some s \<and> src_id s' = src_id s \<and> src_kind s' = src_kind s \<and> src_session s' = src_session s"
    if "?new k = Some s'" for k s'
    using that prune_source_kept by (auto simp: bind_eq_Some_conv)
  have gone: "t \<in> set ?gone \<longleftrightarrow> (\<exists>k s. ch_sources h k = Some s \<and> ?new k = None \<and> t = (k, src_id s))" for t
    using all d(1) by (force simp: map_filter_def split: if_splits)
  have ran: "s' \<in> ran ?new \<Longrightarrow> \<exists>s\<in>ran (ch_sources h). src_id s' = src_id s \<and> src_kind s' = src_kind s \<and> src_session s' = src_session s" for s'
    using old by (auto simp: ran_def) blast
  have reg: "registry_ok (ch_calls h) ?new (ch_live h - set ?gone) (stopping (ch_phase h)) (ch_started h)"
    unfolding registry_ok_def
  proof (intro conjI)
    show "\<forall>k s. ?new k = Some s \<longrightarrow> src_kind s = k \<and> (k, src_id s) \<in> ch_live h - set ?gone"
    proof (intro allI impI)
      fix k s assume n: "?new k = Some s"
      then obtain s0 where s0: "ch_sources h k = Some s0" "src_id s = src_id s0" "src_kind s = src_kind s0" using old by blast
      have "(k, src_id s0) \<notin> set ?gone" using n by (auto simp: gone)
      then show "src_kind s = k \<and> (k, src_id s) \<in> ch_live h - set ?gone" using s0 d(1,2) by auto
    qed
    show "\<forall>i c s. ch_calls h i = Some c \<and> sc_phase c = Inserting s \<longrightarrow>
        src_kind s = sc_kind c \<and> (sc_kind c, src_id s) \<in> ch_live h - set ?gone"
      using d(3,4,5) by (fastforce simp: gone)
    show "\<forall>t\<in>ch_live h - set ?gone. \<exists>s\<in>ran ?new \<union> set (stopping (ch_phase h)) \<union> inserting (ch_calls h). tag s = t"
    proof
      fix t assume t: "t \<in> ch_live h - set ?gone"
      then obtain s where s: "s \<in> ran (ch_sources h) \<union> set (stopping (ch_phase h)) \<union> inserting (ch_calls h)" "tag s = t" using d(6) by blast
      show "\<exists>s\<in>ran ?new \<union> set (stopping (ch_phase h)) \<union> inserting (ch_calls h). tag s = t"
      proof (cases "s \<in> ran (ch_sources h)")
        case True
        then obtain k where k: "ch_sources h k = Some s" by (auto simp: ran_def)
        with t s d(1) obtain s' where s': "?new k = Some s'" using gone by (cases "?new k") fastforce+
        have "s' \<in> ran ?new" using s' by (auto simp: ran_def intro!: exI [of _ k])
        moreover have "tag s' = t" using old [OF s'] k s by auto
        ultimately show ?thesis by blast
      qed (use s in blast)
    qed
    show "\<forall>i c. ch_calls h i = Some c \<and> committed (sc_phase c) \<longrightarrow> ?new (sc_kind c) = None"
      by (auto dest: d(3))
    show "\<forall>s\<in>ran ?new \<union> set (stopping (ch_phase h)) \<union> inserting (ch_calls h). src_id s < ch_started h"
      using d(7) ran by (metis Un_iff)
    show "\<forall>s\<in>set (stopping (ch_phase h)). \<forall>s'\<in>ran ?new \<union> inserting (ch_calls h). src_id s' \<noteq> src_id s"
      using d(8) ran by (metis Un_iff)
    show "\<forall>s\<in>inserting (ch_calls h). \<forall>s'\<in>ran ?new. src_id s' \<noteq> src_id s" using d(9) ran by metis
  qed
  with assms ran show ?thesis
    by (auto simp: handle_ok_def phase_ok_def fresh_ok_def prune_idle_stream_sources_at_def Let_def) metis+
qed

lemma handle_step_keeps: "handle_ok h \<Longrightarrow> handle_step cfg ev h = Some h' \<Longrightarrow> handle_ok h'"
proof (cases ev)
  case (Ask i k now)
  assume h: "handle_ok h" "handle_step cfg ev h = Some h'"
  with Ask have new: "ch_calls h i = None" and h': "h' = h\<lparr>ch_calls := (ch_calls h)(i \<mapsto> \<lparr>sc_kind = k, sc_phase = Polling (now + MAX_WAIT)\<rparr>)\<rparr>"
    by (auto simp: handle_step_def split: option.splits)
  have "calls_ok (ch_create_lock h) (ch_calls h')" using h(1) new unfolding h' by (auto simp: handle_ok_def calls_ok_def)
  moreover have "registry_ok (ch_calls h') (ch_sources h) (ch_live h) (stopping (ch_phase h)) (ch_started h)"
    unfolding h' using h(1) new by (auto simp: handle_ok_def intro!: registry_call(1))
  ultimately show ?thesis using h(1) by (simp add: handle_ok_def phase_ok_def fresh_ok_def h')
next
  case (Abandon i)
  assume h: "handle_ok h" "handle_step cfg ev h = Some h'"
  with Abandon obtain c where c: "ch_calls h i = Some c" "\<not> has_lock (sc_phase c)" "\<And>s. sc_phase c \<noteq> Inserting s"
    and h': "h' = h\<lparr>ch_calls := (ch_calls h)(i := None)\<rparr>"
    by (auto simp: handle_step_def split: option.splits setup_phase.splits)
  have "calls_ok (ch_create_lock h) (ch_calls h')" using h(1) c unfolding h' by (auto simp: handle_ok_def calls_ok_def)
  moreover have "registry_ok (ch_calls h') (ch_sources h) (ch_live h) (stopping (ch_phase h)) (ch_started h)"
    unfolding h' using h(1) c by (auto simp: handle_ok_def intro!: registry_call(2) [where c' = "\<lparr>sc_kind = Main, sc_phase = FastPath\<rparr>"])
  ultimately show ?thesis using h(1) by (simp add: handle_ok_def phase_ok_def fresh_ok_def h')
qed (auto simp: handle_step_def sweep_keeps dest: run_step_keeps setup_step_keeps,
     auto simp: handle_ok_def phase_ok_def fresh_ok_def)

interpretation handle: step_invariant "handle_step cfg" "\<lambda>_. True" handle_ok
  by unfold_locales (rule handle_step_keeps)

lemma run_step_progress:
  assumes ok: "handle_ok h" and "ch_phase h \<noteq> RunReturned"
  shows "\<exists>ev h'. run_step cfg ev h = Some h'"
proof -
  have bo: "backoff_ok (secs 2) (secs 60) (ch_backoff h)" using ok by (simp add: handle_ok_def phase_ok_def)
  have go: ?thesis if "run_step cfg ev h \<noteq> None" for ev using that by blast
  show ?thesis
  proof (cases "ch_phase h")
    case LoopTop
    then show ?thesis by (intro go [of "Go False"]) (simp add: run_step_defs)
  next
    case Parked
    then show ?thesis by (intro go [of Woken]) (simp add: run_step_defs)
  next
    case Dialling
    then show ?thesis by (intro go [of "Connect ConnectOk"]) (simp add: run_step_defs)
  next
    case Announce
    then show ?thesis by (intro go [of Published]) (simp add: run_step_defs)
  next
    case Probe
    then show ?thesis by (intro go [of "Probed (Inr False) (Inr [])"]) (simp add: run_step_defs)
  next
    case Spawn
    then show ?thesis by (intro go [of Spawned]) (simp add: run_step_defs)
  next
    case (Keepalive c)
    then show ?thesis by (intro go [of SessionCancelled]) (simp add: run_step_defs)
  next
    case SessionOver
    then show ?thesis by (intro go [of "CheckIdle False"]) (simp add: run_step_defs)
  next
    case (StopSources ss)
    then show ?thesis by (intro go [of SourceStopped]) (cases ss; simp add: run_step_defs)
  next
    case (FinalStop ss)
    then show ?thesis by (intro go [of SourceStopped]) (cases ss; simp add: run_step_defs)
  next
    case Logout
    then show ?thesis by (intro go [of LoggedOut]) (simp add: run_step_defs)
  next
    case ClearState
    have "backoff_ok (secs 2) (secs 60) (ch_backoff (h\<lparr>ch_state := Disconnected, ch_reports := ch_reports h @ [Connection False]\<rparr>))"
      using bo by simp
    from back_off_some [OF this] ClearState show ?thesis by (intro go [of Cleared]) (auto simp: run_step_defs)
  next
    case (Backoff d)
    then show ?thesis by (intro go [of RestDone]) (simp add: run_step_defs)
  next
    case DrainTasks
    then show ?thesis by (intro go [of "TasksDrained kinds"]) (simp add: run_step_defs drain_sources_def kinds_def)
  next
    case Finish
    then show ?thesis by (intro go [of "TasksDrained kinds"]) (simp add: run_step_defs drain_sources_def kinds_def)
  qed (use assms in simp)
qed

section \<open>Properties\<close>


definition w_connect :: "handle_event list" where
  "w_connect = [Run (Go False), Run (Connect ConnectOk), Run Published, Run (Probed (Inr False) (Inr [])), Run Spawned]"

definition w_setup :: "nat \<Rightarrow> handle_event list" where
  "w_setup i = Ask i Main 0 # replicate 7 (Setup i 0)"

definition w_teardown :: "handle_event list" where
  "w_teardown = [Run SessionCancelled, Run (CheckIdle False), Run (TasksDrained kinds)]"

definition w_rest :: "handle_event list" where
  "w_rest = [Run SourceStopped, Run SourceStopped, Run LoggedOut, Run Cleared, Run RestDone]"

definition w_source :: "nat \<Rightarrow> source" where
  "w_source n = \<lparr>src_id = n, src_kind = Main, src_session = 1, src_idle_since = None\<rparr>"

lemmas w_defs = handle_step_def run_step_defs setup_step_def set_phase_def setup_done_def begin_connect_def probe_camera_def
  drain_sources_def stop_source_def post_keepalive_preview_state_def w_source_def

lemma w_session:
  "handle_run cfg (w_connect @ w_setup 0 @ w_teardown) handle_init =
    Some \<lparr>ch_state = Connected, ch_camera = Some 1, ch_sources = Map.empty, ch_create_lock = None,
      ch_calls = [0 \<mapsto> \<lparr>sc_kind = Main, sc_phase = SetupDone (Ok (w_source 0))\<rparr>], ch_preview = PConnecting,
      ch_capabilities = Some False, ch_presets = [], ch_phase = StopSources [w_source 0],
      ch_backoff = backoff_new (secs 2) (secs 60), ch_cancelled = False, ch_disconnect = False,
      ch_reports = [Connection False, MotionUnknown, Connection True], ch_sessions = 1, ch_started = 1,
      ch_live = {(Main, 0)}, ch_late = False\<rparr>"
  by (simp add: handle_run_def w_connect_def w_setup_def w_teardown_def handle_init_def w_defs numeral_eq_Suc
      kinds_def map_filter_def backoff_reset_def backoff_new_def)

text \<open>
  C39. The check under the creation lock does not close the window it is meant to close: a session is torn down in
  the state Connected with its camera still in the slot, after the registry was emptied. A SETUP that arrives then
  starts a second source of a kind whose first is still running, and the source it registers outlives the session:
  once the camera is connected again, a later SETUP is given this dead source and starts none.
\<close>

theorem teardown_stale_source:
  "\<exists>h1 h2. handle_run cfg (w_connect @ w_setup 0 @ w_teardown @ w_setup 1) handle_init = Some h1 \<and>
     {(Main, 0), (Main, 1)} \<subseteq> ch_live h1 \<and> src_kind (w_source 0) = Main \<and>
     handle_run cfg (w_rest @ w_connect @ [Ask 2 Main 0, Setup 2 0, Setup 2 0]) h1 = Some h2 \<and>
     ch_camera h2 = Some 2 \<and> ch_state h2 = Connected \<and> ch_started h2 = 2 \<and>
     map_option sc_phase (ch_calls h2 2) = Some (SetupDone (Ok (w_source 1))) \<and> src_session (w_source 1) = 1"
proof -
  have late: "\<exists>h1. handle_run cfg (w_connect @ w_setup 0 @ w_teardown @ w_setup 1) handle_init = Some h1 \<and>
      ch_live h1 = {(Main, 0), (Main, 1)} \<and> ch_sources h1 = [Main \<mapsto> w_source 1] \<and> ch_phase h1 = StopSources [w_source 0] \<and>
      ch_camera h1 = Some 1 \<and> ch_sessions h1 = 1 \<and> ch_started h1 = 2 \<and> ch_calls h1 2 = None \<and> \<not> ch_cancelled h1 \<and>
      ch_backoff h1 = backoff_new (secs 2) (secs 60)"
    using w_session [of cfg] unfolding handle_run_def append_assoc [symmetric] run_events_append [of _ _ "w_setup 1"]
    by (simp add: w_setup_def w_defs numeral_eq_Suc) auto
  then obtain h1 where h1: "handle_run cfg (w_connect @ w_setup 0 @ w_teardown @ w_setup 1) handle_init = Some h1"
    "ch_live h1 = {(Main, 0), (Main, 1)}" "ch_sources h1 = [Main \<mapsto> w_source 1]" "ch_phase h1 = StopSources [w_source 0]"
    "ch_camera h1 = Some 1" "ch_sessions h1 = 1" "ch_started h1 = 2" "ch_calls h1 2 = None" "\<not> ch_cancelled h1"
    "ch_backoff h1 = backoff_new (secs 2) (secs 60)" by blast
  have nd: "next_delay (backoff_new (secs 2) (secs 60)) = Some (secs 2, (backoff_new (secs 2) (secs 60))\<lparr>bo_current := secs 4\<rparr>)"
    by (simp add: next_delay_def backoff_new_def secs_def NANOS_PER_SEC_def DURATION_MAX_def)
  have "\<exists>h2. handle_run cfg (w_rest @ w_connect @ [Ask 2 Main 0, Setup 2 0, Setup 2 0]) h1 = Some h2 \<and>
     ch_camera h2 = Some 2 \<and> ch_state h2 = Connected \<and> ch_started h2 = 2 \<and>
     map_option sc_phase (ch_calls h2 2) = Some (SetupDone (Ok (w_source 1)))"
    using h1(2-) by (simp add: handle_run_def w_rest_def w_connect_def handle_step_def run_step_defs setup_step_def set_phase_def
        begin_connect_def probe_camera_def stop_source_def back_off_def nd)
  with h1 show ?thesis by (auto simp: w_source_def)
qed


end
