(* ===== verification/Spec2Isabelle.thy ===== *)
theory Spec2Isabelle
  imports Bc_Conn Bc_Stream Bcmedia Rtp Stream_Source Wake_Lock Wake_Server Session_Task App Mqtt_Discovery Camera_Handle
begin

text \<open>
  A verification development of bairelay.
\<close>

end
